(* ===== verification/Prelude.thy ===== *)
theory Prelude
  imports Main "HOL-Library.Word"
begin

text \<open>
  What every component of the development shares: C strings as lists of bytes up to the
  terminating NUL, decimal numerals as the C library prints and reads them, arrays compacted
  by shifting, and first-match searches. The lemmas are collected in \<open>cstring\<close> (strings and
  buffers) and \<open>arr\<close> (array compaction and search), so that component proofs name one
  collection instead of single facts.
\<close>

named_theorems cstring \<open>C strings, buffers and truncation\<close>
named_theorems arr \<open>arrays: compaction, insertion, first match\<close>

type_synonym bytes = string
type_synonym time = int

section \<open>C strings\<close>

text \<open>
  A \<open>char[]\<close> read as a C string is the bytes before the first NUL. A value of type
  \<open>string\<close> in the models is always such a prefix; \<open>cstr\<close> is applied where the code may put a
  NUL inside a buffer.
\<close>

definition NUL :: char where
  "NUL = CHR 0x00"

definition cstr :: "bytes \<Rightarrow> string" where
  "cstr bs = takeWhile (\<lambda>c. c \<noteq> NUL) bs"

definition no_nul :: "bytes \<Rightarrow> bool" where
  "no_nul bs \<longleftrightarrow> list_all (\<lambda>c. c \<noteq> NUL) bs"

text \<open>
  \<open>strncpy(dst, src, n)\<close> into a zeroed or terminated buffer of more than \<open>n\<close> bytes keeps the
  first \<open>n\<close> bytes; \<open>snprintf(buf, n, ...)\<close> keeps the first \<open>n - 1\<close>.
\<close>

definition strncpy :: "nat \<Rightarrow> string \<Rightarrow> string" where
  "strncpy n s = take n s"

definition snprintf :: "nat \<Rightarrow> string \<Rightarrow> string" where
  "snprintf n s = take (n - 1) s"

lemma no_nul_Nil [simp]: "no_nul []"
  by (simp add: no_nul_def)

lemma no_nul_Cons [simp]: "no_nul (c # s) \<longleftrightarrow> c \<noteq> NUL \<and> no_nul s"
  by (simp add: no_nul_def)

lemma no_nul_append [simp]: "no_nul (s @ t) \<longleftrightarrow> no_nul s \<and> no_nul t"
  by (simp add: no_nul_def)

lemma no_nul_set: "no_nul s \<longleftrightarrow> NUL \<notin> set s"
  by (auto simp: no_nul_def list_all_iff)

lemma cstr_id [simp]: "no_nul s \<Longrightarrow> cstr s = s"
  by (simp add: cstr_def no_nul_def list_all_iff takeWhile_eq_all_conv)

lemma no_nul_take: "no_nul s \<Longrightarrow> no_nul (take n s)"
  by (auto simp: no_nul_set dest: in_set_takeD)

lemma strncpy_fits [cstring]: "length s \<le> n \<Longrightarrow> strncpy n s = s"
  by (simp add: strncpy_def)

lemma snprintf_fits [cstring]: "length s < n \<Longrightarrow> snprintf n s = s"
  by (simp add: snprintf_def)

lemma length_strncpy [cstring]: "length (strncpy n s) \<le> n"
  by (simp add: strncpy_def)

lemma length_snprintf [cstring]: "0 < n \<Longrightarrow> length (snprintf n s) < n"
  by (simp add: snprintf_def min_def) linarith

section \<open>Decimal numerals\<close>

text \<open>\<open>printf\<close>'s \<open>%d\<close> and the C library's \<open>atoi\<close>.\<close>

definition digit_char :: "nat \<Rightarrow> char" where
  "digit_char d = char_of (48 + d)"

definition is_digit :: "char \<Rightarrow> bool" where
  "is_digit c \<longleftrightarrow> 48 \<le> (of_char c :: nat) \<and> (of_char c :: nat) \<le> 57"

definition digit_val :: "char \<Rightarrow> nat" where
  "digit_val c = (of_char c :: nat) - 48"

fun dec_nat :: "nat \<Rightarrow> string" where
  "dec_nat n = (if n < 10 then [digit_char n] else dec_nat (n div 10) @ [digit_char (n mod 10)])"

declare dec_nat.simps [simp del]

definition dec_int :: "int \<Rightarrow> string" where
  "dec_int i = (if i < 0 then CHR ''-'' # dec_nat (nat (- i)) else dec_nat (nat i))"

text \<open>The value of a run of digits, most significant first.\<close>

definition digits_val :: "string \<Rightarrow> nat" where
  "digits_val ds = foldl (\<lambda>n c. 10 * n + digit_val c) 0 ds"

definition is_c_space :: "char \<Rightarrow> bool" where
  "is_c_space c \<longleftrightarrow> c = CHR '' '' \<or> (9 \<le> (of_char c :: nat) \<and> (of_char c :: nat) \<le> 13)"

text \<open>
  \<open>atoi\<close> skips white space, reads an optional sign and the digits after it, and stops at the
  first other byte. Its value outside the range of \<open>int\<close> is undefined in C; here it is what
  the GNU library computes, \<open>(int) strtol (...)\<close>: clamped to 64 bits, then the low 32 bits.
\<close>

definition clamp64 :: "int \<Rightarrow> int" where
  "clamp64 i = max (- (2 ^ 63)) (min (2 ^ 63 - 1) i)"

definition to_int32 :: "int \<Rightarrow> int" where
  "to_int32 i = (i + 2 ^ 31) mod 2 ^ 32 - 2 ^ 31"

definition int32 :: "int \<Rightarrow> bool" where
  "int32 i \<longleftrightarrow> - (2 ^ 31) \<le> i \<and> i < 2 ^ 31"

definition atoi :: "string \<Rightarrow> int" where
  "atoi s =
     (let t = dropWhile is_c_space s;
          neg = (case t of c # _ \<Rightarrow> c = CHR ''-'' | [] \<Rightarrow> False);
          u = (case t of c # cs \<Rightarrow> (if c = CHR ''-'' \<or> c = CHR ''+'' then cs else t) | [] \<Rightarrow> []);
          v = int (digits_val (takeWhile is_digit u))
      in to_int32 (clamp64 (if neg then - v else v)))"

text \<open>
  A numeric conversion of \<open>sscanf\<close>: it skips white space, takes an optional sign and digits, and
  fails without digits; the value before it is cut to its type, and the rest of the input.
\<close>

definition scan_number :: "string \<Rightarrow> (int \<times> string) option" where
  "scan_number s =
     (let t = dropWhile is_c_space s;
          neg = (case t of c # _ \<Rightarrow> c = CHR ''-'' | [] \<Rightarrow> False);
          u = (case t of c # cs \<Rightarrow> (if c = CHR ''-'' \<or> c = CHR ''+'' then cs else t) | [] \<Rightarrow> []);
          ds = takeWhile is_digit u;
          v = int (digits_val ds)
      in if ds = [] then None else Some (if neg then - v else v, dropWhile is_digit u))"

lemma of_digit_char [simp]: "d < 10 \<Longrightarrow> (of_char (digit_char d) :: nat) = 48 + d"
  by (simp add: digit_char_def)

lemma is_digit_char [simp]: "d < 10 \<Longrightarrow> is_digit (digit_char d)"
  by (simp add: is_digit_def)

lemma digit_val_char [simp]: "d < 10 \<Longrightarrow> digit_val (digit_char d) = d"
  by (simp add: digit_val_def)

lemma digit_chars [cstring]:
  "digit_char 0 = CHR ''0''" "digit_char (Suc 0) = CHR ''1''" "digit_char 2 = CHR ''2''"
  "digit_char 3 = CHR ''3''" "digit_char 4 = CHR ''4''" "digit_char 5 = CHR ''5''"
  "digit_char 6 = CHR ''6''" "digit_char 7 = CHR ''7''" "digit_char 8 = CHR ''8''"
  "digit_char 9 = CHR ''9''"
  by code_simp+

lemma dec_nat_digits: "list_all is_digit (dec_nat n)"
proof (induction n rule: dec_nat.induct)
  case (1 n)
  then show ?case by (subst dec_nat.simps) auto
qed

lemma dec_nat_not_Nil [simp]: "dec_nat n \<noteq> []"
  by (subst dec_nat.simps) simp

lemma digits_val_snoc: "digits_val (ds @ [c]) = 10 * digits_val ds + digit_val c"
  by (simp add: digits_val_def)

lemma digits_val_dec_nat [simp]: "digits_val (dec_nat n) = n"
proof (induction n rule: dec_nat.induct)
  case (1 n)
  show ?case
  proof (cases "n < 10")
    case True
    then show ?thesis by (subst dec_nat.simps) (simp add: digits_val_def)
  next
    case False
    with 1 show ?thesis by (subst dec_nat.simps) (simp add: digits_val_snoc)
  qed
qed

lemma length_dec_nat: "n < 10 ^ k \<Longrightarrow> 0 < k \<Longrightarrow> length (dec_nat n) \<le> k"
proof (induction n arbitrary: k rule: dec_nat.induct)
  case (1 n)
  show ?case
  proof (cases "n < 10")
    case True
    with "1.prems" show ?thesis by (subst dec_nat.simps) simp
  next
    case False
    with "1.prems" have "k \<noteq> 1" by (intro notI) simp
    with "1.prems" obtain j where j: "k = Suc j" and "0 < j"
      by (cases k) auto
    with "1.prems" have "n div 10 < 10 ^ j" by (simp add: less_mult_imp_div_less mult.commute)
    with "1.IH" False \<open>0 < j\<close> have "length (dec_nat (n div 10)) \<le> j" by blast
    with False j show ?thesis by (subst dec_nat.simps) simp
  qed
qed

lemma is_digit_bounds: "is_digit c \<Longrightarrow> c \<noteq> CHR ''|'' \<and> c \<noteq> CHR ''-'' \<and> c \<noteq> CHR ''+'' \<and> c \<noteq> NUL \<and> \<not> is_c_space c"
  by (auto simp: is_digit_def is_c_space_def NUL_def)

lemma dec_int_chars: "c \<in> set (dec_int i) \<Longrightarrow> is_digit c \<or> c = CHR ''-''"
  using dec_nat_digits [of "nat i"] dec_nat_digits [of "nat (- i)"]
  by (auto simp: dec_int_def list_all_iff split: if_splits)

lemma dec_int_not_Nil [simp]: "dec_int i \<noteq> []"
  by (simp add: dec_int_def)

lemma dec_int_no_bar [cstring]: "CHR ''|'' \<notin> set (dec_int i)"
  by (auto dest: dec_int_chars is_digit_bounds)

lemma dec_int_no_nul [cstring]: "no_nul (dec_int i)"
  by (auto simp: no_nul_set NUL_def dest!: dec_int_chars is_digit_bounds)

lemma length_dec_int:
  assumes "int32 i"
  shows "length (dec_int i) \<le> 11"
proof -
  have "length (dec_nat (nat i)) \<le> 10" "length (dec_nat (nat (- i))) \<le> 10"
    using assms by (auto simp: int32_def intro!: length_dec_nat)
  then show ?thesis by (auto simp: dec_int_def)
qed

lemma to_int32_id: "int32 i \<Longrightarrow> to_int32 i = i"
  by (simp add: to_int32_def int32_def)

lemma int32_to_int32: "int32 (to_int32 i)"
proof -
  have "0 \<le> (i + 2 ^ 31) mod 2 ^ 32 \<and> (i + 2 ^ 31) mod 2 ^ 32 < (2 ^ 32 :: int)" by simp
  then show ?thesis unfolding to_int32_def int32_def by simp
qed

lemma clamp64_id: "int32 i \<Longrightarrow> clamp64 i = i"
  by (simp add: clamp64_def int32_def)

lemma atoi_dec_int [simp]:
  assumes "int32 i"
  shows "atoi (dec_int i) = i"
proof -
  have tw: "takeWhile is_digit (dec_nat n) = dec_nat n" for n
    using dec_nat_digits by (simp add: list_all_iff takeWhile_eq_all_conv)
  obtain c cs where c: "dec_nat (nat i) = c # cs" by (cases "dec_nat (nat i)") auto
  have "is_digit c" using dec_nat_digits [of "nat i"] c by simp
  then have nc: "c \<noteq> CHR ''-''" "c \<noteq> CHR ''+''" "\<not> is_c_space c"
    by (auto dest: is_digit_bounds)
  show ?thesis
  proof (cases "i < 0")
    case True
    then have "atoi (dec_int i) = to_int32 (clamp64 (- int (nat (- i))))"
      by (simp add: atoi_def dec_int_def is_c_space_def tw)
    with True assms show ?thesis by (simp add: clamp64_id to_int32_id)
  next
    case False
    have "dropWhile is_c_space (dec_nat (nat i)) = dec_nat (nat i)" using c nc by simp
    moreover have "(case dec_nat (nat i) of c # cs \<Rightarrow> c = CHR ''-'' | [] \<Rightarrow> False) = False"
      using c nc by simp
    moreover have "(case dec_nat (nat i) of c # cs \<Rightarrow>
        (if c = CHR ''-'' \<or> c = CHR ''+'' then cs else dec_nat (nat i)) | [] \<Rightarrow> []) = dec_nat (nat i)"
      using c nc by simp
    ultimately have "atoi (dec_int i) = to_int32 (clamp64 (int (nat i)))"
      using False by (simp add: atoi_def dec_int_def Let_def tw)
    with False assms show ?thesis by (simp add: clamp64_id to_int32_id)
  qed
qed

section \<open>Fields of a string\<close>

text \<open>
  The maximal runs of characters that are not separators: what a scanning loop over a line, or one
  call of \<open>strtok\<close> after the other, finds.
\<close>

function split_fields :: "(char \<Rightarrow> bool) \<Rightarrow> string \<Rightarrow> string list" where
  "split_fields sep s =
     (case dropWhile sep s of
        [] \<Rightarrow> []
      | t \<Rightarrow> takeWhile (\<lambda>c. \<not> sep c) t # split_fields sep (dropWhile (\<lambda>c. \<not> sep c) t))"
  by pat_completeness auto

termination
proof (relation "measure (\<lambda>(sep, s). length s)")
  fix sep s c t
  assume t: "dropWhile sep s = c # t"
  then have "\<not> sep c" using hd_dropWhile [of sep s] by auto
  then have "length (dropWhile (\<lambda>c. \<not> sep c) (c # t)) \<le> length t"
    by (simp add: length_dropWhile_le)
  also have "length t < length s" using length_dropWhile_le [of sep s] t by simp
  finally show "((sep, dropWhile (\<lambda>c. \<not> sep c) (c # t)), sep, s) \<in> measure (\<lambda>(sep, s). length s)"
    by simp
qed simp

declare split_fields.simps [simp del]

definition strtok :: "char \<Rightarrow> string \<Rightarrow> string list" where
  "strtok sep s = split_fields (\<lambda>c. c = sep) s"

section \<open>Arrays\<close>

text \<open>
  \<open>for (j = i; j < n - 1; j++) a[j] = a[j + 1]; n--\<close> removes the element at \<open>i\<close>;
  \<open>for (j = n; j > i; j--) a[j] = a[j - 1]; a[i] = x; n++\<close> inserts at \<open>i\<close>; a search loop
  with \<open>break\<close> finds the first index with a property.
\<close>

definition remove_nth :: "nat \<Rightarrow> 'a list \<Rightarrow> 'a list" where
  "remove_nth i xs = take i xs @ drop (Suc i) xs"

definition insert_nth :: "nat \<Rightarrow> 'a \<Rightarrow> 'a list \<Rightarrow> 'a list" where
  "insert_nth i x xs = take i xs @ x # drop i xs"

fun find_index :: "('a \<Rightarrow> bool) \<Rightarrow> 'a list \<Rightarrow> nat option" where
  "find_index P [] = None"
| "find_index P (x # xs) = (if P x then Some 0 else map_option Suc (find_index P xs))"

lemma length_remove_nth [arr]: "i < length xs \<Longrightarrow> length (remove_nth i xs) = length xs - 1"
  by (simp add: remove_nth_def)

lemma length_insert_nth [arr, simp]: "length (insert_nth i x xs) = Suc (length xs)"
  by (simp add: insert_nth_def)

lemma set_remove_nth_subset [arr]: "set (remove_nth i xs) \<subseteq> set xs"
  by (auto simp: remove_nth_def dest: in_set_takeD in_set_dropD)

lemma find_index_Some [arr]:
  "find_index P xs = Some i \<longleftrightarrow> i < length xs \<and> P (xs ! i) \<and> (\<forall>j < i. \<not> P (xs ! j))"
proof (induction xs arbitrary: i)
  case (Cons x xs)
  then show ?case by (cases i) (auto simp: All_less_Suc2)
qed simp

lemma find_index_None [arr]: "find_index P xs = None \<longleftrightarrow> (\<forall>x \<in> set xs. \<not> P x)"
  by (induction xs) auto

lemma find_index_bound: "find_index P xs = Some i \<Longrightarrow> i < length xs"
  by (simp add: find_index_Some)

lemma find_index_append:
  "find_index P (xs @ ys) = (case find_index P xs of Some i \<Rightarrow> Some i | None \<Rightarrow> map_option ((+) (length xs)) (find_index P ys))"
proof (induction xs)
  case Nil
  show ?case by (cases "find_index P ys") simp_all
next
  case (Cons x xs)
  then show ?case by (cases "find_index P xs"; cases "find_index P ys") simp_all
qed

end
