(* ===== verification/Common.thy ===== *)
theory Common
  imports Prelude
begin

text \<open>
  \<open>common.h\<close> and \<open>common.c\<close>: the limits, status codes and message types, the metadata and
  message structures every program of the system shares, the text format messages are sent in
  (\<open>serialize_message\<close>, \<open>deserialize_message\<close>), its framing over a TCP byte stream
  (\<open>send_message\<close>, \<open>recv_message\<close>), and \<open>trim_whitespace\<close>. A \<open>char[n]\<close> field is the C string it
  holds; an \<open>int\<close> or enum field is an \<open>int\<close>, since a peer can send any number for it.
\<close>

section \<open>Limits, status codes and message types\<close>

definition MAX_FILENAME :: nat where [simp]: "MAX_FILENAME = 256"
definition MAX_USERNAME :: nat where [simp]: "MAX_USERNAME = 64"
definition MAX_PATH :: nat where [simp]: "MAX_PATH = 512"
definition MAX_BUFFER :: nat where [simp]: "MAX_BUFFER = 8192"
definition MAX_WORD :: nat where [simp]: "MAX_WORD = 128"
definition MAX_FILES :: nat where [simp]: "MAX_FILES = 10000"
definition MAX_CLIENTS :: nat where [simp]: "MAX_CLIENTS = 100"
definition MAX_SS :: nat where [simp]: "MAX_SS = 50"
definition MAX_ACL_ENTRIES :: nat where [simp]: "MAX_ACL_ENTRIES = 100"
definition CACHE_SIZE :: nat where [simp]: "CACHE_SIZE = 100"

definition SUCCESS :: int where [simp]: "SUCCESS = 200"
definition ERR_FILE_NOT_FOUND :: int where [simp]: "ERR_FILE_NOT_FOUND = 404"
definition ERR_ACCESS_DENIED :: int where [simp]: "ERR_ACCESS_DENIED = 403"
definition ERR_SENTENCE_LOCKED :: int where [simp]: "ERR_SENTENCE_LOCKED = 423"
definition ERR_INVALID_INDEX :: int where [simp]: "ERR_INVALID_INDEX = 400"
definition ERR_FILE_EXISTS :: int where [simp]: "ERR_FILE_EXISTS = 409"
definition ERR_SS_UNAVAILABLE :: int where [simp]: "ERR_SS_UNAVAILABLE = 503"
definition ERR_INVALID_OPERATION :: int where [simp]: "ERR_INVALID_OPERATION = 405"
definition ERR_SERVER_ERROR :: int where [simp]: "ERR_SERVER_ERROR = 500"
definition ERR_NOT_OWNER :: int where [simp]: "ERR_NOT_OWNER = 401"
definition ERR_USER_NOT_FOUND :: int where [simp]: "ERR_USER_NOT_FOUND = 406"
definition ERR_FILE_LOCKED :: int where [simp]: "ERR_FILE_LOCKED = 424"

datatype message_type =
    MSG_REG_SS | MSG_REG_CLIENT | MSG_CREATE | MSG_READ | MSG_WRITE | MSG_DELETE | MSG_INFO
  | MSG_VIEW | MSG_LIST | MSG_ADDACCESS | MSG_REMACCESS | MSG_STREAM | MSG_EXEC | MSG_UNDO
  | MSG_LOCK_SENTENCE | MSG_UNLOCK_SENTENCE | MSG_ACK | MSG_NACK | MSG_DATA | MSG_ERROR
  | MSG_STOP | MSG_CHECK_LOCKS | MSG_CREATEFOLDER | MSG_MOVE | MSG_VIEWFOLDER | MSG_CHECKPOINT
  | MSG_VIEWCHECKPOINT | MSG_REVERT | MSG_LISTCHECKPOINTS | MSG_REQUESTACCESS
  | MSG_VIEWREQUESTS | MSG_APPROVEREQUEST | MSG_DENYREQUEST | MSG_SS_INFO | MSG_CANCEL_WRITE
  | MSG_COMMIT_WRITE

definition message_types :: "message_type list" where
  "message_types =
    [MSG_REG_SS, MSG_REG_CLIENT, MSG_CREATE, MSG_READ, MSG_WRITE, MSG_DELETE, MSG_INFO,
     MSG_VIEW, MSG_LIST, MSG_ADDACCESS, MSG_REMACCESS, MSG_STREAM, MSG_EXEC, MSG_UNDO,
     MSG_LOCK_SENTENCE, MSG_UNLOCK_SENTENCE, MSG_ACK, MSG_NACK, MSG_DATA, MSG_ERROR,
     MSG_STOP, MSG_CHECK_LOCKS, MSG_CREATEFOLDER, MSG_MOVE, MSG_VIEWFOLDER, MSG_CHECKPOINT,
     MSG_VIEWCHECKPOINT, MSG_REVERT, MSG_LISTCHECKPOINTS, MSG_REQUESTACCESS,
     MSG_VIEWREQUESTS, MSG_APPROVEREQUEST, MSG_DENYREQUEST, MSG_SS_INFO, MSG_CANCEL_WRITE,
     MSG_COMMIT_WRITE]"

text \<open>
  The number C gives each enumerator, and the enumerator of a received number; \<open>None\<close> is what
  a \<open>switch\<close> sends to its \<open>default\<close>.
\<close>

definition type_code :: "message_type \<Rightarrow> int" where
  "type_code t = int (the (find_index (\<lambda>u. u = t) message_types))"

definition type_of_code :: "int \<Rightarrow> message_type option" where
  "type_of_code i =
     (if 0 \<le> i \<and> i < int (length message_types) then Some (message_types ! nat i) else None)"

definition ACCESS_NONE :: int where [simp]: "ACCESS_NONE = 0"
definition ACCESS_READ :: int where [simp]: "ACCESS_READ = 1"
definition ACCESS_WRITE :: int where [simp]: "ACCESS_WRITE = 2"
definition ACCESS_READWRITE :: int where [simp]: "ACCESS_READWRITE = 3"

lemma type_of_code_code [simp]: "type_of_code (type_code t) = Some t"
  by (cases t) (simp_all add: type_code_def type_of_code_def message_types_def)

lemma type_code_inject [simp]: "type_code t = type_code u \<longleftrightarrow> t = u"
  by (metis option.inject type_of_code_code)

text \<open>The constants are ordered as the enumeration declares them, which is how C compares them.\<close>

instantiation message_type :: linorder
begin

definition less_eq_message_type :: "message_type \<Rightarrow> message_type \<Rightarrow> bool" where
  "less_eq_message_type t u \<longleftrightarrow> type_code t \<le> type_code u"

definition less_message_type :: "message_type \<Rightarrow> message_type \<Rightarrow> bool" where
  "less_message_type t u \<longleftrightarrow> type_code t < type_code u"

instance
  by standard (auto simp: less_eq_message_type_def less_message_type_def)

end

lemma message_types_sorted: "sorted_wrt (<) message_types"
  by (simp add: message_types_def less_message_type_def type_code_def)

lemma type_code_int32: "int32 (type_code t)"
  by (cases t) (simp_all add: type_code_def message_types_def int32_def)

section \<open>Structures\<close>

record acl_entry =
  acl_username :: string
  acl_access :: int

record file_metadata =
  fm_filename :: string
  fm_folder_path :: string
  fm_owner :: string
  fm_ss_id :: int
  fm_size :: int
  fm_word_count :: int
  fm_char_count :: int
  fm_created :: time
  fm_modified :: time
  fm_accessed :: time
  fm_last_accessed_by :: string
  fm_acl :: "acl_entry list"

record folder_metadata =
  fd_foldername :: string
  fd_parent_path :: string
  fd_owner :: string
  fd_created :: time
  fd_ss_id :: int
  fd_acl :: "acl_entry list"

record message =
  msg_type :: int
  msg_status :: int
  msg_sender :: string
  msg_filename :: string
  msg_foldername :: string
  msg_checkpoint_tag :: string
  msg_target_path :: string
  msg_data :: string
  msg_sentence_index :: int
  msg_word_index :: int
  msg_ss_id :: int
  msg_client_port :: int
  msg_nm_port :: int
  msg_access :: int
  msg_target_user :: string

definition init_message :: message where
  "init_message =
    \<lparr>msg_type = type_code MSG_ACK, msg_status = SUCCESS, msg_sender = [], msg_filename = [],
     msg_foldername = [], msg_checkpoint_tag = [], msg_target_path = [], msg_data = [],
     msg_sentence_index = -1, msg_word_index = -1, msg_ss_id = -1, msg_client_port = 0,
     msg_nm_port = 0, msg_access = ACCESS_NONE, msg_target_user = []\<rparr>"

section \<open>The text format of a message\<close>

definition BAR :: char where
  "BAR = CHR ''|''"

definition serialize_message :: "message \<Rightarrow> string" where
  "serialize_message msg =
     dec_int (msg_type msg) @ BAR # dec_int (msg_status msg) @ BAR # msg_sender msg @ BAR #
     msg_filename msg @ BAR # msg_foldername msg @ BAR # msg_target_path msg @ BAR #
     dec_int (msg_sentence_index msg) @ BAR # dec_int (msg_word_index msg) @ BAR #
     dec_int (msg_ss_id msg) @ BAR # dec_int (msg_client_port msg) @ BAR #
     dec_int (msg_nm_port msg) @ BAR # dec_int (msg_access msg) @ BAR #
     msg_target_user msg @ BAR # msg_checkpoint_tag msg @ BAR # msg_data msg"

text \<open>
  One turn of the loop of \<open>deserialize_message\<close>: what a token does to the structure. After
  fields 4, 5 and 13 the code terminates another field's buffer than the one it copied to
  (\<open>filename\<close>, \<open>filename\<close> and \<open>sender\<close>), and it copies at most 255 bytes of the target path.
\<close>

definition set_field :: "nat \<Rightarrow> string \<Rightarrow> message \<Rightarrow> message" where
  "set_field field tok msg =
    (if field = 0 then msg\<lparr>msg_type := atoi tok\<rparr>
     else if field = 1 then msg\<lparr>msg_status := atoi tok\<rparr>
     else if field = 2 then msg\<lparr>msg_sender := strncpy (MAX_USERNAME - 1) tok\<rparr>
     else if field = 3 then msg\<lparr>msg_filename := strncpy (MAX_FILENAME - 1) tok\<rparr>
     else if field = 4 then
       msg\<lparr>msg_foldername := strncpy (MAX_FILENAME - 1) tok,
           msg_filename := take (MAX_FILENAME - 1) (msg_filename msg)\<rparr>
     else if field = 5 then
       msg\<lparr>msg_target_path := strncpy (MAX_FILENAME - 1) tok,
           msg_filename := take (MAX_FILENAME - 1) (msg_filename msg)\<rparr>
     else if field = 6 then msg\<lparr>msg_sentence_index := atoi tok\<rparr>
     else if field = 7 then msg\<lparr>msg_word_index := atoi tok\<rparr>
     else if field = 8 then msg\<lparr>msg_ss_id := atoi tok\<rparr>
     else if field = 9 then msg\<lparr>msg_client_port := atoi tok\<rparr>
     else if field = 10 then msg\<lparr>msg_nm_port := atoi tok\<rparr>
     else if field = 11 then msg\<lparr>msg_access := atoi tok\<rparr>
     else if field = 12 then msg\<lparr>msg_target_user := strncpy (MAX_USERNAME - 1) tok\<rparr>
     else if field = 13 then
       msg\<lparr>msg_checkpoint_tag := strncpy (MAX_USERNAME - 1) tok,
           msg_sender := take (MAX_USERNAME - 1) (msg_sender msg)\<rparr>
     else if field = 14 then msg\<lparr>msg_data := strncpy (MAX_BUFFER - 1) tok\<rparr>
     else msg)"

definition clear_field :: "nat \<Rightarrow> message \<Rightarrow> message" where
  "clear_field field msg =
    (if field = 2 then msg\<lparr>msg_sender := []\<rparr>
     else if field = 3 then msg\<lparr>msg_filename := []\<rparr>
     else if field = 10 then msg\<lparr>msg_target_user := []\<rparr>
     else if field = 11 then msg\<lparr>msg_data := []\<rparr>
     else msg)"

definition put_token :: "nat \<Rightarrow> string \<Rightarrow> message \<Rightarrow> message" where
  "put_token field tok msg =
    (let t = take (MAX_BUFFER - 1) tok in if t \<noteq> [] then set_field field t msg else clear_field field msg)"

function deser_loop :: "nat \<Rightarrow> string \<Rightarrow> message \<Rightarrow> message" where
  "deser_loop field p msg =
    (if field < 15 then
       (if field = 14 then put_token field p msg
        else let tok = takeWhile (\<lambda>c. c \<noteq> BAR) p;
                 msg' = put_token field tok msg
             in case dropWhile (\<lambda>c. c \<noteq> BAR) p of
                  [] \<Rightarrow> msg'
                | _ # p' \<Rightarrow> deser_loop (Suc field) p' msg')
     else msg)"
  by pat_completeness auto
termination
  by (relation "measure (\<lambda>(field, p, msg). 15 - field)") auto

declare deser_loop.simps [simp del]

definition deserialize_message :: "string \<Rightarrow> message" where
  "deserialize_message buffer = deser_loop 0 buffer init_message"

text \<open>What fits the structure: every \<open>char[n]\<close> holds a C string, every number is an \<open>int\<close>.\<close>

definition fits_buffer :: "nat \<Rightarrow> string \<Rightarrow> bool" where
  "fits_buffer n s \<longleftrightarrow> length s < n \<and> no_nul s"

definition message_fits :: "message \<Rightarrow> bool" where
  "message_fits msg \<longleftrightarrow>
     int32 (msg_type msg) \<and> int32 (msg_status msg) \<and> fits_buffer MAX_USERNAME (msg_sender msg) \<and>
     fits_buffer MAX_FILENAME (msg_filename msg) \<and> fits_buffer MAX_FILENAME (msg_foldername msg) \<and>
     fits_buffer MAX_USERNAME (msg_checkpoint_tag msg) \<and> fits_buffer MAX_PATH (msg_target_path msg) \<and>
     fits_buffer MAX_BUFFER (msg_data msg) \<and> int32 (msg_sentence_index msg) \<and>
     int32 (msg_word_index msg) \<and> int32 (msg_ss_id msg) \<and> int32 (msg_client_port msg) \<and>
     int32 (msg_nm_port msg) \<and> int32 (msg_access msg) \<and> fits_buffer MAX_USERNAME (msg_target_user msg)"

text \<open>No separator inside a field, the free-form data field excepted.\<close>

definition message_bar_free :: "message \<Rightarrow> bool" where
  "message_bar_free msg \<longleftrightarrow>
     BAR \<notin> set (msg_sender msg) \<and> BAR \<notin> set (msg_filename msg) \<and> BAR \<notin> set (msg_foldername msg) \<and>
     BAR \<notin> set (msg_target_path msg) \<and> BAR \<notin> set (msg_target_user msg) \<and>
     BAR \<notin> set (msg_checkpoint_tag msg)"

lemma deser_step:
  assumes "field < 14" and "BAR \<notin> set tok"
  shows "deser_loop field (tok @ BAR # rest) msg = deser_loop (Suc field) rest (put_token field tok msg)"
proof -
  have "takeWhile (\<lambda>c. c \<noteq> BAR) (tok @ BAR # rest) = tok"
    "dropWhile (\<lambda>c. c \<noteq> BAR) (tok @ BAR # rest) = BAR # rest"
    using assms(2) by (auto simp: takeWhile_append dropWhile_append)
  with assms(1) show ?thesis by (subst deser_loop.simps) simp
qed

lemma deser_last: "deser_loop 14 p msg = put_token 14 p msg"
  by (subst deser_loop.simps) simp

lemma put_int:
  assumes "int32 i"
  shows "put_token field (dec_int i) msg = set_field field (dec_int i) msg"
  using length_dec_int [OF assms] by (simp add: put_token_def)

lemma dec_int_no_BAR: "BAR \<notin> set (dec_int i)"
  by (simp add: BAR_def dec_int_no_bar)

text \<open>The effect of each kind of token on a structure that started from \<open>init_message\<close>.\<close>

lemmas put_defs = put_token_def set_field_def clear_field_def Let_def

lemma put_string_field:
  assumes "length s < MAX_BUFFER"
  shows "put_token field s msg = (if s = [] then clear_field field msg else set_field field s msg)"
  using assms by (simp add: put_token_def)

lemma deserialize_serialize_aux:
  assumes fits: "message_fits msg" and bars: "message_bar_free msg"
  shows "deserialize_message (serialize_message msg) =
           msg\<lparr>msg_target_path := take (MAX_FILENAME - 1) (msg_target_path msg)\<rparr>"
proof -
  note f = fits [unfolded message_fits_def fits_buffer_def]
  note b = bars [unfolded message_bar_free_def]
  have "deserialize_message (serialize_message msg) =
    put_token 14 (msg_data msg) (put_token 13 (msg_checkpoint_tag msg)
     (put_token 12 (msg_target_user msg) (put_token 11 (dec_int (msg_access msg))
     (put_token 10 (dec_int (msg_nm_port msg)) (put_token 9 (dec_int (msg_client_port msg))
     (put_token 8 (dec_int (msg_ss_id msg)) (put_token 7 (dec_int (msg_word_index msg))
     (put_token 6 (dec_int (msg_sentence_index msg)) (put_token 5 (msg_target_path msg)
     (put_token 4 (msg_foldername msg) (put_token 3 (msg_filename msg)
     (put_token 2 (msg_sender msg) (put_token 1 (dec_int (msg_status msg))
     (put_token 0 (dec_int (msg_type msg)) init_message))))))))))))))"
    using b by (simp add: deserialize_message_def serialize_message_def deser_step deser_last
        dec_int_no_BAR numeral_2_eq_2 [symmetric])
  then show ?thesis
    using f by (cases msg)
      (simp add: put_int put_string_field set_field_def clear_field_def init_message_def strncpy_def)
qed

section \<open>Whatever is received fits the structure\<close>

lemma fits_buffer_Nil [simp]: "0 < n \<Longrightarrow> fits_buffer n []"
  by (simp add: fits_buffer_def)

lemma fits_buffer_take: "no_nul s \<Longrightarrow> m < n \<Longrightarrow> fits_buffer n (take m s)"
  by (auto simp: fits_buffer_def no_nul_take)

lemma fits_buffer_strncpy: "no_nul s \<Longrightarrow> m < n \<Longrightarrow> fits_buffer n (strncpy m s)"
  by (simp add: strncpy_def fits_buffer_take)

lemma fits_buffer_shorter: "fits_buffer n s \<Longrightarrow> fits_buffer n (take m s)"
  by (auto simp: fits_buffer_def no_nul_take)

lemma atoi_int32: "int32 (atoi s)"
  by (simp add: atoi_def Let_def int32_to_int32)

lemma message_fits_init: "message_fits init_message"
  by (simp add: message_fits_def init_message_def type_code_int32) (simp add: int32_def)

lemma message_fits_put:
  assumes "message_fits msg" and "no_nul tok"
  shows "message_fits (put_token field tok msg)"
proof -
  have "no_nul (take (MAX_BUFFER - 1) tok)" using assms(2) by (rule no_nul_take)
  with assms(1) show ?thesis
    by (simp add: put_token_def Let_def set_field_def clear_field_def message_fits_def atoi_int32
        fits_buffer_strncpy fits_buffer_shorter)
qed

lemma message_fits_loop:
  "message_fits msg \<Longrightarrow> no_nul p \<Longrightarrow> message_fits (deser_loop field p msg)"
proof (induction field p msg rule: deser_loop.induct)
  case (1 field p msg)
  let ?tok = "takeWhile (\<lambda>c. c \<noteq> BAR) p"
  have "no_nul ?tok" using "1.prems"(2) by (auto simp: no_nul_set dest: set_takeWhileD)
  then have put: "message_fits (put_token field ?tok msg)"
    using "1.prems"(1) by (rule message_fits_put [rotated])
  have "no_nul p'" if "dropWhile (\<lambda>c. c \<noteq> BAR) p = c # p'" for c p'
    using that "1.prems"(2) unfolding no_nul_set by (metis set_dropWhileD list.set_intros(2))
  with "1.IH" put have "message_fits (deser_loop (Suc field) p' (put_token field ?tok msg))"
    if "field < 15" "field \<noteq> 14" "dropWhile (\<lambda>c. c \<noteq> BAR) p = c # p'" for c p'
    using that by blast
  with put message_fits_put [OF "1.prems"] show ?case
    using "1.prems"(1) by (subst deser_loop.simps) (simp add: Let_def split: list.split)
qed

lemma message_fits_deserialize: "no_nul buffer \<Longrightarrow> message_fits (deserialize_message buffer)"
  by (simp add: deserialize_message_def message_fits_loop message_fits_init)

section \<open>Framing on a byte stream\<close>

text \<open>
  An \<open>int\<close> in memory: four bytes, the lowest first. \<open>send_message\<close> writes the length of the
  text and then the text; each call of \<open>send\<close> may take only some of the bytes, be interrupted
  or fail.
\<close>

definition le32 :: "nat \<Rightarrow> bytes" where
  "le32 n = [char_of (n mod 256), char_of (n div 256 mod 256), char_of (n div 65536 mod 256),
             char_of (n div 16777216 mod 256)]"

definition int_of_le32 :: "bytes \<Rightarrow> int" where
  "int_of_le32 bs = to_int32 (int (foldr (\<lambda>c n. of_char c + 256 * n) bs (0::nat)))"

datatype send_result = Accepted nat | Interrupted | Send_failed

text \<open>The bytes put on the wire and the status; \<open>None\<close> while the call still blocks.\<close>

fun send_loop :: "send_result list \<Rightarrow> bytes \<Rightarrow> (bytes \<times> int) option" where
  "send_loop rs [] = Some ([], 0)"
| "send_loop [] (b # bs) = None"
| "send_loop (Accepted n # rs) (b # bs) =
     map_option (\<lambda>(w, st). (take n (b # bs) @ w, st)) (send_loop rs (drop n (b # bs)))"
| "send_loop (Interrupted # rs) (b # bs) = send_loop rs (b # bs)"
| "send_loop (Send_failed # rs) (b # bs) = Some ([], -1)"

fun send_message :: "send_result list \<Rightarrow> message \<Rightarrow> (bytes \<times> int) option" where
  "send_message (Accepted n # rs) msg =
     (let buffer = serialize_message msg
      in map_option (\<lambda>(w, st). (take n (le32 (length buffer)) @ w, st)) (send_loop rs buffer))"
| "send_message (r # rs) msg = Some ([], -1)"
| "send_message [] msg = None"

text \<open>
  The receiving end of a connection: the segments still to arrive. One call of \<open>recv\<close> returns
  at most the next segment; an empty segment is a call that returns 0 or less (closed, timed
  out). With \<open>MSG_WAITALL\<close> the call goes on until it has all bytes or is stopped.
\<close>

fun recv_call :: "nat \<Rightarrow> bytes list \<Rightarrow> bytes \<times> bytes list" where
  "recv_call n [] = ([], [])"
| "recv_call n (s # ss) = (if length s \<le> n then (s, ss) else (take n s, drop n s # ss))"

fun recv_waitall :: "nat \<Rightarrow> bytes list \<Rightarrow> bytes \<times> bytes list" where
  "recv_waitall n [] = ([], [])"
| "recv_waitall n (s # ss) =
     (if s = [] then ([], ss)
      else if length s < n then
        (let (got, rest) = recv_waitall (n - length s) ss in (s @ got, rest))
      else recv_call n (s # ss))"

function recv_loop :: "nat \<Rightarrow> bytes list \<Rightarrow> bytes option \<times> bytes list" where
  "recv_loop n segs =
     (if n = 0 then (Some [], segs)
      else case recv_call n segs of (got, rest) \<Rightarrow>
        (if got = [] then (None, rest)
         else case recv_loop (n - length got) rest of
             (None, r) \<Rightarrow> (None, r)
           | (Some bs, r) \<Rightarrow> (Some (got @ bs), r)))"
  by pat_completeness auto
termination
  by (relation "measure fst") auto

declare recv_loop.simps [simp del]

text \<open>
  \<open>recv_message\<close>: \<open>None\<close> is the return value -1. A short read of the length leaves the rest of
  the variable as it was; \<open>junk\<close> is what it held.
\<close>

definition recv_message :: "bytes \<Rightarrow> bytes list \<Rightarrow> message option \<times> bytes list" where
  "recv_message junk segs =
     (let (hdr, segs1) = recv_waitall 4 segs in
      if hdr = [] then (None, segs1)
      else let len = int_of_le32 (take 4 (hdr @ drop (length hdr) junk)) in
        if len \<ge> int (MAX_BUFFER * 2) \<or> len \<le> 0 then (None, segs1)
        else case recv_loop (nat len) segs1 of
            (None, segs2) \<Rightarrow> (None, segs2)
          | (Some buffer, segs2) \<Rightarrow> (Some (deserialize_message (cstr buffer)), segs2))"

lemma recv_call_concat:
  "recv_call n segs = (got, rest) \<Longrightarrow> concat segs = got @ concat rest \<and> length got \<le> n"
  by (cases segs) (auto split: if_splits simp: append_assoc [symmetric] simp del: append_assoc)

lemma recv_call_nonempty:
  "recv_call n segs = (got, rest) \<Longrightarrow> [] \<notin> set segs \<Longrightarrow> segs \<noteq> [] \<Longrightarrow> 0 < n \<Longrightarrow> got \<noteq> [] \<and> [] \<notin> set rest"
  by (cases segs) (auto split: if_splits)

lemma recv_waitall_complete:
  assumes "[] \<notin> set segs" and "n \<le> length (concat segs)" and "0 < n"
  shows "\<exists>rest. recv_waitall n segs = (take n (concat segs), rest)
           \<and> concat rest = drop n (concat segs) \<and> [] \<notin> set rest"
  using assms
proof (induction n segs rule: recv_waitall.induct)
  case (2 n s ss)
  show ?case
  proof (cases "length s < n")
    case True
    then have "0 < n - length s" "s \<noteq> []" "\<not> length s \<ge> n" using "2.prems"(1) by auto
    with "2.prems" "2.IH" obtain rest where
      "recv_waitall (n - length s) ss = (take (n - length s) (concat ss), rest)"
      "concat rest = drop (n - length s) (concat ss)" "[] \<notin> set rest" by force
    with True \<open>s \<noteq> []\<close> "2.prems" show ?thesis by simp
  next
    case False
    with "2.prems" show ?thesis by auto
  qed
qed simp

lemma recv_loop_complete:
  "[] \<notin> set segs \<Longrightarrow> n \<le> length (concat segs) \<Longrightarrow>
   \<exists>rest. recv_loop n segs = (Some (take n (concat segs)), rest)
     \<and> concat rest = drop n (concat segs) \<and> [] \<notin> set rest"
proof (induction n segs rule: recv_loop.induct)
  case (1 n segs)
  show ?case
  proof (cases "n = 0")
    case True
    with "1.prems" show ?thesis by (subst recv_loop.simps) simp
  next
    case False
    obtain got rest where g: "recv_call n segs = (got, rest)" by (cases "recv_call n segs")
    from False "1.prems" have "segs \<noteq> []" by auto
    with g "1.prems" False have ne: "got \<noteq> []" "[] \<notin> set rest"
      using recv_call_nonempty by blast+
    from recv_call_concat [OF g] have c: "concat segs = got @ concat rest" "length got \<le> n" by auto
    with "1.prems" have "n - length got \<le> length (concat rest)" by auto
    with "1.IH" [OF False g [symmetric] ne(1) ne(2)] obtain r where
      "recv_loop (n - length got) rest = (Some (take (n - length got) (concat rest)), r)"
      "concat r = drop (n - length got) (concat rest)" "[] \<notin> set r" by blast
    with False g ne c show ?thesis by (subst recv_loop.simps) simp
  qed
qed

lemma int_of_le32_le32: "n < 2 ^ 31 \<Longrightarrow> int_of_le32 (le32 n) = int n"
proof -
  assume n: "n < 2 ^ 31"
  define q1 q2 q3 where "q1 = n div 256" and "q2 = q1 div 256" and "q3 = q2 div 256"
  note q = q1_def q2_def q3_def
  have d: "n div 65536 = q2" "n div 16777216 = q3" by (simp_all add: q div_mult2_eq [symmetric])
  have "q3 < 256" using n by (simp add: q div_mult2_eq [symmetric] less_mult_imp_div_less)
  moreover have "n = 256 * q1 + n mod 256" "q1 = 256 * q2 + q1 mod 256" "q2 = 256 * q3 + q2 mod 256"
    by (simp_all add: q)
  ultimately have "n mod 256 + 256 * (q1 mod 256 + 256 * (q2 mod 256 + 256 * (q3 mod 256))) = n"
    by simp
  then have "n mod 256 + 256 * (n div 256 mod 256 + 256 * (n div 65536 mod 256
      + 256 * (n div 16777216 mod 256))) = n"
    unfolding d q1_def [symmetric] .
  then show ?thesis using n
    by (simp add: int_of_le32_def le32_def to_int32_id int32_def)
qed

lemma length_le32 [simp]: "length (le32 n) = 4"
  by (simp add: le32_def)

lemma length_serialize:
  assumes "message_fits msg"
  shows "length (serialize_message msg) < MAX_BUFFER * 2" and "serialize_message msg \<noteq> []"
proof -
  note f = assms [unfolded message_fits_def fits_buffer_def]
  have "length (dec_int (msg_type msg)) \<le> 11" "length (dec_int (msg_status msg)) \<le> 11"
    "length (dec_int (msg_sentence_index msg)) \<le> 11" "length (dec_int (msg_word_index msg)) \<le> 11"
    "length (dec_int (msg_ss_id msg)) \<le> 11" "length (dec_int (msg_client_port msg)) \<le> 11"
    "length (dec_int (msg_nm_port msg)) \<le> 11" "length (dec_int (msg_access msg)) \<le> 11"
    using f by (simp_all add: length_dec_int)
  with f show "length (serialize_message msg) < MAX_BUFFER * 2"
    by (simp add: serialize_message_def)
  show "serialize_message msg \<noteq> []" by (simp add: serialize_message_def)
qed

lemma no_nul_serialize: "message_fits msg \<Longrightarrow> no_nul (serialize_message msg)"
  by (simp add: serialize_message_def message_fits_def fits_buffer_def dec_int_no_nul BAR_def NUL_def)

lemma recv_message_framed:
  assumes fits: "message_fits msg" and segs: "[] \<notin> set segs"
    and wire: "concat segs = le32 (length (serialize_message msg)) @ serialize_message msg @ later"
  shows "\<exists>rest. recv_message junk segs = (Some (deserialize_message (serialize_message msg)), rest)
           \<and> concat rest = later \<and> [] \<notin> set rest"
proof -
  let ?b = "serialize_message msg"
  note len = length_serialize [OF fits]
  obtain segs1 where 1: "recv_waitall 4 segs = (le32 (length ?b), segs1)"
    "concat segs1 = ?b @ later" "[] \<notin> set segs1"
    using recv_waitall_complete [OF segs, of 4] wire by auto
  obtain segs2 where 2: "recv_loop (length ?b) segs1 = (Some ?b, segs2)"
    "concat segs2 = later" "[] \<notin> set segs2"
    using recv_loop_complete [OF 1(3), of "length ?b"] 1(2) by auto
  have "int_of_le32 (le32 (length ?b)) = int (length ?b)"
    using len(1) by (intro int_of_le32_le32) simp
  moreover have "le32 (length ?b) \<noteq> []" by (simp add: le32_def)
  moreover have "\<not> int (length ?b) \<ge> int (MAX_BUFFER * 2)" using len(1) by linarith
  moreover have "\<not> int (length ?b) \<le> 0" using len(2) by simp
  ultimately show ?thesis using 1 2 no_nul_serialize [OF fits]
    by (simp add: recv_message_def)
qed

section \<open>trim_whitespace\<close>

text \<open>
  The function moves its own copy of the pointer over leading white space and then cuts the
  trailing white space off the caller's buffer: leading white space stays.
\<close>

definition is_trim_space :: "char \<Rightarrow> bool" where
  "is_trim_space c \<longleftrightarrow> c = CHR '' '' \<or> c = CHR 0x09 \<or> c = CHR 0x0A \<or> c = CHR 0x0D"

fun trim_end :: "string \<Rightarrow> string" where
  "trim_end [] = []"
| "trim_end (c # cs) = c # rev (dropWhile is_trim_space (rev cs))"

definition trim_whitespace :: "string \<Rightarrow> string" where
  "trim_whitespace buf =
     (let lead = takeWhile is_trim_space buf; str = dropWhile is_trim_space buf
      in if str = [] then buf else lead @ trim_end str)"

section \<open>Properties\<close>

text \<open>
  C25. A message that fits its structure and has no separator in a field other than the data
  survives the text format, its target path cut to 255 bytes although the field holds 511.
\<close>

theorem deserialize_serialize:
  assumes "message_fits msg" and "message_bar_free msg"
  shows "deserialize_message (serialize_message msg) =
           msg\<lparr>msg_target_path := take 255 (msg_target_path msg)\<rparr>"
  using deserialize_serialize_aux [OF assms] by simp

theorem deserialize_serialize_witness:
  "deserialize_message (serialize_message
     (init_message\<lparr>msg_sender := ''bob'', msg_filename := ''a.txt'', msg_data := ''x|y'', msg_word_index := 7\<rparr>)) =
   init_message\<lparr>msg_sender := ''bob'', msg_filename := ''a.txt'', msg_data := ''x|y'', msg_word_index := 7\<rparr>"
proof -
  let ?m = "init_message\<lparr>msg_sender := ''bob'', msg_filename := ''a.txt'', msg_data := ''x|y'', msg_word_index := 7\<rparr>"
  have "message_fits ?m" using message_fits_init
    by (simp add: message_fits_def init_message_def fits_buffer_def NUL_def int32_def)
  moreover have "message_bar_free ?m"
    by (simp add: message_bar_free_def init_message_def BAR_def)
  ultimately show ?thesis
    using deserialize_serialize [of ?m] by (simp add: init_message_def)
qed


lemma send_recv_loopback:
  fixes msg :: message
  defines "w \<equiv> le32 (length (serialize_message msg)) @ serialize_message msg"
  shows "send_message [Accepted 4, Accepted (length (serialize_message msg))] msg = Some (w, 0)"
  by (cases "serialize_message msg") (simp_all add: w_def)


text \<open>
  C26. Whatever bytes arrive, the structure \<open>recv_message\<close> fills fits its buffers: every string
  is shorter than its array and every number is an \<open>int\<close>.
\<close>

theorem recv_message_fits:
  assumes "recv_message junk segs = (Some msg, rest)"
  shows "message_fits msg"
proof -
  from assms obtain buffer where "msg = deserialize_message (cstr buffer)"
    by (auto simp: recv_message_def Let_def split: prod.splits if_splits option.splits)
  moreover have "no_nul (cstr buffer)" by (auto simp: no_nul_set cstr_def dest: set_takeWhileD)
  ultimately show ?thesis by (simp add: message_fits_deserialize)
qed

theorem recv_message_fits_witness:
  "message_fits (deserialize_message (cstr ''7''))"
proof -
  have "recv_message [] [le32 1, ''7''] = (Some (deserialize_message (cstr ''7'')), [])"
    by (simp add: recv_message_def le32_def int_of_le32_def to_int32_def recv_loop.simps)
  then show ?thesis by (rule recv_message_fits)
qed

text \<open>
  \<open>trim_whitespace\<close> cuts off exactly the trailing white space: leading white space stays
  in the buffer, and a buffer of white space only is left as it is.
\<close>

lemma trim_whitespace_spec:
  "trim_whitespace buf =
     (if list_all is_trim_space buf then buf else rev (dropWhile is_trim_space (rev buf)))"
proof (cases "dropWhile is_trim_space buf")
  case Nil
  then show ?thesis by (simp add: trim_whitespace_def dropWhile_eq_Nil_conv list_all_iff)
next
  case (Cons c cs)
  then have c: "\<not> is_trim_space c" using hd_dropWhile [of is_trim_space buf] by simp
  have buf: "buf = takeWhile is_trim_space buf @ c # cs"
    using Cons takeWhile_dropWhile_id [of is_trim_space buf] by simp
  then have "\<not> list_all is_trim_space buf" using c by (metis list.pred_inject(2) list_all_append)
  moreover have "dropWhile is_trim_space (rev cs @ c # rev (takeWhile is_trim_space buf)) =
      dropWhile is_trim_space (rev cs) @ c # rev (takeWhile is_trim_space buf)"
    using c by (simp add: dropWhile_append)
  moreover have "rev buf = rev cs @ c # rev (takeWhile is_trim_space buf)"
    by (subst buf) simp
  ultimately show ?thesis using Cons by (simp add: trim_whitespace_def)
qed

end
