(* ===== verification/FileOps.thy ===== *)
theory FileOps
  imports Common
begin

text \<open>
  \<open>file_ops.c\<close>, the in-memory half: a file as sentences of tokens. \<open>parse_loop\<close> and
  \<open>parse_content\<close> are the reader of \<open>parse_file\<close>, \<open>render\<close> the writer of
  \<open>write_file_content\<close>, \<open>split_by_delimiters\<close> the tokenizer of inserted text,
  \<open>insert_word_in_sentence\<close> the editing operation, \<open>file_stats\<close> the counters of
  \<open>get_file_stats\<close>. The specification they are compared with is a lexer (\<open>tokens\<close>) and a
  grouping of its tokens into sentences (\<open>chunk\<close>). What goes to disk is in \<open>DiskOps\<close>.
\<close>

section \<open>Characters and tokens\<close>

definition is_blank :: "char \<Rightarrow> bool" where
  "is_blank c \<longleftrightarrow> c = CHR '' '' \<or> c = CHR 0x09 \<or> c = CHR 0x0D"

definition NL :: char where
  "NL = CHR 0x0A"

definition is_delimiter :: "char \<Rightarrow> bool" where
  "is_delimiter c \<longleftrightarrow> c = CHR ''.'' \<or> c = CHR ''!'' \<or> c = CHR ''?''"

definition is_word_char :: "char \<Rightarrow> bool" where
  "is_word_char c \<longleftrightarrow> \<not> is_blank c \<and> c \<noteq> NL \<and> \<not> is_delimiter c"

definition is_space_token :: "string \<Rightarrow> bool" where
  "is_space_token token \<longleftrightarrow> token \<noteq> [] \<and> list_all is_blank token"

definition is_newline_token :: "string \<Rightarrow> bool" where
  "is_newline_token token \<longleftrightarrow> token = [NL]"

definition should_skip_for_indexing :: "string \<Rightarrow> bool" where
  "should_skip_for_indexing token \<longleftrightarrow> is_space_token token \<or> is_newline_token token"

text \<open>\<open>is_delimiter(token[0])\<close>; the first byte of an empty string is the NUL.\<close>

definition starts_with_delimiter :: "string \<Rightarrow> bool" where
  "starts_with_delimiter token = (case token of [] \<Rightarrow> False | c # _ \<Rightarrow> is_delimiter c)"

type_synonym sentence = "string list"

text \<open>
  A \<open>FileContent\<close>: the sentence slots the code has initialised, in order, and how many of them
  count. \<open>capacity\<close> only says how much memory is allocated and is not part of the value.
\<close>

record file_content =
  sentences :: "sentence list"
  sentence_count :: nat

definition init_file_content :: file_content where
  "init_file_content = \<lparr>sentences = [], sentence_count = 0\<rparr>"

section \<open>Reading a file: \<open>parse_file\<close>\<close>

text \<open>
  The word buffer is copied with \<open>strdup\<close>, which stops at a NUL byte of the file.
\<close>

definition flush_word :: "string \<Rightarrow> sentence \<Rightarrow> sentence" where
  "flush_word word cur = (if word = [] then cur else cur @ [cstr word])"

text \<open>
  The loop over the bytes: the finished sentences, the current one and the word buffer. A run of
  blanks is one token of at most 127 bytes; a word is cut after 127 bytes.
\<close>

function parse_loop :: "bytes \<Rightarrow> sentence list \<Rightarrow> sentence \<Rightarrow> string \<Rightarrow> sentence list \<times> sentence \<times> string" where
  "parse_loop [] prev cur word = (prev, cur, word)"
| "parse_loop (c # cs) prev cur word =
     (if is_blank c then
        parse_loop (dropWhile is_blank cs) prev
          (flush_word word cur @ [take (MAX_WORD - 1) (c # takeWhile is_blank cs)]) []
      else if c = NL then parse_loop cs prev (flush_word word cur @ [[NL]]) []
      else if is_delimiter c then parse_loop cs (prev @ [flush_word word cur @ [[c]]]) [] []
      else let word' = word @ [c] in
        if length word' \<ge> MAX_WORD - 1 then parse_loop cs prev (flush_word word' cur) []
        else parse_loop cs prev cur word')"
  by pat_completeness auto
termination
  by (relation "measure (\<lambda>(cs, prev, cur, word). length cs)") (auto simp: le_imp_less_Suc length_dropWhile_le)

declare parse_loop.simps [simp del]

text \<open>
  The end of \<open>parse_file\<close>: \<open>sentence_count\<close> is 0 until the first delimiter and the number of
  slots after it; an empty last sentence is dropped, a file without delimiters but with tokens
  counts as one sentence.
\<close>

definition parse_content :: "bytes \<Rightarrow> file_content" where
  "parse_content bs =
     (let (prev, cur0, word) = parse_loop bs [] [] [];
          cur = flush_word word cur0;
          slots = prev @ [cur];
          n0 = (if prev = [] then 0 else length slots);
          n1 = (if n0 > 0 \<and> slots ! (n0 - 1) = [] then n0 - 1 else n0);
          n2 = (if cur \<noteq> [] then length prev + 1 else n1)
      in \<lparr>sentences = slots, sentence_count = n2\<rparr>)"

definition counted :: "file_content \<Rightarrow> sentence list" where
  "counted fc = take (sentence_count fc) (sentences fc)"

section \<open>Writing a file: \<open>write_file_content\<close> and \<open>file_content_to_string\<close>\<close>

definition word_gap :: "string \<Rightarrow> string \<Rightarrow> string" where
  "word_gap cur next =
     (if is_space_token cur \<or> is_space_token next \<or> is_newline_token cur \<or> is_newline_token next then []
      else if starts_with_delimiter cur \<or> starts_with_delimiter next then []
      else '' '')"

fun render_words :: "sentence \<Rightarrow> string" where
  "render_words [] = []"
| "render_words [w] = w"
| "render_words (w # v # ws) = w @ word_gap w v @ render_words (v # ws)"

definition sentence_gap :: "sentence \<Rightarrow> sentence \<Rightarrow> string" where
  "sentence_gap s t =
     (if s = [] then []
      else if \<not> is_newline_token (last s) \<and> \<not> is_space_token (last s) then
        (case t of
           [] \<Rightarrow> '' ''
         | first_next # _ \<Rightarrow>
             if \<not> is_space_token first_next \<and> \<not> is_newline_token first_next then '' '' else [])
      else [])"

fun render_sentences :: "sentence list \<Rightarrow> string" where
  "render_sentences [] = []"
| "render_sentences [s] = render_words s"
| "render_sentences (s # t # ss) = render_words s @ sentence_gap s t @ render_sentences (t # ss)"

definition render :: "file_content \<Rightarrow> bytes" where
  "render fc = render_sentences (counted fc)"

text \<open>
  \<open>file_content_to_string\<close> writes the same text into a buffer of \<open>MAX_BUFFER\<close> bytes. A token
  that does not fit with two bytes to spare is left out, with the gap after it; the space between
  two sentences is written without a check. \<open>None\<close> is a write past the buffer.
\<close>

definition put_char :: "string \<Rightarrow> string option" where
  "put_char result = (if length result < MAX_BUFFER then Some (result @ '' '') else None)"

fun to_string_words :: "string \<Rightarrow> sentence \<Rightarrow> string option" where
  "to_string_words result [] = Some result"
| "to_string_words result (w # ws) =
     (if length result + length w + 2 < MAX_BUFFER then
        (case ws of
           [] \<Rightarrow> Some (result @ w)
         | v # _ \<Rightarrow>
             Option.bind (if word_gap w v = [] then Some (result @ w) else put_char (result @ w))
               (\<lambda>r. to_string_words r ws))
      else to_string_words result ws)"

fun to_string_sentences :: "string \<Rightarrow> sentence list \<Rightarrow> string option" where
  "to_string_sentences result [] = Some result"
| "to_string_sentences result (s # ss) =
     Option.bind (to_string_words result s) (\<lambda>r.
       (case ss of
          [] \<Rightarrow> Some r
        | t # _ \<Rightarrow>
            Option.bind (if sentence_gap s t = [] then Some r else put_char r)
              (\<lambda>r'. to_string_sentences r' ss)))"

definition file_content_to_string :: "file_content \<Rightarrow> string option" where
  "file_content_to_string fc =
     Option.bind (to_string_sentences [] (counted fc))
       (\<lambda>r. if length r < MAX_BUFFER then Some r else None)"

section \<open>Tokenizing inserted text: \<open>split_by_delimiters\<close>\<close>

text \<open>
  The word buffer has \<open>MAX_WORD\<close> bytes and no check: \<open>None\<close> is a write past its end, of a
  character or of the terminator.
\<close>

definition save_buffer :: "string \<Rightarrow> string list \<Rightarrow> string list option" where
  "save_buffer buffer parts =
     (if buffer = [] then Some parts
      else if length buffer < MAX_WORD then Some (parts @ [buffer]) else None)"

function split_loop :: "string \<Rightarrow> string \<Rightarrow> string list \<Rightarrow> string list option" where
  "split_loop [] buffer parts = save_buffer buffer parts"
| "split_loop (c # cs) buffer parts =
     (if is_blank c then
        Option.bind (save_buffer buffer parts) (\<lambda>ps.
          split_loop (dropWhile is_blank cs) []
            (ps @ [take (MAX_WORD - 1) (c # takeWhile is_blank cs)]))
      else if c = NL then
        Option.bind (save_buffer buffer parts) (\<lambda>ps. split_loop cs [] (ps @ [[NL]]))
      else if is_delimiter c then
        Option.bind (save_buffer buffer parts) (\<lambda>ps. split_loop cs [] (ps @ [[c]]))
      else if length buffer < MAX_WORD then split_loop cs (buffer @ [c]) parts
      else None)"
  by pat_completeness auto
termination
  by (relation "measure (\<lambda>(cs, buffer, parts). length cs)") (auto simp: le_imp_less_Suc length_dropWhile_le)

declare split_loop.simps [simp del]

definition split_by_delimiters :: "string \<Rightarrow> string list option" where
  "split_by_delimiters word = split_loop word [] []"

section \<open>Editing: \<open>insert_word_in_sentence\<close>\<close>

text \<open>
  The position of a word index: 0 for the first word, else just after the \<open>word_idx - 1\<close>-th token
  that counts; \<open>find_after k i ws\<close> scans the tokens from position \<open>i\<close> with \<open>k\<close> of them to go.
\<close>

fun find_after :: "nat \<Rightarrow> nat \<Rightarrow> sentence \<Rightarrow> nat option" where
  "find_after k i [] = None"
| "find_after k i (w # ws) =
     (if \<not> should_skip_for_indexing w then
        (if k = 1 then Some (i + 1) else find_after (k - 1) (i + 1) ws)
      else find_after k (i + 1) ws)"

definition real_word_count :: "sentence \<Rightarrow> nat" where
  "real_word_count sent = length (filter (\<lambda>w. \<not> should_skip_for_indexing w) sent)"

definition insert_position :: "sentence \<Rightarrow> nat \<Rightarrow> nat" where
  "insert_position sent word_idx =
     (if word_idx = 1 then 0
      else
        let found = (case find_after (word_idx - 1) 0 sent of None \<Rightarrow> 0 | Some i \<Rightarrow> i) in
        if word_idx = real_word_count sent + 1 then length sent else found)"

text \<open>The index of the last part that starts with a delimiter; \<open>None\<close> for the code's -1.\<close>

definition last_delimiter_idx :: "string list \<Rightarrow> nat option" where
  "last_delimiter_idx parts =
     (if list_ex starts_with_delimiter parts
      then Some (length parts - 1 - the (find_index starts_with_delimiter (rev parts)))
      else None)"

definition should_split :: "string list \<Rightarrow> nat \<Rightarrow> bool" where
  "should_split parts i \<longleftrightarrow> last_delimiter_idx parts = Some i \<and> i < length parts - 1"

definition count_new_sentences :: "string list \<Rightarrow> nat" where
  "count_new_sentences parts =
     (case last_delimiter_idx parts of None \<Rightarrow> 0 | Some d \<Rightarrow> if d < length parts - 1 then 1 else 0)
     + length (filter starts_with_delimiter parts)"

text \<open>Shift the sentences after \<open>sent_idx\<close> by \<open>k\<close> slots and initialise the slots in between.\<close>

definition make_room :: "nat \<Rightarrow> nat \<Rightarrow> nat \<Rightarrow> sentence list \<Rightarrow> sentence list" where
  "make_room count sent_idx k slots =
     (if k > 0 then take (Suc sent_idx) slots @ replicate k [] @ drop (Suc sent_idx) (take count slots)
      else slots)"

text \<open>The state of the loop that inserts the parts: slots, current sentence, position, and
  whether the split has happened.\<close>

record insert_state =
  ins_slots :: "sentence list"
  ins_cur :: nat
  ins_pos :: nat
  ins_new :: bool

definition insert_part :: "bool \<Rightarrow> string \<Rightarrow> insert_state \<Rightarrow> insert_state" where
  "insert_part split part st =
     (let slots = ins_slots st; cur = ins_cur st; pos = ins_pos st;
          words = insert_nth pos part (slots ! cur)
      in if \<not> ins_new st \<and> split then
           st\<lparr>ins_slots := slots[cur := take (Suc pos) words,
                                 Suc cur := slots ! Suc cur @ drop (Suc pos) words],
              ins_cur := Suc cur, ins_pos := 0, ins_new := True\<rparr>
         else st\<lparr>ins_slots := slots[cur := words], ins_pos := Suc pos\<rparr>)"

fun insert_parts :: "string list \<Rightarrow> nat \<Rightarrow> string list \<Rightarrow> insert_state \<Rightarrow> insert_state" where
  "insert_parts parts i [] st = st"
| "insert_parts parts i (p # ps) st =
     insert_parts parts (Suc i) ps (insert_part (should_split parts i) p st)"

text \<open>
  The whole operation: the return value (-1 for an invalid index, else the number of sentences
  added) and the file content after it; \<open>None\<close> is the buffer overrun of \<open>split_by_delimiters\<close>.
  A sentence index equal to the count appends an empty sentence first, except that on a content of
  one empty sentence the new slot is set up but not counted.
\<close>

definition open_slot :: "nat \<Rightarrow> file_content \<Rightarrow> file_content" where
  "open_slot sent_idx fc =
     (if sent_idx = sentence_count fc then
        fc\<lparr>sentences := take (sentence_count fc) (sentences fc) @ [[]],
           sentence_count :=
             (if sentence_count fc = 1 \<and> sentences fc ! 0 = [] then sentence_count fc
              else Suc (sentence_count fc))\<rparr>
      else fc)"

definition insert_word_in_sentence :: "file_content \<Rightarrow> int \<Rightarrow> int \<Rightarrow> string \<Rightarrow> (int \<times> file_content) option" where
  "insert_word_in_sentence fc sent_idx word_idx word =
     (if sent_idx < 0 \<or> sent_idx > int (sentence_count fc) then Some (-1, fc)
      else
        let fc1 = open_slot (nat sent_idx) fc;
            sent = sentences fc1 ! nat sent_idx
        in if word_idx < 1 \<or> word_idx > int (real_word_count sent) + 1 then Some (-1, fc1)
           else Option.bind (split_by_delimiters word) (\<lambda>parts.
             if parts = [] then Some (0, fc1)
             else
               let k = count_new_sentences parts;
                   st = insert_parts parts 0 parts
                     \<lparr>ins_slots = make_room (sentence_count fc1) (nat sent_idx) k (sentences fc1),
                      ins_cur = nat sent_idx, ins_pos = insert_position sent (nat word_idx),
                      ins_new = False\<rparr>
               in Some (int k, fc1\<lparr>sentences := ins_slots st,
                                   sentence_count := sentence_count fc1 + k\<rparr>)))"

section \<open>Counting: \<open>get_file_stats\<close>\<close>

fun stats_loop :: "bytes \<Rightarrow> bool \<Rightarrow> nat \<Rightarrow> nat \<Rightarrow> nat \<times> nat" where
  "stats_loop [] in_word words chars = (if in_word then Suc words else words, chars)"
| "stats_loop (c # cs) in_word words chars =
     (if is_blank c \<or> c = NL \<or> is_delimiter c then
        stats_loop cs False (if in_word then Suc words else words) (Suc chars)
      else stats_loop cs True words (Suc chars))"

definition file_stats :: "bytes \<Rightarrow> nat \<times> nat" where
  "file_stats bs = stats_loop bs False 0 0"

section \<open>The specification: a lexer and a grouping into sentences\<close>

function tokens :: "bytes \<Rightarrow> string list" where
  "tokens [] = []"
| "tokens (c # cs) =
     (if is_blank c then (c # takeWhile is_blank cs) # tokens (dropWhile is_blank cs)
      else if is_word_char c then (c # takeWhile is_word_char cs) # tokens (dropWhile is_word_char cs)
      else [c] # tokens cs)"
  by pat_completeness auto
termination
  by (relation "measure length") (auto simp: le_imp_less_Suc length_dropWhile_le)

declare tokens.simps(2) [simp del]

text \<open>A sentence ends with a token that starts with a delimiter; the last one may have none.\<close>

fun chunk :: "string list \<Rightarrow> sentence list" where
  "chunk [] = []"
| "chunk (t # ts) =
     (if starts_with_delimiter t then [t] # chunk ts
      else case chunk ts of [] \<Rightarrow> [[t]] | s # ss \<Rightarrow> (t # s) # ss)"

text \<open>The files the token buffers hold: no NUL byte, no token of more than 127 bytes.\<close>

definition clean :: "bytes \<Rightarrow> bool" where
  "clean bs \<longleftrightarrow> no_nul bs \<and> list_all (\<lambda>t. length t < MAX_WORD) (tokens bs)"

text \<open>What writing a parsed file makes of it: a space after every delimiter that is followed
  directly by another token than white space.\<close>

fun normalise :: "bytes \<Rightarrow> bytes" where
  "normalise [] = []"
| "normalise [c] = [c]"
| "normalise (c # d # cs) =
     (if is_delimiter c \<and> \<not> is_blank d \<and> d \<noteq> NL then c # CHR '' '' # normalise (d # cs)
      else c # normalise (d # cs))"

subsection \<open>Character and token classes\<close>

definition blank_token :: "string \<Rightarrow> bool" where
  "blank_token t \<longleftrightarrow> t \<noteq> [] \<and> list_all is_blank t"

definition word_token :: "string \<Rightarrow> bool" where
  "word_token t \<longleftrightarrow> t \<noteq> [] \<and> list_all is_word_char t"

definition mark_token :: "string \<Rightarrow> bool" where
  "mark_token t \<longleftrightarrow> (\<exists>c. t = [c] \<and> (c = NL \<or> is_delimiter c))"

lemma char_classes:
  "is_blank c \<Longrightarrow> \<not> is_word_char c" "is_blank c \<Longrightarrow> \<not> is_delimiter c" "is_blank c \<Longrightarrow> c \<noteq> NL"
  "is_delimiter c \<Longrightarrow> \<not> is_word_char c" "is_delimiter c \<Longrightarrow> c \<noteq> NL" "is_word_char c \<Longrightarrow> c \<noteq> NL"
  "is_word_char c \<Longrightarrow> \<not> is_blank c" "is_word_char c \<Longrightarrow> \<not> is_delimiter c"
  by (auto simp: is_blank_def is_word_char_def is_delimiter_def NL_def)

lemma not_special_NL [simp]: "\<not> is_blank NL" "\<not> is_delimiter NL" "\<not> is_word_char NL"
  by (simp_all add: is_blank_def is_delimiter_def NL_def is_word_char_def)

lemma token_cases: "is_blank c \<or> is_word_char c \<or> c = NL \<or> is_delimiter c"
  by (auto simp: is_word_char_def)

lemma token_tests:
  "is_space_token t \<longleftrightarrow> blank_token t"
  "blank_token t \<Longrightarrow> \<not> starts_with_delimiter t \<and> \<not> is_newline_token t \<and> should_skip_for_indexing t"
  "word_token t \<Longrightarrow> \<not> starts_with_delimiter t \<and> \<not> is_newline_token t \<and> \<not> is_space_token t"
  by (auto simp: is_space_token_def blank_token_def word_token_def starts_with_delimiter_def
      is_newline_token_def should_skip_for_indexing_def dest: char_classes split: list.splits)

lemma mark_delimiter [simp]: "starts_with_delimiter [c] \<longleftrightarrow> is_delimiter c"
  by (simp add: starts_with_delimiter_def)

text \<open>
  A list of tokens is lexed when each is of one class, and no two words and no two runs of blanks
  are adjacent.
\<close>

fun lexed :: "string list \<Rightarrow> bool" where
  "lexed [] \<longleftrightarrow> True"
| "lexed [t] \<longleftrightarrow> blank_token t \<or> word_token t \<or> mark_token t"
| "lexed (t # u # ts) \<longleftrightarrow> (blank_token t \<or> word_token t \<or> mark_token t)
     \<and> \<not> (blank_token t \<and> blank_token u) \<and> \<not> (word_token t \<and> word_token u) \<and> lexed (u # ts)"

lemma lexed_tl: "lexed (t # ts) \<Longrightarrow> lexed ts"
  by (cases ts) auto

lemma lexed_hd: "lexed (t # ts) \<Longrightarrow> blank_token t \<or> word_token t \<or> mark_token t"
  by (cases ts) auto

lemma lexed_token: "lexed ts \<Longrightarrow> t \<in> set ts \<Longrightarrow> blank_token t \<or> word_token t \<or> mark_token t"
  by (induction ts) (auto dest: lexed_tl lexed_hd)

lemma concat_tokens: "concat (tokens bs) = bs"
  by (induction bs rule: tokens.induct) (simp_all add: tokens.simps(2))

lemma tokens_eq_Nil [simp]: "tokens bs = [] \<longleftrightarrow> bs = []"
  by (cases bs) (simp_all add: tokens.simps(2))

lemma hd_tokens: "bs \<noteq> [] \<Longrightarrow> \<exists>t ts. tokens bs = t # ts \<and> t \<noteq> [] \<and> hd t = hd bs"
  by (cases bs) (simp_all add: tokens.simps(2))

lemma lexed_Cons:
  assumes "blank_token t \<or> word_token t \<or> mark_token t" and "lexed ts"
    and "ts = [] \<or> \<not> (blank_token t \<and> blank_token (hd ts)) \<and> \<not> (word_token t \<and> word_token (hd ts))"
  shows "lexed (t # ts)"
  using assms by (cases ts) auto

lemma lexed_tokens: "lexed (tokens bs)"
proof (induction bs rule: tokens.induct)
  case (2 c cs)
  have bl: "blank_token (c # takeWhile is_blank cs)" if "is_blank c"
    using that by (auto simp: blank_token_def list_all_iff dest: set_takeWhileD)
  have wd: "word_token (c # takeWhile is_word_char cs)" if "is_word_char c"
    using that by (auto simp: word_token_def list_all_iff dest: set_takeWhileD)
  have next_tok: "tokens (dropWhile P cs) = [] \<or> \<not> P (hd (hd (tokens (dropWhile P cs))))" for P
  proof (cases "dropWhile P cs = []")
    case False
    with hd_tokens [OF this] hd_dropWhile [OF this] show ?thesis by auto
  qed simp
  have cls: "blank_token t \<Longrightarrow> is_blank (hd t)" "word_token t \<Longrightarrow> is_word_char (hd t)" for t
    by (cases t; simp add: blank_token_def word_token_def)+
  have xb: "word_token t \<Longrightarrow> \<not> blank_token t" for t
    by (cases t) (auto simp: blank_token_def word_token_def dest: char_classes)
  show ?case
  proof (cases "is_blank c")
    case True
    then show ?thesis
      using "2.IH"(1) [OF True] next_tok [of is_blank] bl [OF True] xb cls
      by (auto simp: tokens.simps(2) intro!: lexed_Cons)
  next
    case nb: False
    show ?thesis
    proof (cases "is_word_char c")
      case True
      then show ?thesis
        using "2.IH"(2) [OF nb True] next_tok [of is_word_char] wd [OF True] nb xb cls
        by (auto simp: tokens.simps(2) intro!: lexed_Cons)
    next
      case False
      have m: "mark_token [c]" "\<not> blank_token [c]" "\<not> word_token [c]"
        using nb False token_cases [of c] by (auto simp: mark_token_def blank_token_def word_token_def)
      show ?thesis
        using "2.IH"(3) [OF nb False] nb False m
        by (auto simp: tokens.simps(2) intro!: lexed_Cons)
    qed
  qed
qed simp

subsection \<open>Lexing a concatenation of tokens gives the tokens back\<close>

lemma tokens_blank:
  assumes "blank_token w" and "cs = [] \<or> \<not> is_blank (hd cs)"
  shows "tokens (w @ cs) = w # tokens cs"
proof -
  obtain c w' where w: "w = c # w'" "is_blank c" "list_all is_blank w'"
    using assms(1) by (cases w) (auto simp: blank_token_def)
  then have "takeWhile is_blank (w' @ cs) = w'" "dropWhile is_blank (w' @ cs) = cs"
    using assms(2) by (auto simp: list_all_iff takeWhile_append dropWhile_append takeWhile_eq_Nil_iff
        dropWhile_eq_self_iff)
  with w show ?thesis by (simp add: tokens.simps(2))
qed

lemma tokens_word:
  assumes "word_token w" and "cs = [] \<or> \<not> is_word_char (hd cs)"
  shows "tokens (w @ cs) = w # tokens cs"
proof -
  obtain c w' where w: "w = c # w'" "is_word_char c" "list_all is_word_char w'"
    using assms(1) by (cases w) (auto simp: word_token_def)
  then have "takeWhile is_word_char (w' @ cs) = w'" "dropWhile is_word_char (w' @ cs) = cs"
    using assms(2) by (auto simp: list_all_iff takeWhile_append dropWhile_append takeWhile_eq_Nil_iff
        dropWhile_eq_self_iff)
  with w char_classes(7) [OF w(2)] show ?thesis by (simp add: tokens.simps(2))
qed

lemma tokens_single: "\<not> is_blank c \<Longrightarrow> \<not> is_word_char c \<Longrightarrow> tokens (c # cs) = [c] # tokens cs"
  by (simp add: tokens.simps(2))

lemma tokens_mark:
  assumes "mark_token t"
  shows "tokens (t @ cs) = t # tokens cs"
proof -
  obtain c where c: "t = [c]" "c = NL \<or> is_delimiter c" using assms by (auto simp: mark_token_def)
  then have "\<not> is_blank c" "\<not> is_word_char c" using char_classes(2) [of c] char_classes(4) [of c] by auto
  with c(1) show ?thesis by (simp add: tokens_single)
qed

lemma token_hd_class:
  assumes "blank_token t \<or> word_token t \<or> mark_token t"
  shows "t \<noteq> [] \<and> (is_blank (hd t) \<longleftrightarrow> blank_token t) \<and> (is_word_char (hd t) \<longleftrightarrow> word_token t)"
proof -
  obtain c cs where t: "t = c # cs"
    using assms unfolding blank_token_def word_token_def mark_token_def by (cases t) blast+
  from assms show ?thesis
  proof (elim disjE)
    assume "blank_token t"
    then show ?thesis using char_classes(1) [of c] by (simp add: t blank_token_def word_token_def)
  next
    assume "word_token t"
    then show ?thesis using char_classes(7) [of c] by (simp add: t blank_token_def word_token_def)
  next
    assume "mark_token t"
    then have "cs = []" and "c = NL \<or> is_delimiter c" by (simp_all add: t mark_token_def)
    then show ?thesis using char_classes(2) [of c] char_classes(4) [of c]
      by (auto simp: t blank_token_def word_token_def)
  qed
qed

lemma tokens_concat: "lexed ts \<Longrightarrow> tokens (concat ts) = ts"
proof (induction ts)
  case (Cons t ts)
  note t = lexed_hd [OF Cons.prems]
  have ih: "tokens (concat ts) = ts" using Cons by (blast dest: lexed_tl)
  have nxt: "concat ts = [] \<or> (ts \<noteq> [] \<and> hd (concat ts) = hd (hd ts))"
  proof (cases ts)
    case (Cons u us)
    then have "u \<noteq> []" using token_hd_class [OF lexed_hd [OF lexed_tl [OF Cons.prems [unfolded Cons]]]] by simp
    with Cons show ?thesis by simp
  qed simp
  have cls: "ts = [] \<or> (blank_token (hd ts) \<longleftrightarrow> is_blank (hd (hd ts)))
      \<and> (word_token (hd ts) \<longleftrightarrow> is_word_char (hd (hd ts)))"
  proof (cases ts)
    case (Cons u us)
    from token_hd_class [OF lexed_hd [OF lexed_tl [OF Cons.prems [unfolded Cons]]]] Cons
    show ?thesis by simp
  qed simp
  have sep: "ts = [] \<or> \<not> (blank_token t \<and> blank_token (hd ts)) \<and> \<not> (word_token t \<and> word_token (hd ts))"
    using Cons.prems by (cases ts) auto
  from t show ?case
  proof (elim disjE)
    assume "blank_token t"
    with nxt cls sep ih show ?thesis by (auto intro!: tokens_blank [THEN trans])
  next
    assume "word_token t"
    with nxt cls sep ih show ?thesis by (auto intro!: tokens_word [THEN trans])
  next
    assume "mark_token t"
    with ih show ?thesis by (simp add: tokens_mark)
  qed
qed simp

section \<open>\<open>parse_file\<close> against the lexer\<close>

text \<open>The slots of the reader: the chunks, and an empty current sentence after a delimiter.\<close>

fun slot_chunk :: "string list \<Rightarrow> sentence list" where
  "slot_chunk [] = [[]]"
| "slot_chunk (t # ts) =
     (if starts_with_delimiter t then [t] # slot_chunk ts
      else (t # hd (slot_chunk ts)) # tl (slot_chunk ts))"

lemma slot_chunk_not_Nil [simp]: "slot_chunk ts \<noteq> []"
  by (cases ts) auto

lemma chunk_slot_chunk:
  "chunk ts = (if last (slot_chunk ts) = [] then butlast (slot_chunk ts) else slot_chunk ts)"
proof (induction ts)
  case (Cons t ts)
  obtain s ss where s: "slot_chunk ts = s # ss" by (cases "slot_chunk ts") auto
  then show ?case using Cons by (cases ss) (auto split: if_splits)
qed simp

definition glue :: "sentence list \<Rightarrow> sentence \<Rightarrow> string list \<Rightarrow> sentence list" where
  "glue prev cur ts = prev @ (cur @ hd (slot_chunk ts)) # tl (slot_chunk ts)"

lemma glue_simps:
  "glue prev cur [] = prev @ [cur]"
  "glue prev cur (t # ts) =
     (if starts_with_delimiter t then glue (prev @ [cur @ [t]]) [] ts else glue prev (cur @ [t]) ts)"
  by (simp_all add: glue_def)

definition slots_of :: "sentence list \<times> sentence \<times> string \<Rightarrow> sentence list" where
  "slots_of = (\<lambda>(prev, cur, word). prev @ [flush_word word cur])"

lemma clean_Cons_blank:
  "clean (c # cs) \<Longrightarrow> is_blank c \<Longrightarrow>
     take (MAX_WORD - 1) (c # takeWhile is_blank cs) = c # takeWhile is_blank cs \<and> clean (dropWhile is_blank cs)"
  by (auto simp: clean_def tokens.simps(2) no_nul_set dest: set_dropWhileD)

text \<open>A pending word buffer is the part of the next token that has been read.\<close>

definition pending_ok :: "string \<Rightarrow> bytes \<Rightarrow> bool" where
  "pending_ok word cs \<longleftrightarrow>
     list_all is_word_char word \<and> length word < MAX_WORD - 1 \<and> clean (word @ cs)"

lemma clean_tl:
  "clean (c # cs) \<Longrightarrow> \<not> is_word_char c \<Longrightarrow> \<not> is_blank c \<Longrightarrow> clean cs"
  by (simp add: clean_def tokens.simps(2))

lemma tokens_pending:
  "list_all is_word_char word \<Longrightarrow> \<not> is_word_char c \<Longrightarrow>
     tokens (word @ c # cs) = (if word = [] then [] else [word]) @ tokens (c # cs)"
  using tokens_word [of word "c # cs"] by (auto simp: word_token_def)

lemma clean_pending:
  assumes "list_all is_word_char word" and "\<not> is_word_char c" and "clean (word @ c # cs)"
  shows "clean (c # cs)" and "cstr word = word"
  using assms by (auto simp: clean_def tokens_pending)

lemma flush_pending:
  "cstr word = word \<Longrightarrow> \<not> starts_with_delimiter word \<Longrightarrow>
     glue prev cur ((if word = [] then [] else [word]) @ ts) = glue prev (flush_word word cur) ts"
  by (simp add: flush_word_def glue_simps)

lemma word_no_delimiter: "list_all is_word_char word \<Longrightarrow> \<not> starts_with_delimiter word"
  by (cases word) (auto simp: starts_with_delimiter_def dest: char_classes)

text \<open>A word that fills the buffer is a whole token of a clean file.\<close>

lemma full_word_token:
  assumes "list_all is_word_char word" and "is_word_char c" and "length (word @ [c]) = MAX_WORD - 1"
    and "clean (word @ c # cs)"
  shows "tokens (word @ c # cs) = (word @ [c]) # tokens cs"
proof -
  have "cs = [] \<or> \<not> is_word_char (hd cs)"
  proof (rule ccontr)
    assume "\<not> ?thesis"
    then obtain d ds where cs: "cs = d # ds" "is_word_char d" by (cases cs) auto
    have "word_token (word @ [c, d] @ takeWhile is_word_char ds)"
      using assms(1,2) cs by (auto simp: word_token_def list_all_iff dest: set_takeWhileD)
    moreover have "dropWhile is_word_char ds = [] \<or> \<not> is_word_char (hd (dropWhile is_word_char ds))"
      using hd_dropWhile by blast
    ultimately have "tokens ((word @ [c, d] @ takeWhile is_word_char ds) @ dropWhile is_word_char ds) =
        (word @ [c, d] @ takeWhile is_word_char ds) # tokens (dropWhile is_word_char ds)"
      by (rule tokens_word)
    then show False using assms(3,4) unfolding cs by (simp add: clean_def)
  qed
  moreover have "word_token (word @ [c])" using assms(1,2) by (simp add: word_token_def)
  ultimately show ?thesis using tokens_word [of "word @ [c]" cs] by simp
qed

lemma parse_loop_glue:
  "pending_ok word cs \<Longrightarrow> slots_of (parse_loop cs prev cur word) = glue prev cur (tokens (word @ cs))"
proof (induction cs prev cur word rule: parse_loop.induct)
  case (1 prev cur word)
  then have "tokens word = (if word = [] then [] else [word])" "cstr word = word"
    using tokens_word [of word "[]"] by (auto simp: pending_ok_def word_token_def clean_def)
  then show ?case
    using "1" flush_pending [of word prev cur "[]"] word_no_delimiter [of word]
    by (simp add: parse_loop.simps slots_of_def pending_ok_def glue_simps)
next
  case (2 c cs prev cur word)
  note pend = "2.prems" [unfolded pending_ok_def]
  have nd: "\<not> starts_with_delimiter word" using pend word_no_delimiter by blast
  show ?case
  proof (cases "is_word_char c")
    case False
    note cl = clean_pending [OF _ False, of word cs] and tp = tokens_pending [OF _ False, of word cs]
    have fl: "glue prev cur (tokens (word @ c # cs)) = glue prev (flush_word word cur) (tokens (c # cs))"
      using pend cl tp flush_pending [OF _ nd] by simp
    have c: "clean (c # cs)" using pend cl by blast
    have empty: "pending_ok [] xs" if "clean xs" for xs using that by (simp add: pending_ok_def)
    consider "is_blank c" | "c = NL" | "is_delimiter c" using False token_cases by blast
    then show ?thesis
    proof cases
      case 1
      note cb = clean_Cons_blank [OF c 1]
      have nd': "\<not> starts_with_delimiter (c # takeWhile is_blank cs)"
        using char_classes(2) [OF 1] by (simp add: starts_with_delimiter_def)
      have "pending_ok [] (dropWhile is_blank cs)" by (rule empty [OF conjunct2 [OF cb]])
      from "2.IH"(1) [OF 1 this]
      show ?thesis using conjunct1 [OF cb] nd' 1 unfolding fl
        by (simp add: parse_loop.simps(2) tokens.simps(2) glue_simps del: take_Suc_Cons)
    next
      case 2
      then have nb: "\<not> is_blank c" by simp
      have "pending_ok [] cs" by (rule empty [OF clean_tl [OF c False nb]])
      from "2.IH"(2) [OF nb 2 this] show ?thesis unfolding fl
        using nb False 2 by (simp add: parse_loop.simps(2) tokens_single glue_simps)
    next
      case 3
      then have nb: "\<not> is_blank c" and nl: "c \<noteq> NL" using char_classes(2,5) by blast+
      have "pending_ok [] cs" by (rule empty [OF clean_tl [OF c False nb]])
      from "2.IH"(3) [OF nb nl 3 this] show ?thesis unfolding fl
        using nb False nl 3 by (simp add: parse_loop.simps(2) tokens_single glue_simps)
    qed
  next
    case True
    note b = char_classes(6-8) [OF True]
    show ?thesis
    proof (cases "length (word @ [c]) \<ge> MAX_WORD - 1")
      case False
      then have "pending_ok (word @ [c]) cs" using pend True by (simp add: pending_ok_def)
      with "2.IH"(5) b False show ?thesis by (simp add: parse_loop.simps(2) Let_def)
    next
      case long: True
      then have len: "length (word @ [c]) = MAX_WORD - 1" using pend by simp
      have tk: "tokens (word @ c # cs) = (word @ [c]) # tokens cs"
        using full_word_token [OF _ True len] pend by blast
      then have "pending_ok [] cs" "cstr (word @ [c]) = word @ [c]"
        using pend by (auto simp: pending_ok_def clean_def)
      with "2.IH"(4) b long tk show ?thesis
        using word_no_delimiter [of "word @ [c]"] pend True
        by (simp add: parse_loop.simps(2) Let_def glue_simps flush_word_def)
    qed
  qed
qed

lemma parse_content_slots:
  "parse_content bs =
     (let slots = slots_of (parse_loop bs [] [] [])
      in \<lparr>sentences = slots, sentence_count = (if last slots = [] then length slots - 1 else length slots)\<rparr>)"
  by (auto simp: parse_content_def slots_of_def Let_def nth_append split: prod.splits)

lemma counted_parse:
  assumes "clean bs"
  shows "counted (parse_content bs) = chunk (tokens bs)"
proof -
  have "pending_ok [] bs" using assms by (simp add: pending_ok_def)
  from parse_loop_glue [OF this, of "[]" "[]"]
  have "slots_of (parse_loop bs [] [] []) = slot_chunk (tokens bs)"
    by (simp add: glue_def)
  then show ?thesis
    by (simp add: counted_def parse_content_slots Let_def chunk_slot_chunk butlast_conv_take)
qed

section \<open>The writer after the reader\<close>

text \<open>The tokens of a written file: a space token wherever the writer puts a gap.\<close>

fun spaced :: "string list \<Rightarrow> string list" where
  "spaced [] = []"
| "spaced [t] = [t]"
| "spaced (t # u # ts) =
     (if starts_with_delimiter t \<and> \<not> should_skip_for_indexing u then t # '' '' # spaced (u # ts)
      else t # spaced (u # ts))"

lemma blank_space [simp]: "blank_token '' ''"
  by (simp add: blank_token_def is_blank_def)

lemma token_kinds:
  assumes "lexed ts" and "t \<in> set ts"
  shows "should_skip_for_indexing t \<longleftrightarrow> blank_token t \<or> t = [NL]"
    and "starts_with_delimiter t \<longleftrightarrow> mark_token t \<and> t \<noteq> [NL]"
    and "word_token t \<longleftrightarrow> \<not> starts_with_delimiter t \<and> \<not> should_skip_for_indexing t"
proof -
  show "should_skip_for_indexing t \<longleftrightarrow> blank_token t \<or> t = [NL]"
    by (simp add: should_skip_for_indexing_def token_tests(1) is_newline_token_def)
  moreover have "word_token t \<Longrightarrow> \<not> blank_token t" for t
    using char_classes(1) by (cases t) (auto simp: word_token_def blank_token_def)
  moreover have "\<not> word_token [NL]" "\<not> starts_with_delimiter [NL]"
    by (simp_all add: word_token_def)
  moreover have "mark_token t \<Longrightarrow> t \<noteq> [NL] \<Longrightarrow> starts_with_delimiter t \<and> \<not> word_token t \<and> \<not> blank_token t"
    using char_classes(2,4) by (auto simp: mark_token_def word_token_def blank_token_def)
  ultimately show "starts_with_delimiter t \<longleftrightarrow> mark_token t \<and> t \<noteq> [NL]"
    "word_token t \<longleftrightarrow> \<not> starts_with_delimiter t \<and> \<not> should_skip_for_indexing t"
    using lexed_token [OF assms] token_tests(2,3) by blast+
qed

lemma hd_spaced: "ts \<noteq> [] \<Longrightarrow> spaced ts \<noteq> [] \<and> hd (spaced ts) = hd ts"
  by (induction ts rule: induct_list012) auto

lemma lexed_spaced: "lexed ts \<Longrightarrow> lexed (spaced ts)"
proof (induction ts rule: induct_list012)
  case (3 t u ts)
  have ih: "lexed (spaced (u # ts))" using "3.IH"(2) lexed_tl [OF "3.prems"] by blast
  note hd = hd_spaced [of "u # ts", simplified]
  show ?case
  proof (cases "starts_with_delimiter t \<and> \<not> should_skip_for_indexing u")
    case True
    have "\<not> blank_token t" "\<not> word_token t" "\<not> blank_token u"
      using True token_tests(2,3) by blast+
    moreover have "lexed ('' '' # spaced (u # ts))"
      using ih hd calculation(3) by (auto intro!: lexed_Cons simp: word_token_def is_word_char_def is_blank_def)
    ultimately show ?thesis using True lexed_hd [OF "3.prems"] by (auto intro!: lexed_Cons)
  next
    case False
    then show ?thesis using ih hd "3.prems" lexed_hd [OF "3.prems"]
      by (auto intro!: lexed_Cons)
  qed
qed auto

lemma word_gap_lexed:
  assumes "lexed (t # u # ts)" and "\<not> starts_with_delimiter t"
  shows "word_gap t u = []"
proof -
  have "\<not> (word_token t \<and> word_token u)" using assms(1) by simp
  then show ?thesis
    using token_kinds(3) [OF assms(1), of t] token_kinds(3) [OF assms(1), of u] assms(2)
    by (auto simp: word_gap_def should_skip_for_indexing_def)
qed

lemma chunk_eq_Nil [simp]: "chunk ts = [] \<longleftrightarrow> ts = []"
  by (cases ts) (auto split: list.splits)

lemma hd_chunk: "ts \<noteq> [] \<Longrightarrow> hd (chunk ts) \<noteq> [] \<and> hd (hd (chunk ts)) = hd ts"
  by (cases ts) (auto split: list.splits)

lemma concat_chunk: "concat (chunk ts) = ts"
  by (induction ts) (auto split: list.splits)

lemma render_chunk: "lexed ts \<Longrightarrow> render_sentences (chunk ts) = concat (spaced ts)"
proof (induction ts rule: induct_list012)
  case (3 t u ts)
  have ih: "render_sentences (chunk (u # ts)) = concat (spaced (u # ts))"
    using "3.IH"(2) lexed_tl [OF "3.prems"] by blast
  obtain v s ss where c: "chunk (u # ts) = (v # s) # ss"
    using hd_chunk [of "u # ts"] chunk_eq_Nil [of "u # ts"]
    by (metis list.distinct(1) list.exhaust_sel)
  then have v: "v = u" using hd_chunk [of "u # ts"] by simp
  show ?case
  proof (cases "starts_with_delimiter t")
    case True
    then have "\<not> is_newline_token t \<and> \<not> is_space_token t"
      using token_tests(2) [of t] by (auto simp: token_tests(1) is_newline_token_def)
    then have "sentence_gap [t] (v # s) = (if should_skip_for_indexing u then [] else '' '')"
      by (simp add: sentence_gap_def v should_skip_for_indexing_def)
    moreover have "chunk (t # u # ts) = [t] # (v # s) # ss" using True c by simp
    ultimately show ?thesis using True ih c by (simp del: chunk.simps)
  next
    case False
    then have "chunk (t # u # ts) = (t # v # s) # ss" using c by simp
    moreover have "render_sentences ((t # v # s) # ss) = t @ render_sentences ((v # s) # ss)"
      using word_gap_lexed [OF "3.prems" False] v
      by (cases ss) (simp_all add: sentence_gap_def)
    ultimately show ?thesis using False ih c by (simp del: chunk.simps)
  qed
qed simp_all

lemma normalise_append_run:
  "list_all (\<lambda>c. \<not> is_delimiter c) t \<Longrightarrow> normalise (t @ cs) = t @ normalise cs"
proof (induction t)
  case (Cons c t)
  then show ?case by (cases "t @ cs") auto
qed simp

lemma normalise_spaced: "lexed ts \<Longrightarrow> normalise (concat ts) = concat (spaced ts)"
proof (induction ts rule: induct_list012)
  case (2 t)
  show ?case
  proof (cases "starts_with_delimiter t")
    case True
    then show ?thesis using token_kinds(2) [OF "2", of t] by (auto simp: mark_token_def)
  next
    case False
    then have "list_all (\<lambda>c. \<not> is_delimiter c) t"
      using "2" char_classes(2,8) by (auto simp: blank_token_def word_token_def mark_token_def list_all_iff)
    from normalise_append_run [OF this, of "[]"] show ?thesis by simp
  qed
next
  case (3 t u ts)
  have ih: "normalise (concat (u # ts)) = concat (spaced (u # ts))"
    using "3.IH"(2) lexed_tl [OF "3.prems"] by blast
  show ?case
  proof (cases "starts_with_delimiter t")
    case True
    then obtain c where t: "t = [c]" "is_delimiter c"
      using token_kinds(2) [OF "3.prems", of t] by (auto simp: mark_token_def)
    obtain d ds where u: "u = d # ds"
      using token_hd_class [OF lexed_hd [OF lexed_tl [OF "3.prems"]]] by (cases u) auto
    have "should_skip_for_indexing u \<longleftrightarrow> is_blank d \<or> d = NL"
      using token_hd_class [OF lexed_hd [OF lexed_tl [OF "3.prems"]]] u
        lexed_hd [OF lexed_tl [OF "3.prems"]] not_special_NL
      by (auto simp: should_skip_for_indexing_def token_tests(1) is_newline_token_def
          mark_token_def word_token_def blank_token_def)
    then show ?thesis using True ih by (simp add: t u)
  next
    case False
    then have "list_all (\<lambda>c. \<not> is_delimiter c) t"
      using lexed_hd [OF "3.prems"] char_classes(2,8)
      by (auto simp: blank_token_def word_token_def mark_token_def list_all_iff)
    from normalise_append_run [OF this] show ?thesis using False ih by simp
  qed
qed simp

lemma render_parse_aux:
  "clean bs \<Longrightarrow> render (parse_content bs) = normalise bs"
  using render_chunk [OF lexed_tokens] normalise_spaced [OF lexed_tokens, of bs]
  by (simp add: render_def counted_parse concat_tokens)

lemma set_spaced: "set (spaced ts) \<subseteq> insert '' '' (set ts)"
  by (induction ts rule: induct_list012) auto

lemma spaced_spaced: "lexed ts \<Longrightarrow> spaced (spaced ts) = spaced ts"
proof (induction ts rule: induct_list012)
  case (3 t u ts)
  obtain v vs where s: "spaced (u # ts) = u # vs"
    using hd_spaced [of "u # ts"] by (cases "spaced (u # ts)") auto
  have ih: "spaced (spaced (u # ts)) = spaced (u # ts)" using "3.IH"(2) lexed_tl [OF "3.prems"] by blast
  have sp: "should_skip_for_indexing '' ''" "\<not> starts_with_delimiter '' ''"
    using token_tests(2) [OF blank_space] by blast+
  show ?case using ih sp by (simp add: s)
qed auto

lemma clean_concat:
  assumes "clean bs" and "lexed us" and "set us \<subseteq> insert '' '' (set (tokens bs))"
  shows "clean (concat us)"
proof -
  have "no_nul t \<and> length t < MAX_WORD" if "t \<in> set us" for t
  proof (cases "t = '' ''")
    case False
    with that assms(3) have "t \<in> set (tokens bs)" by blast
    then show ?thesis
      using assms(1) concat_tokens [of bs] unfolding clean_def no_nul_set list_all_iff
      by (metis UN_I set_concat)
  qed (simp add: NUL_def)
  then show ?thesis
    by (simp add: clean_def tokens_concat [OF assms(2)] list_all_iff) (auto simp: no_nul_set)
qed

lemma clean_normalise:
  assumes "clean bs"
  shows "clean (normalise bs)"
proof -
  have "clean (concat (spaced (tokens bs)))"
    by (rule clean_concat [OF assms lexed_spaced [OF lexed_tokens] set_spaced])
  then show ?thesis using normalise_spaced [OF lexed_tokens, of bs] by (simp add: concat_tokens)
qed

lemma normalise_idem: "normalise (normalise bs) = normalise bs"
proof -
  have n: "normalise bs = concat (spaced (tokens bs))"
    using normalise_spaced [OF lexed_tokens, of bs] by (simp add: concat_tokens)
  show ?thesis unfolding n
    by (simp add: normalise_spaced [OF lexed_spaced [OF lexed_tokens]] spaced_spaced [OF lexed_tokens])
qed

section \<open>\<open>split_by_delimiters\<close> against the lexer\<close>

definition too_long :: "string list \<Rightarrow> bool" where
  "too_long ts \<longleftrightarrow> list_ex (\<lambda>t. word_token t \<and> length t \<ge> MAX_WORD) ts"

definition split_spec :: "string list \<Rightarrow> string list option" where
  "split_spec ts = (if too_long ts then None else Some (map (take (MAX_WORD - 1)) ts))"

lemma split_spec_simps:
  "split_spec [] = Some []"
  "split_spec (t # ts) =
     (if word_token t \<and> length t \<ge> MAX_WORD then None
      else map_option (\<lambda>ps. take (MAX_WORD - 1) t # ps) (split_spec ts))"
  by (simp_all add: split_spec_def too_long_def)

lemma tokens_word_extends:
  assumes "word_token w"
  shows "\<exists>t ts. tokens (w @ cs) = t # ts \<and> word_token t \<and> length w \<le> length t"
proof -
  let ?t = "w @ takeWhile is_word_char cs" and ?r = "dropWhile is_word_char cs"
  have "word_token ?t" using assms by (auto simp: word_token_def list_all_iff dest: set_takeWhileD)
  moreover have "?r = [] \<or> \<not> is_word_char (hd ?r)" using hd_dropWhile by blast
  ultimately have "tokens (?t @ ?r) = ?t # tokens ?r" by (rule tokens_word)
  then have "tokens (w @ cs) = ?t # tokens ?r" by simp
  with \<open>word_token ?t\<close> show ?thesis by auto
qed

lemma save_buffer_spec:
  assumes "list_all is_word_char buffer" and "\<not> is_word_char c"
  shows "map_option (\<lambda>ps. parts @ ps) (split_spec (tokens (buffer @ c # cs))) =
           Option.bind (save_buffer buffer parts) (\<lambda>ps. map_option (\<lambda>qs. ps @ qs) (split_spec (tokens (c # cs))))"
proof (cases "buffer = []")
  case False
  then have "word_token buffer" using assms(1) by (simp add: word_token_def)
  with False show ?thesis using tokens_pending [OF assms, of cs]
    by (cases "split_spec (tokens (c # cs))") (simp_all add: save_buffer_def split_spec_simps)
qed (simp add: save_buffer_def)

lemma split_loop_spec:
  "list_all is_word_char buffer \<Longrightarrow> length buffer \<le> MAX_WORD \<Longrightarrow>
     split_loop cs buffer parts = map_option (\<lambda>ps. parts @ ps) (split_spec (tokens (buffer @ cs)))"
proof (induction cs buffer parts rule: split_loop.induct)
  case (1 buffer parts)
  then show ?case
    using tokens_word [of buffer "[]"]
    by (cases "buffer = []") (simp_all add: split_loop.simps save_buffer_def split_spec_simps word_token_def)
next
  case (2 c cs buffer parts)
  show ?case
  proof (cases "is_word_char c")
    case True
    note cl = char_classes(6-8) [OF True]
    show ?thesis
    proof (cases "length buffer < MAX_WORD")
      case True
      with "2.IH"(4) cl "2.prems" \<open>is_word_char c\<close> show ?thesis by (simp add: split_loop.simps(2))
    next
      case False
      have "word_token (buffer @ [c])" using "2.prems" True by (simp add: word_token_def)
      from tokens_word_extends [OF this, of cs] obtain t ts where
        "tokens (buffer @ c # cs) = t # ts" "word_token t" "Suc (length buffer) \<le> length t" by auto
      then show ?thesis using False cl by (simp add: split_loop.simps(2) split_spec_simps)
    qed
  next
    case False
    note sb = save_buffer_spec [OF "2.prems"(1) False, of parts cs]
    consider "is_blank c" | "\<not> is_blank c" "c = NL" | "\<not> is_blank c" "c \<noteq> NL" "is_delimiter c"
      using False token_cases by blast
    then show ?thesis
    proof cases
      case 1
      have "\<not> word_token (c # takeWhile is_blank cs)"
        using char_classes(1) [OF 1] by (simp add: word_token_def)
      then show ?thesis using "2.IH"(1) [OF 1] 1 unfolding sb
        by (auto simp: split_loop.simps(2) tokens.simps(2) split_spec_simps option.map_comp comp_def
            simp del: take_Suc_Cons intro!: Option.bind_cong [OF refl])
    next
      case 2
      then show ?thesis using "2.IH"(2) [OF 2] False unfolding sb
        by (auto simp: split_loop.simps(2) tokens_single split_spec_simps option.map_comp comp_def
            intro!: Option.bind_cong [OF refl])
    next
      case 3
      then show ?thesis using "2.IH"(3) [OF 3] False unfolding sb
        by (auto simp: split_loop.simps(2) tokens_single split_spec_simps option.map_comp comp_def
            intro!: Option.bind_cong [OF refl])
    qed
  qed
qed

lemma split_by_delimiters_eq: "split_by_delimiters word = split_spec (tokens word)"
  using split_loop_spec [of "[]" word "[]"] by (simp add: split_by_delimiters_def option.map_id0 id_def option.map_ident)

section \<open>\<open>file_content_to_string\<close> against \<open>write_file_content\<close>\<close>

lemma word_gap_cases: "word_gap w v = [] \<or> word_gap w v = '' ''"
  by (simp add: word_gap_def)

lemma sentence_gap_cases: "sentence_gap s t = [] \<or> sentence_gap s t = '' ''"
  by (auto simp: sentence_gap_def split: list.split)

lemma to_string_words_fits:
  "length r + length (render_words s) + 2 < MAX_BUFFER \<Longrightarrow> to_string_words r s = Some (r @ render_words s)"
proof (induction s arbitrary: r rule: render_words.induct)
  case (3 w v ws)
  have "to_string_words (r @ w @ word_gap w v) (v # ws) = Some ((r @ w @ word_gap w v) @ render_words (v # ws))"
    using "3.prems" by (intro "3.IH") simp
  then show ?case using "3.prems" word_gap_cases [of w v] to_string_words.simps(2) [of r w "v # ws"]
    by (auto simp: put_char_def simp del: to_string_words.simps)
qed simp_all

lemma to_string_sentences_fits:
  "length r + length (render_sentences ss) + 2 < MAX_BUFFER \<Longrightarrow>
     to_string_sentences r ss = Some (r @ render_sentences ss)"
proof (induction ss arbitrary: r rule: render_sentences.induct)
  case (3 s t ss)
  have "to_string_words r s = Some (r @ render_words s)"
    using 3 by (intro to_string_words_fits) simp
  moreover have "to_string_sentences (r @ render_words s @ sentence_gap s t) (t # ss) =
      Some ((r @ render_words s @ sentence_gap s t) @ render_sentences (t # ss))"
    using "3.prems" by (intro "3.IH") simp
  ultimately show ?case
    using "3.prems" sentence_gap_cases [of s t] to_string_sentences.simps(2) [of r s "t # ss"]
    by (auto simp: put_char_def simp del: to_string_sentences.simps)
qed (simp_all add: to_string_words_fits)

section \<open>\<open>get_file_stats\<close> against the lexer\<close>

definition count_words :: "string list \<Rightarrow> nat" where
  "count_words ts = length (filter (\<lambda>t. list_all is_word_char t \<and> t \<noteq> []) ts)"

lemma stats_loop_word:
  "list_all is_word_char w \<Longrightarrow> w \<noteq> [] \<Longrightarrow>
     stats_loop (w @ cs) b words chars = stats_loop cs True words (chars + length w)"
proof (induction w arbitrary: b chars)
  case (Cons c w)
  then have "\<not> (is_blank c \<or> c = NL \<or> is_delimiter c)" using char_classes(6-8) [of c] by auto
  with Cons show ?case by (cases "w = []") simp_all
qed simp

lemma stats_loop_sep:
  "list_all (\<lambda>c. \<not> is_word_char c) w \<Longrightarrow> w \<noteq> [] \<Longrightarrow>
     stats_loop (w @ cs) b words chars =
     stats_loop cs False (if b then Suc words else words) (chars + length w)"
proof (induction w arbitrary: b words chars)
  case (Cons c w)
  then have "is_blank c \<or> c = NL \<or> is_delimiter c" using token_cases [of c] by auto
  with Cons show ?case by (cases "w = []") simp_all
qed simp

lemma stats_loop_concat:
  "lexed ts \<Longrightarrow> b = False \<or> ts = [] \<or> \<not> word_token (hd ts) \<Longrightarrow>
     stats_loop (concat ts) b words chars =
       ((if b then Suc words else words) + count_words ts, chars + length (concat ts))"
proof (induction ts arbitrary: b words chars)
  case (Cons t ts)
  have cw: "list_all is_word_char t \<and> t \<noteq> [] \<longleftrightarrow> word_token t" by (auto simp: word_token_def)
  show ?case
  proof (cases "word_token t")
    case True
    then have "b = False" "ts = [] \<or> \<not> word_token (hd ts)" "lexed ts"
      using Cons.prems by (cases ts; auto)+
    with True Cons.IH [of True words "chars + length t"] show ?thesis
      by (simp add: stats_loop_word word_token_def count_words_def)
  next
    case False
    then have "t \<noteq> []" "list_all (\<lambda>c. \<not> is_word_char c) t"
      using lexed_hd [OF Cons.prems(1)] char_classes(1,4) not_special_NL
      by (auto simp: blank_token_def mark_token_def list_all_iff)
    with Cons.IH [of False "if b then Suc words else words" "chars + length t"] lexed_tl [OF Cons.prems(1)] False
    show ?thesis using cw by (simp add: stats_loop_sep count_words_def)
  qed
qed (simp add: count_words_def)

lemma file_stats_eq: "file_stats bs = (count_words (tokens bs), length bs)"
  using stats_loop_concat [OF lexed_tokens, of False bs 0 0] by (simp add: file_stats_def concat_tokens)

section \<open>\<open>insert_word_in_sentence\<close> against a specification on lists\<close>

text \<open>
  Inserting the parts of a text at a position of sentence \<open>s\<close>: with a delimiter that is not the
  last part, the sentence is cut after the last delimiter and what followed the position goes to
  the new sentence; in any case one slot is added per delimiter and per cut, the unused ones empty.
\<close>

definition insert_tokens :: "sentence list \<Rightarrow> nat \<Rightarrow> nat \<Rightarrow> string list \<Rightarrow> sentence list" where
  "insert_tokens ss s pos parts =
     (let a = take pos (ss ! s); b = drop pos (ss ! s); k = count_new_sentences parts;
          cut = (case last_delimiter_idx parts of
                   None \<Rightarrow> [a @ parts @ b] @ replicate k []
                 | Some d \<Rightarrow>
                     if d < length parts - 1 then
                       [a @ take (Suc d) parts, drop (Suc d) parts @ b] @ replicate (k - 1) []
                     else [a @ parts @ b] @ replicate k [])
      in take s ss @ cut @ drop (Suc s) ss)"

lemma concat_insert_tokens:
  assumes "s < length ss"
  shows "concat (insert_tokens ss s pos parts) =
           concat (take s ss) @ take pos (ss ! s) @ parts @ drop pos (ss ! s) @ concat (drop (Suc s) ss)"
proof -
  have e: "concat (replicate k []) = []" for k by (induction k) simp_all
  have "take (Suc d) parts @ drop (Suc d) parts @ xs = parts @ xs" for d xs
    by (metis append.assoc append_take_drop_id)
  then show ?thesis
    by (auto simp: insert_tokens_def Let_def e split: option.split)
qed

lemma insert_nth_run:
  "pos \<le> length w \<Longrightarrow> insert_nth (pos + length xs) p (take pos w @ xs @ drop pos w) = take pos w @ (xs @ [p]) @ drop pos w"
  by (simp add: insert_nth_def)

lemma insert_parts_append:
  "insert_parts parts i (xs @ ys) st = insert_parts parts (i + length xs) ys (insert_parts parts i xs st)"
  by (induction xs arbitrary: i st) simp_all

lemma insert_parts_run:
  assumes "ins_cur st < length (ins_slots st)" and "ins_pos st \<le> length (ins_slots st ! ins_cur st)"
    and "ins_new st \<or> (\<forall>j < length ps. \<not> should_split parts (i + j))"
  shows "insert_parts parts i ps st =
           st\<lparr>ins_slots := (ins_slots st)[ins_cur st :=
                take (ins_pos st) (ins_slots st ! ins_cur st) @ ps @ drop (ins_pos st) (ins_slots st ! ins_cur st)],
              ins_pos := ins_pos st + length ps\<rparr>"
  using assms
proof (induction ps rule: rev_induct)
  case (snoc p ps)
  let ?w = "ins_slots st ! ins_cur st"
  have "insert_parts parts i ps st =
      st\<lparr>ins_slots := (ins_slots st)[ins_cur st := take (ins_pos st) ?w @ ps @ drop (ins_pos st) ?w],
         ins_pos := ins_pos st + length ps\<rparr>"
    using snoc by (intro snoc.IH) (auto simp: less_Suc_eq)
  moreover have "ins_new st \<or> \<not> should_split parts (i + length ps)" using snoc.prems(3) by auto
  moreover note insert_nth_run [OF snoc.prems(2), of ps p]
  ultimately show ?case using snoc.prems(1)
    by (auto simp: insert_parts_append insert_part_def Let_def)
qed simp

lemma last_delimiter_Some:
  assumes "last_delimiter_idx parts = Some d"
  shows "d < length parts" and "starts_with_delimiter (parts ! d)"
    and "\<And>j. d < j \<Longrightarrow> j < length parts \<Longrightarrow> \<not> starts_with_delimiter (parts ! j)"
proof -
  from assms have ex: "list_ex starts_with_delimiter parts"
    and d: "d = length parts - 1 - the (find_index starts_with_delimiter (rev parts))"
    by (auto simp: last_delimiter_idx_def split: if_splits)
  then obtain i where i: "find_index starts_with_delimiter (rev parts) = Some i"
    by (cases "find_index starts_with_delimiter (rev parts)") (auto simp: find_index_None list_ex_iff)
  then have i': "i < length parts" "starts_with_delimiter (rev parts ! i)"
    "\<And>j. j < i \<Longrightarrow> \<not> starts_with_delimiter (rev parts ! j)"
    by (simp_all add: find_index_Some)
  with d i show "d < length parts" "starts_with_delimiter (parts ! d)" by (auto simp: rev_nth)
  fix j assume j: "d < j" "j < length parts"
  then have "length parts - 1 - j < i" using d i i' by simp
  from i'(3) [OF this] j show "\<not> starts_with_delimiter (parts ! j)" by (simp add: rev_nth)
qed

text \<open>The loop of the code on the slots it made room in.\<close>

definition run_insert :: "sentence list \<Rightarrow> nat \<Rightarrow> nat \<Rightarrow> string list \<Rightarrow> sentence list" where
  "run_insert slots s pos parts =
     ins_slots (insert_parts parts 0 parts
       \<lparr>ins_slots = slots, ins_cur = s, ins_pos = pos, ins_new = False\<rparr>)"

lemma run_insert_uncut:
  assumes "s < length slots" and "pos \<le> length (slots ! s)"
    and "\<forall>d. last_delimiter_idx parts = Some d \<longrightarrow> \<not> d < length parts - 1"
  shows "run_insert slots s pos parts =
           slots[s := take pos (slots ! s) @ parts @ drop pos (slots ! s)]"
proof -
  have "\<not> should_split parts j" for j using assms(3) by (auto simp: should_split_def)
  with assms(1,2) show ?thesis by (simp add: run_insert_def insert_parts_run)
qed

lemma take_drop_len:
  "length xs = n \<Longrightarrow> take n (xs @ ys) = xs" "length xs = n \<Longrightarrow> drop n (xs @ ys) = ys"
  by simp_all

lemma take_list_update:
  assumes "s < n" and "n \<le> length slots"
  shows "take n (slots[s := v]) = take s slots @ v # drop (Suc s) (take n slots)"
proof -
  have "take n (slots[s := v]) = (take n slots)[s := v]" by (rule take_update_swap)
  also have "\<dots> = take s (take n slots) @ v # drop (Suc s) (take n slots)"
    using assms by (intro upd_conv_take_nth_drop) simp
  finally show ?thesis using assms(1) by (simp add: min_def)
qed

lemma run_insert_cut:
  assumes "Suc s < length slots" and "pos \<le> length (slots ! s)" and "slots ! Suc s = []"
    and d: "last_delimiter_idx parts = Some d" "d < length parts - 1"
  shows "run_insert slots s pos parts =
           slots[s := take pos (slots ! s) @ take (Suc d) parts,
                 Suc s := drop (Suc d) parts @ drop pos (slots ! s)]"
proof -
  let ?w = "slots ! s"
  let ?st0 = "\<lparr>ins_slots = slots, ins_cur = s, ins_pos = pos, ins_new = False\<rparr>"
  let ?st1 = "\<lparr>ins_slots = slots[s := take pos ?w @ take d parts @ drop pos ?w],
               ins_cur = s, ins_pos = pos + d, ins_new = False\<rparr>"
  let ?st2 = "\<lparr>ins_slots = slots[s := take pos ?w @ take (Suc d) parts, Suc s := drop pos ?w],
               ins_cur = Suc s, ins_pos = 0, ins_new = True\<rparr>"
  note dl = last_delimiter_Some(1) [OF d(1)]
  have split: "parts = take d parts @ parts ! d # drop (Suc d) parts"
    using dl by (simp add: id_take_nth_drop [symmetric])
  have lt: "length (take d parts) = d" using dl by simp
  have sj: "should_split parts j \<longleftrightarrow> j = d" for j using d by (auto simp: should_split_def)
  have 1: "insert_parts parts 0 (take d parts) ?st0 = ?st1"
    using assms(1,2) sj lt by (simp add: insert_parts_run)
  have w: "insert_nth (pos + d) (parts ! d) (take pos ?w @ take d parts @ drop pos ?w) =
      take pos ?w @ take (Suc d) parts @ drop pos ?w"
    using insert_nth_run [OF assms(2), of "take d parts" "parts ! d"] lt dl
    by (simp add: take_Suc_conv_app_nth)
  have lw: "length (take pos ?w @ take (Suc d) parts) = Suc (pos + d)"
    using assms(2) dl by simp
  have cuts: "take (Suc (pos + d)) (take pos ?w @ take (Suc d) parts @ drop pos ?w) = take pos ?w @ take (Suc d) parts"
    "drop (Suc (pos + d)) (take pos ?w @ take (Suc d) parts @ drop pos ?w) = drop pos ?w"
    using take_drop_len [OF lw, of "drop pos ?w"] by (simp_all only: append_assoc)
  have 2: "insert_part True (parts ! d) ?st1 = ?st2"
    using assms(1,3) by (simp add: insert_part_def Let_def w cuts del: take_append drop_append)
  have 3: "insert_parts parts (Suc d) (drop (Suc d) parts) ?st2 =
      ?st2\<lparr>ins_slots := (ins_slots ?st2)[Suc s := drop (Suc d) parts @ drop pos ?w],
           ins_pos := length (drop (Suc d) parts)\<rparr>"
    using assms(1) by (subst insert_parts_run) simp_all
  have "insert_parts parts 0 parts ?st0 = insert_parts parts d (parts ! d # drop (Suc d) parts) ?st1"
    using insert_parts_append [of parts 0 "take d parts" "parts ! d # drop (Suc d) parts" ?st0]
    unfolding 1 lt split [symmetric] by simp
  also have "\<dots> = insert_parts parts (Suc d) (drop (Suc d) parts) ?st2" using 2 sj by simp
  finally show ?thesis unfolding 3 run_insert_def by simp
qed

lemma count_new_sentences_pos:
  "last_delimiter_idx parts = Some d \<Longrightarrow> d < length parts - 1 \<Longrightarrow> 0 < count_new_sentences parts"
  by (simp add: count_new_sentences_def)

lemma count_new_sentences_0:
  assumes "count_new_sentences parts = 0"
  shows "last_delimiter_idx parts = None"
  using assms by (auto simp: count_new_sentences_def last_delimiter_idx_def filter_empty_conv list_ex_iff)

lemma run_insert_tokens:
  assumes "s < n" and "n \<le> length slots" and "pos \<le> length (slots ! s)" and "parts \<noteq> []"
  shows "take (n + count_new_sentences parts)
           (run_insert (make_room n s (count_new_sentences parts) slots) s pos parts) =
         insert_tokens (take n slots) s pos parts"
proof -
  let ?k = "count_new_sentences parts"
  let ?room = "make_room n s ?k slots"
  have nth: "take n slots ! s = slots ! s" using assms(1) by simp
  show ?thesis
  proof (cases "?k = 0")
    case True
    then have none: "last_delimiter_idx parts = None" by (rule count_new_sentences_0)
    then show ?thesis using True none assms run_insert_uncut [of s slots pos parts]
      by (simp add: make_room_def insert_tokens_def nth min_def take_list_update del: drop_take)
  next
    case False
    then have room: "?room = take s slots @ slots ! s # replicate ?k [] @ drop (Suc s) (take n slots)"
      using assms(1,2) by (simp add: make_room_def take_Suc_conv_app_nth)
    have ls: "length (take s slots) = s" using assms(1,2) by simp
    have len: "length ?room = n + ?k" unfolding room using assms(1,2) by simp
    have rs: "?room ! s = slots ! s" unfolding room using ls by (simp add: nth_append)
    show ?thesis
    proof (cases "\<exists>d. last_delimiter_idx parts = Some d \<and> d < length parts - 1")
      case True
      then obtain d where d: "last_delimiter_idx parts = Some d" "d < length parts - 1" by blast
      obtain k where k: "?k = Suc k" using False by (cases ?k) auto
      have "?room ! Suc s = []" using ls by (subst room) (simp add: k nth_append)
      then have "run_insert ?room s pos parts = ?room[s := take pos (slots ! s) @ take (Suc d) parts,
          Suc s := drop (Suc d) parts @ drop pos (slots ! s)]"
        using run_insert_cut [of s ?room pos parts d] len assms d k rs by simp
      moreover have "?room[s := x, Suc s := y] = take s slots @ x # y # replicate k [] @ drop (Suc s) (take n slots)" for x y
        using ls by (subst room) (simp add: k list_update_append)
      moreover have "insert_tokens (take n slots) s pos parts = take s slots @
          (take pos (slots ! s) @ take (Suc d) parts) # (drop (Suc d) parts @ drop pos (slots ! s))
          # replicate k [] @ drop (Suc s) (take n slots)"
        using d k assms(1) by (simp add: insert_tokens_def nth Let_def min_def)
      ultimately have "run_insert ?room s pos parts = insert_tokens (take n slots) s pos parts"
        by simp
      moreover have "length (insert_tokens (take n slots) s pos parts) = n + ?k"
        using assms(1,2) k d by (simp add: insert_tokens_def Let_def)
      ultimately show ?thesis by simp
    next
      case False
      then have u: "run_insert ?room s pos parts =
          ?room[s := take pos (slots ! s) @ parts @ drop pos (slots ! s)]"
        using run_insert_uncut [of s ?room pos parts] len assms rs by simp
      have "insert_tokens (take n slots) s pos parts = take s slots @
          [take pos (slots ! s) @ parts @ drop pos (slots ! s)] @ replicate ?k [] @ drop (Suc s) (take n slots)"
        using False assms(1) by (auto simp: insert_tokens_def nth Let_def min_def split: option.split)
      then show ?thesis unfolding u using len ls by (simp add: room list_update_append)
    qed
  qed
qed

definition wf_content :: "file_content \<Rightarrow> bool" where
  "wf_content fc \<longleftrightarrow> sentence_count fc \<le> length (sentences fc)"

lemma wf_parse [simp]: "wf_content (parse_content bs)"
  by (simp add: wf_content_def parse_content_slots Let_def)

lemma insert_position_bound: "insert_position sent i \<le> length sent"
proof -
  have "find_after k j ws = Some p \<Longrightarrow> p \<le> j + length ws" for k j p and ws :: sentence
    by (induction k j ws rule: find_after.induct) (auto split: if_splits)
  from this [of _ 0] show ?thesis
    by (auto simp: insert_position_def Let_def split: option.split)
qed

lemma open_slot_counted:
  assumes "wf_content fc" and "s \<le> sentence_count fc"
    and "\<not> (s = 1 \<and> sentence_count fc = 1 \<and> sentences fc ! 0 = [])"
  shows "wf_content (open_slot s fc)" and "s < sentence_count (open_slot s fc)"
    and "counted (open_slot s fc) = counted fc @ (if s = sentence_count fc then [[]] else [])"
  using assms by (auto simp: open_slot_def wf_content_def counted_def)

lemma insert_word_counted:
  assumes wf: "wf_content fc" and s: "s \<le> sentence_count fc"
    and normal: "\<not> (s = 1 \<and> sentence_count fc = 1 \<and> sentences fc ! 0 = [])"
    and sent: "sent = (if s < sentence_count fc then sentences fc ! s else [])"
    and i: "1 \<le> i" "i \<le> real_word_count sent + 1"
    and parts: "split_by_delimiters word = Some parts" "parts \<noteq> []"
  shows "\<exists>fc'. insert_word_in_sentence fc (int s) (int i) word = Some (int (count_new_sentences parts), fc')
           \<and> wf_content fc'
           \<and> counted fc' = insert_tokens (counted (open_slot s fc)) s (insert_position sent i) parts"
proof -
  let ?fc1 = "open_slot s fc" and ?k = "count_new_sentences parts"
  note o = open_slot_counted [OF wf s normal]
  have st: "sentences ?fc1 ! s = sent" using sent wf s
    by (auto simp: open_slot_def nth_append wf_content_def)
  let ?room = "make_room (sentence_count ?fc1) s ?k (sentences ?fc1)"
  let ?fc' = "?fc1\<lparr>sentences := run_insert ?room s (insert_position sent i) parts,
      sentence_count := sentence_count ?fc1 + ?k\<rparr>"
  have run: "take (sentence_count ?fc1 + ?k) (run_insert ?room s (insert_position sent i) parts) =
      insert_tokens (counted ?fc1) s (insert_position sent i) parts"
    unfolding counted_def using o(1,2) st insert_position_bound [of sent i] parts(2)
    by (intro run_insert_tokens) (simp_all add: wf_content_def)
  have "insert_word_in_sentence fc (int s) (int i) word = Some (int ?k, ?fc')"
    using s i parts st by (simp add: insert_word_in_sentence_def Let_def run_insert_def)
  moreover have "counted ?fc' = insert_tokens (counted ?fc1) s (insert_position sent i) parts"
    using run by (simp add: counted_def)
  moreover have "length (insert_tokens (counted ?fc1) s (insert_position sent i) parts) = sentence_count ?fc1 + ?k"
  proof -
    have "length (counted ?fc1) = sentence_count ?fc1" using o(1) by (simp add: counted_def wf_content_def)
    then show ?thesis using o(2) count_new_sentences_pos [of parts]
      by (auto simp: insert_tokens_def Let_def split: option.split)
  qed
  then have "wf_content ?fc'" using run by (simp add: wf_content_def) (metis length_take min_def nle_le)
  ultimately show ?thesis by blast
qed

section \<open>Properties\<close>






text \<open>
  A file whose text is short enough for the buffer is rendered by \<open>file_content_to_string\<close>
  exactly as \<open>write_file_content\<close> writes it.
\<close>

lemma to_string_agrees:
  assumes "length (render fc) + 2 < MAX_BUFFER"
  shows "file_content_to_string fc = Some (render fc)"
  using to_string_sentences_fits [of "[]" "counted fc"] assms
  by (simp add: file_content_to_string_def render_def)



text \<open>
  \<open>get_file_stats\<close> counts every byte as a character, and as words exactly the lexer's word
  tokens: delimiters and white space separate words and are none.
\<close>

lemma file_stats_correct:
  "file_stats bs = (length (filter word_token (tokens bs)), length bs)"
proof -
  have "(\<lambda>t. list_all is_word_char t \<and> t \<noteq> []) = word_token"
    by (auto simp: word_token_def fun_eq_iff)
  then show ?thesis by (simp add: file_stats_eq count_words_def)
qed

end
