(* ===== verification/TrieIndex.thy ===== *)
theory TrieIndex
  imports Common "HOL-Library.Char_ord" "HOL-Library.List_Lexorder"
begin

text \<open>
  \<open>trie.c\<close>: the index of the name server, a trie over the bytes of a name with 128 children per
  node, used for files (\<open>Trie\<close>) and, with the folder structure stored in the same nodes, for
  folders (\<open>FolderTrie\<close>). The theory has the operations, the contract the name server relies on
  as the locale \<open>name_index\<close>, and its interpretation on both tries. Locks and allocation are not
  modelled: an operation runs under the trie's lock from its first to its last step.
\<close>

section \<open>Nodes and operations\<close>

definition ALPHABET_SIZE :: nat where [simp]: "ALPHABET_SIZE = 128"

datatype 'm trie =
  Trie_node (is_end_of_word: bool) (file_meta: "'m option") (children: "nat \<Rightarrow> 'm trie option")

definition create_trie_node :: "'m trie" where
  "create_trie_node = Trie_node False None (\<lambda>_. None)"

definition init_trie :: "'m trie" where
  "init_trie = create_trie_node"

definition byte_index :: "char \<Rightarrow> nat" where
  "byte_index c = of_char c"

text \<open>The loop \<open>for (i = 0; i < ALPHABET_SIZE; i++)\<close>.\<close>

definition alphabet :: "nat list" where
  "alphabet = [0..<ALPHABET_SIZE]"

lemma set_alphabet [simp]: "set alphabet = {0..<128}"
  unfolding alphabet_def by (simp only: set_upt ALPHABET_SIZE_def)

lemma sorted_alphabet: "sorted_wrt (<) alphabet"
  unfolding alphabet_def by (rule sorted_wrt_upt)

definition no_children :: "(nat \<Rightarrow> 'm trie option) \<Rightarrow> bool" where
  "no_children ch \<longleftrightarrow> list_all (\<lambda>i. ch i = None) alphabet"

text \<open>
  The nodes on the way are created before a later byte is found to be outside the alphabet; they
  stay behind when the insertion fails.
\<close>

fun trie_insert :: "string \<Rightarrow> 'm \<Rightarrow> 'm trie \<Rightarrow> int \<times> 'm trie" where
  "trie_insert [] meta (Trie_node e f ch) = (0, Trie_node True (Some meta) ch)"
| "trie_insert (c # cs) meta (Trie_node e f ch) =
     (let index = byte_index c in
      if index \<ge> ALPHABET_SIZE then (-1, Trie_node e f ch)
      else
        let current = (case ch index of None \<Rightarrow> create_trie_node | Some t \<Rightarrow> t);
            (ret, current') = trie_insert cs meta current
        in (ret, Trie_node e f (ch(index := Some current'))))"

fun trie_search :: "'m trie \<Rightarrow> string \<Rightarrow> 'm option" where
  "trie_search (Trie_node e f ch) [] = (if e then f else None)"
| "trie_search (Trie_node e f ch) (c # cs) =
     (let index = byte_index c in
      if index \<ge> ALPHABET_SIZE then None
      else case ch index of None \<Rightarrow> None | Some t \<Rightarrow> trie_search t cs)"

text \<open>The result says whether the caller may free the node; the node is the one after the call.\<close>

fun trie_delete_helper :: "'m trie \<Rightarrow> string \<Rightarrow> bool \<times> 'm trie" where
  "trie_delete_helper (Trie_node e f ch) [] =
     (no_children ch, if e then Trie_node False None ch else Trie_node e f ch)"
| "trie_delete_helper (Trie_node e f ch) (c # cs) =
     (let index = byte_index c in
      if index \<ge> ALPHABET_SIZE then (False, Trie_node e f ch)
      else case ch index of
          None \<Rightarrow> (False, Trie_node e f ch)
        | Some child \<Rightarrow>
            let (should_delete, child') = trie_delete_helper child cs in
            if should_delete then
              (let ch' = ch(index := None) in
               (if \<not> e then no_children ch' else False, Trie_node e f ch'))
            else (False, Trie_node e f (ch(index := Some child'))))"

definition trie_delete :: "string \<Rightarrow> 'm trie \<Rightarrow> 'm trie" where
  "trie_delete filename t = snd (trie_delete_helper t filename)"

fun trie_update :: "string \<Rightarrow> 'm \<Rightarrow> 'm trie \<Rightarrow> int \<times> 'm trie" where
  "trie_update [] meta (Trie_node e f ch) =
     (if e \<and> f \<noteq> None then (0, Trie_node e (Some meta) ch) else (-1, Trie_node e f ch))"
| "trie_update (c # cs) meta (Trie_node e f ch) =
     (let index = byte_index c in
      if index \<ge> ALPHABET_SIZE then (-1, Trie_node e f ch)
      else case ch index of
          None \<Rightarrow> (-1, Trie_node e f ch)
        | Some t \<Rightarrow>
            let (ret, t') = trie_update cs meta t in (ret, Trie_node e f (ch(index := Some t'))))"

text \<open>
  The files array filled so far is the accumulator; its length is \<open>*count\<close>.
\<close>

definition collect_child :: "(nat \<Rightarrow> 'm list \<Rightarrow> 'm list) option \<Rightarrow> nat \<Rightarrow> 'm list \<Rightarrow> 'm list" where
  "collect_child child max_files files = (case child of None \<Rightarrow> files | Some g \<Rightarrow> g max_files files)"

primrec trie_collect_files :: "'m trie \<Rightarrow> nat \<Rightarrow> 'm list \<Rightarrow> 'm list" where
  "trie_collect_files (Trie_node e f ch) =
     (let subs = map_option trie_collect_files \<circ> ch in
      (\<lambda>max_files files.
        if length files \<ge> max_files then files
        else
          fold (\<lambda>i. collect_child (subs i) max_files) alphabet
            (if e then (case f of None \<Rightarrow> files | Some m \<Rightarrow> files @ [m]) else files)))"

definition trie_get_all_files :: "'m trie \<Rightarrow> nat \<Rightarrow> 'm list" where
  "trie_get_all_files t max_files = trie_collect_files t max_files []"

text \<open>The folder trie: the same loops over the same nodes, holding folder structures.\<close>

type_synonym file_trie = "file_metadata trie"
type_synonym folder_trie = "folder_metadata trie"

definition init_folder_trie :: folder_trie where
  "init_folder_trie = create_trie_node"

definition folder_trie_insert :: "string \<Rightarrow> folder_metadata \<Rightarrow> folder_trie \<Rightarrow> int \<times> folder_trie" where
  "folder_trie_insert path meta t = trie_insert path meta t"

definition folder_trie_search :: "folder_trie \<Rightarrow> string \<Rightarrow> folder_metadata option" where
  "folder_trie_search t path = trie_search t path"

definition folder_trie_delete :: "string \<Rightarrow> folder_trie \<Rightarrow> folder_trie" where
  "folder_trie_delete path t = snd (trie_delete_helper t path)"

section \<open>The contract of an index\<close>

text \<open>
  Names over the alphabet are the keys; an insertion under any other name fails and stores
  nothing.
\<close>

definition ascii :: "string \<Rightarrow> bool" where
  "ascii name \<longleftrightarrow> list_all (\<lambda>c. byte_index c < ALPHABET_SIZE) name"

lemma ascii_Nil [simp]: "ascii []"
  by (simp add: ascii_def)

lemma ascii_Cons [simp]: "ascii (c # cs) \<longleftrightarrow> byte_index c < 128 \<and> ascii cs"
  by (simp add: ascii_def)

locale name_index =
  fixes empty :: "'i"
    and put :: "string \<Rightarrow> 'm \<Rightarrow> 'i \<Rightarrow> int \<times> 'i"
    and get :: "'i \<Rightarrow> string \<Rightarrow> 'm option"
    and del :: "string \<Rightarrow> 'i \<Rightarrow> 'i"
    and valid :: "string \<Rightarrow> bool"
  assumes get_empty: "get empty k = None"
    and put_status: "fst (put k m i) = (if valid k then 0 else -1)"
    and get_put: "get (snd (put k m i)) k' = (if k' = k \<and> valid k then Some m else get i k')"
    and get_del: "get (del k i) k' = (if k' = k then None else get i k')"
begin

text \<open>A rename keeps the entry, and only moves it.\<close>

lemma get_rename:
  assumes "valid new"
  shows "get (snd (put new m (del old i))) k = (if k = new then Some m else if k = old then None else get i k)"
  using assms by (simp add: get_put get_del)

lemma get_put_del:
  assumes "get i k = None"
  shows "get (del k (snd (put k m i))) = get i"
  using assms by (auto simp: get_put get_del fun_eq_iff)

text \<open>A loop that inserts a list of entries: the last entry for a key is found.\<close>

lemma get_put_all:
  "get (fold (\<lambda>(k, m) i. snd (put k m i)) kms i) k =
     (case map_of (rev kms) k of
        Some m \<Rightarrow> if valid k then Some m else get i k
      | None \<Rightarrow> get i k)"
proof (induction kms arbitrary: i)
  case (Cons km kms)
  obtain k' m where km: "km = (k', m)" by (cases km)
  show ?case
    using Cons [of "snd (put k' m i)"]
    by (auto simp: km get_put map_add_def split: option.splits)
qed simp

text \<open>Names that are not valid are never found in an index built by the operations.\<close>

lemma get_put_invalid: "(\<And>k. \<not> valid k \<Longrightarrow> get i k = None) \<Longrightarrow> \<not> valid k \<Longrightarrow> get (snd (put k' m i)) k = None"
  by (auto simp: get_put)

end

lemma no_children_iff: "no_children ch \<longleftrightarrow> (\<forall>i < 128. ch i = None)"
  by (auto simp: no_children_def list_all_iff)

lemma search_create [simp]: "trie_search create_trie_node k = None"
  by (cases k) (simp_all add: create_trie_node_def)

lemma search_not_ascii: "\<not> ascii k \<Longrightarrow> trie_search t k = None"
  by (induction t k rule: trie_search.induct) (auto simp: Let_def split: option.splits)

lemma byte_index_inj [simp]: "byte_index c = byte_index d \<longleftrightarrow> c = d"
  by (simp add: byte_index_def)

lemma search_insert:
  "trie_search (snd (trie_insert k m t)) k' = (if k' = k \<and> ascii k then Some m else trie_search t k')"
proof (induction k m t arbitrary: k' rule: trie_insert.induct)
  case (1 m e f ch)
  then show ?case by (cases k') simp_all
next
  case (2 c cs m e f ch)
  show ?case
  proof (cases k')
    case (Cons d ds)
    then show ?thesis
      using "2.IH" [of "byte_index c", OF refl _ refl, of ds]
      by (auto simp: Let_def case_prod_beta split: option.splits)
  qed (auto simp: Let_def case_prod_beta)
qed

lemma insert_status: "fst (trie_insert k m t) = (if ascii k then 0 else -1)"
  by (induction k m t rule: trie_insert.induct) (auto simp: Let_def case_prod_beta)

lemma delete_helper_empty:
  "trie_delete_helper t k = (True, t') \<Longrightarrow> \<not> is_end_of_word t' \<and> no_children (children t')"
  by (induction t k arbitrary: t' rule: trie_delete_helper.induct)
    (auto simp: Let_def split: if_splits option.splits prod.splits)

lemma search_dead: "\<not> is_end_of_word t \<Longrightarrow> no_children (children t) \<Longrightarrow> trie_search t k = None"
  by (cases t; cases k) (auto simp: no_children_iff Let_def)

lemma search_delete:
  "trie_search (snd (trie_delete_helper t k)) k' = (if k' = k then None else trie_search t k')"
proof (induction t k arbitrary: k' rule: trie_delete_helper.induct)
  case (1 e f ch)
  then show ?case by (cases k') auto
next
  case (2 e f ch c cs)
  show ?case
  proof (cases "byte_index c \<ge> 128 \<or> ch (byte_index c) = None")
    case True
    then show ?thesis by (cases k') (auto simp: Let_def split: option.splits)
  next
    case False
    then obtain child where child: "ch (byte_index c) = Some child" and lt: "\<not> 128 \<le> byte_index c" by auto
    obtain sd child' where h: "trie_delete_helper child cs = (sd, child')" by fastforce
    have IH: "trie_search child' ds = (if ds = cs then None else trie_search child ds)" for ds
      using "2.IH" [OF refl _ child, of ds] lt h by simp
    have dead: "trie_search child ds = None" if "sd" "ds \<noteq> cs" for ds
      using that delete_helper_empty [of child cs child'] h search_dead [of child' ds] IH [of ds] by simp
    show ?thesis
    proof (cases k')
      case (Cons d ds)
      then show ?thesis using child h lt IH [of ds] dead [of ds] by (auto simp: Let_def)
    qed (use child h lt in \<open>auto simp: Let_def\<close>)
  qed
qed

lemmas trie_laws = insert_status search_insert search_delete

interpretation file_index: name_index "init_trie :: file_trie" trie_insert trie_search trie_delete ascii
  by unfold_locales (auto simp: init_trie_def trie_delete_def trie_laws)

interpretation folder_index: name_index init_folder_trie folder_trie_insert folder_trie_search
    folder_trie_delete ascii
  by unfold_locales
    (auto simp: init_folder_trie_def folder_trie_insert_def folder_trie_search_def
      folder_trie_delete_def trie_laws)

section \<open>Updating in place\<close>

lemma update_status: "fst (trie_update k m t) = (if trie_search t k = None then -1 else 0)"
  by (induction k m t rule: trie_update.induct) (auto simp: Let_def case_prod_beta split: option.splits)

lemma update_absent: "trie_search t k = None \<Longrightarrow> snd (trie_update k m t) = t"
proof (induction k m t rule: trie_update.induct)
  case (2 c cs m e f ch)
  show ?case
  proof (cases "ch (byte_index c)")
    case (Some child)
    have "ch(byte_index c := Some child) = ch" using Some by auto
    with 2 Some show ?thesis by (auto simp: Let_def case_prod_beta)
  qed (simp add: Let_def)
qed auto

lemma update_present: "trie_search t k \<noteq> None \<Longrightarrow> trie_update k m t = trie_insert k m t"
  by (induction k m t rule: trie_update.induct)
    (auto simp: Let_def case_prod_beta split: option.splits if_splits)

section \<open>Listing\<close>

text \<open>The entries of a trie in the order the listing visits them.\<close>

lemma trie_induct [case_names node, induct type: trie]:
  assumes "\<And>e f ch. (\<And>i t. ch i = Some t \<Longrightarrow> P t) \<Longrightarrow> P (Trie_node e f ch)"
  shows "P t"
proof (induction t rule: trie.induct)
  case (Trie_node e f ch)
  have "P t" if "ch i = Some t" for i t
    by (rule Trie_node [of "ch i"]) (use that rangeI [of ch i] in simp_all)
  then show ?case by (rule assms)
qed

definition prefix_entries :: "nat \<Rightarrow> (string \<times> 'm) list option \<Rightarrow> (string \<times> 'm) list" where
  "prefix_entries i child =
     (case child of None \<Rightarrow> [] | Some es \<Rightarrow> map (\<lambda>(k, m). (char_of i # k, m)) es)"

lemma prefix_entries_Nil [simp]: "([], m) \<notin> set (prefix_entries i child)"
  by (auto simp: prefix_entries_def split: option.splits)

lemma prefix_entries_fst: "(k, m) \<in> set (prefix_entries i child) \<Longrightarrow> k \<noteq> []"
  by auto

definition own_entry :: "bool \<Rightarrow> 'm option \<Rightarrow> (string \<times> 'm) list" where
  "own_entry e f = (if e then (case f of None \<Rightarrow> [] | Some m \<Rightarrow> [([], m)]) else [])"

lemma own_entry_simps [simp]:
  "own_entry False f = []" "own_entry e None = []" "own_entry True (Some m) = [([], m)]"
  by (simp_all add: own_entry_def)

lemma set_own_entry: "(k, m) \<in> set (own_entry e f) \<longleftrightarrow> k = [] \<and> e \<and> f = Some m"
  by (cases e; cases f) auto

lemma sorted_own_entry: "sorted_wrt (<) (map fst (own_entry e f))"
  by (cases e; cases f) simp_all

primrec trie_entries :: "'m trie \<Rightarrow> (string \<times> 'm) list" where
  "trie_entries (Trie_node e f ch) =
     (let subs = map_option trie_entries \<circ> ch in
      own_entry e f @ concat (map (\<lambda>i. prefix_entries i (subs i)) alphabet))"

lemma collect_child_entries:
  assumes "\<And>t fs. x = Some t \<Longrightarrow> trie_collect_files t n fs = fs @ map snd (take (n - length fs) (trie_entries t))"
  shows "collect_child (map_option trie_collect_files x) n fs =
     fs @ map snd (take (n - length fs) (prefix_entries i (map_option trie_entries x)))"
proof (cases x)
  case (Some t)
  have "map snd (take j (map (\<lambda>(k, m). (char_of i # k, m)) es)) = map snd (take j es)" for j and es :: "(string \<times> 'a) list"
    by (simp add: take_map comp_def case_prod_beta)
  with Some assms show ?thesis by (simp add: collect_child_def prefix_entries_def)
qed (simp add: collect_child_def prefix_entries_def)

lemma collect_children:
  assumes "\<And>i t fs. ch i = Some t \<Longrightarrow> trie_collect_files t n fs = fs @ map snd (take (n - length fs) (trie_entries t))"
  shows "fold (\<lambda>i. collect_child (map_option trie_collect_files (ch i)) n) is fs =
    fs @ map snd (take (n - length fs)
      (concat (map (\<lambda>i. prefix_entries i (map_option trie_entries (ch i))) is)))"
proof (induction "is" arbitrary: fs)
  case (Cons i "is")
  let ?es = "prefix_entries i (map_option trie_entries (ch i))"
  have "collect_child (map_option trie_collect_files (ch i)) n fs = fs @ map snd (take (n - length fs) ?es)"
    using assms by (rule collect_child_entries)
  moreover have "n - (length fs + min (length ?es) (n - length fs)) = n - length fs - length ?es" by simp
  ultimately show ?case by (simp add: Cons del: diff_diff_left)
qed simp

lemma collect_entries:
  "trie_collect_files t n fs = fs @ map snd (take (n - length fs) (trie_entries t))"
proof (induction t arbitrary: fs)
  case (node e f ch)
  note c = collect_children [of ch n, OF node]
  show ?case
  proof (cases "n - length fs")
    case (Suc j)
    then have "n - Suc (length fs) = j" by simp
    with Suc show ?thesis by (auto simp: c split: option.splits)
  qed simp
qed

lemma trie_entries_node:
  "(k, m) \<in> set (trie_entries (Trie_node e f ch)) \<longleftrightarrow>
     k = [] \<and> e \<and> f = Some m \<or>
     (\<exists>i < 128. (k, m) \<in> set (prefix_entries i (map_option trie_entries (ch i))))"
proof -
  have "set (concat (map (\<lambda>i. prefix_entries i (map_option trie_entries (ch i))) alphabet)) =
      (\<Union>i \<in> {0..<128}. set (prefix_entries i (map_option trie_entries (ch i))))"
    by (simp only: set_concat set_map set_alphabet image_image)
  then show ?thesis by (auto simp: set_own_entry)
qed

lemma entries_search: "(k, m) \<in> set (trie_entries t) \<longleftrightarrow> trie_search t k = Some m"
proof (induction t arbitrary: k)
  case (node e f ch)
  have IH: "ch i = Some t \<Longrightarrow> (k, m) \<in> set (trie_entries t) \<longleftrightarrow> trie_search t k = Some m" for i t k
    using node [of i t k] by simp
  show ?case
  proof (cases k)
    case Nil
    then show ?thesis unfolding trie_entries_node by simp
  next
    case (Cons c cs)
    have "(k, m) \<in> set (prefix_entries i (map_option trie_entries (ch i))) \<longleftrightarrow>
        i = byte_index c \<and> (\<exists>t. ch i = Some t \<and> trie_search t cs = Some m)" if "i < 128" for i
    proof (cases "ch i")
      case (Some t)
      have "(c # cs, m) \<in> set (prefix_entries i (Some es)) \<longleftrightarrow> i = byte_index c \<and> (cs, m) \<in> set es" for es
        using \<open>i < 128\<close> by (force simp: prefix_entries_def byte_index_def)
      with Some Cons IH [OF Some] show ?thesis by simp
    qed (simp add: prefix_entries_def)
    then have "(k, m) \<in> set (trie_entries (Trie_node e f ch)) \<longleftrightarrow>
        byte_index c < 128 \<and> (\<exists>t. ch (byte_index c) = Some t \<and> trie_search t cs = Some m)"
      unfolding trie_entries_node Cons by auto
    then show ?thesis using Cons
      by (cases "ch (byte_index c)") (simp_all add: Let_def)
  qed
qed

lemma sorted_prefix:
  "sorted_wrt (<) (map fst es) \<Longrightarrow> sorted_wrt (<) (map fst (prefix_entries i (Some es)))"
  by (induction es) (auto simp: prefix_entries_def)

lemma sorted_children:
  assumes "\<And>i t. ch i = Some t \<Longrightarrow> sorted_wrt (<) (map fst (trie_entries t))"
    and "sorted_wrt (<) is" "\<And>i. i \<in> set is \<Longrightarrow> i < 128"
  shows "sorted_wrt (<) (map fst (concat (map (\<lambda>i. prefix_entries i (map_option trie_entries (ch i))) is)))"
  using assms(2,3)
proof (induction "is")
  case (Cons i "is")
  let ?p = "\<lambda>i. prefix_entries i (map_option trie_entries (ch i))"
  have "sorted_wrt (<) (map fst (?p i))"
    by (cases "ch i") (use assms(1) sorted_prefix in \<open>auto simp: prefix_entries_def\<close>)
  moreover have "a < b" if "(a, x) \<in> set (?p i)" "(b, y) \<in> set (?p j)" "j \<in> set is" for a b x y j
  proof -
    have "i < j" "j < 128" using that(3) Cons.prems by auto
    then have "(char_of i :: char) < char_of j" by (simp add: less_char_def)
    then show ?thesis using that(1,2) by (auto simp: prefix_entries_def split: option.splits)
  qed
  ultimately show ?case using Cons by (fastforce simp: sorted_wrt_append)
qed simp

lemma sorted_entries: "sorted_wrt (<) (map fst (trie_entries t))"
proof (induction t)
  case (node e f ch)
  let ?es = "concat (map (\<lambda>i. prefix_entries i (map_option trie_entries (ch i))) alphabet)"
  have c: "sorted_wrt (<) (map fst ?es)"
    by (rule sorted_children [OF node sorted_alphabet]) auto
  have "x \<noteq> []" if "x \<in> fst ` set ?es" for x
    using that by (auto simp del: set_alphabet dest!: prefix_entries_fst)
  then have "\<forall>x \<in> fst ` set ?es. [] < x" by (metis Nil_less_Cons list.exhaust)
  moreover have "\<forall>x \<in> set (own_entry e f). fst x = []"
    by (auto simp: set_own_entry)
  ultimately show ?case using c sorted_own_entry [of e f]
    by (simp add: sorted_wrt_append del: set_concat)
qed

section \<open>Sequences of operations and the map they implement\<close>

datatype 'm index_op = Insert string 'm | Update string 'm | Remove string

fun run_op :: "'m index_op \<Rightarrow> 'm trie \<Rightarrow> int \<times> 'm trie" where
  "run_op (Insert k m) t = trie_insert k m t"
| "run_op (Update k m) t = trie_update k m t"
| "run_op (Remove k) t = (0, trie_delete k t)"

fun map_op :: "'m index_op \<Rightarrow> (string \<rightharpoonup> 'm) \<Rightarrow> int \<times> (string \<rightharpoonup> 'm)" where
  "map_op (Insert k m) M = (if ascii k then (0, M(k \<mapsto> m)) else (-1, M))"
| "map_op (Update k m) M = (if M k \<noteq> None then (0, M(k \<mapsto> m)) else (-1, M))"
| "map_op (Remove k) M = (0, M(k := None))"

fun run_ops :: "('o \<Rightarrow> 's \<Rightarrow> int \<times> 's) \<Rightarrow> 'o list \<Rightarrow> 's \<Rightarrow> int list \<times> 's" where
  "run_ops step [] s = ([], s)"
| "run_ops step (op # ops) s =
     (let (r, s') = step op s; (rs, s'') = run_ops step ops s' in (r # rs, s''))"

lemma run_op_refines:
  "fst (run_op op t) = fst (map_op op (trie_search t)) \<and>
   trie_search (snd (run_op op t)) = snd (map_op op (trie_search t))"
proof (cases op)
  case (Update k m)
  have "ascii k" if "trie_search t k \<noteq> None" using that search_not_ascii by metis
  with Update show ?thesis
    by (auto simp: update_status update_absent update_present search_insert fun_eq_iff)
qed (auto simp: insert_status search_insert trie_delete_def search_delete fun_eq_iff)

section \<open>Properties\<close>

text \<open>
  C14. The file index behaves as a finite map on ASCII names: after any sequence of insertions,
  updates and deletions a search returns what was stored last under the name; an insertion under
  another name fails with -1 and an update of an absent name fails with -1, and neither changes
  what any search returns.
\<close>

theorem index_refines_map:
  "(let (rs, t') = run_ops run_op ops t in (rs, trie_search t')) = run_ops map_op ops (trie_search t)"
proof (induction ops arbitrary: t)
  case (Cons op ops)
  show ?case using run_op_refines [of op t] Cons [of "snd (run_op op t)"]
    by (simp add: case_prod_beta Let_def prod_eq_iff)
qed simp

text \<open>
  \<open>trie_get_all_files\<close> lists the entries of the index in the byte order of their names, each
  once, and stops at \<open>max_files\<close>.
\<close>

lemma get_all_files_sorted:
  "\<exists>es. trie_get_all_files t max_files = map snd (take max_files es)
      \<and> (\<forall>k m. (k, m) \<in> set es \<longleftrightarrow> trie_search t k = Some m)
      \<and> sorted_wrt (<) (map fst es)"
  using entries_search [of _ _ t] sorted_entries [of t]
  by (intro exI [of _ "trie_entries t"]) (simp add: trie_get_all_files_def collect_entries)

end
