(* ===== verification/LruCache.thy ===== *)
theory LruCache
  imports Common
begin

unbundle bit_operations_syntax

text \<open>
  \<open>cache.c\<close>: the cache of file metadata in front of the name server's index. Nodes live in a heap
  and form a doubly linked list between two sentinels, most recently used first; a hash table with
  linear probing points into the list. Every loop that probes the table is a
  \<open>partial_function (option)\<close>: the value \<open>None\<close> is a loop that never ends. The order of the list
  is the locale \<open>recency_list\<close>, interpreted on the pointer operations.
\<close>

section \<open>State\<close>

type_synonym addr = nat

definition NULL_ADDR :: addr where [simp]: "NULL_ADDR = 0"
definition HEAD :: addr where [simp]: "HEAD = 1"
definition TAIL :: addr where [simp]: "TAIL = 2"

record cache_node =
  cn_key :: string
  cn_value :: file_metadata
  cn_prev :: addr
  cn_next :: addr

type_synonym node_heap = "addr \<rightharpoonup> cache_node"

text \<open>
  The two sentinels are the addresses \<open>HEAD\<close> and \<open>TAIL\<close>; \<open>lc_brk\<close> is the next address the
  allocator hands out.
\<close>

record lru_cache =
  lc_heap :: node_heap
  lc_brk :: addr
  lc_table :: "addr option list"
  lc_capacity :: nat
  lc_size :: int

definition node :: "node_heap \<Rightarrow> addr \<Rightarrow> cache_node" where
  "node h a = the (h a)"

definition set_next :: "addr \<Rightarrow> addr \<Rightarrow> node_heap \<Rightarrow> node_heap" where
  "set_next a b h = h(a := map_option (cn_next_update (\<lambda>_. b)) (h a))"

definition set_prev :: "addr \<Rightarrow> addr \<Rightarrow> node_heap \<Rightarrow> node_heap" where
  "set_prev a b h = h(a := map_option (cn_prev_update (\<lambda>_. b)) (h a))"

definition set_value :: "addr \<Rightarrow> file_metadata \<Rightarrow> node_heap \<Rightarrow> node_heap" where
  "set_value a v h = h(a := map_option (cn_value_update (\<lambda>_. v)) (h a))"

section \<open>Hashing\<close>

text \<open>\<open>c = *str++\<close> reads a signed \<open>char\<close>; the hash is an \<open>unsigned int\<close> and wraps.\<close>

definition signed_char :: "char \<Rightarrow> int" where
  "signed_char c = (if (of_char c :: int) < 128 then of_char c else of_char c - 256)"

fun hash_loop :: "32 word \<Rightarrow> string \<Rightarrow> 32 word" where
  "hash_loop hash [] = hash"
| "hash_loop hash (c # cs) = hash_loop ((push_bit 5 hash + hash) + word_of_int (signed_char c)) cs"

definition hash_string :: "string \<Rightarrow> nat \<Rightarrow> nat" where
  "hash_string str capacity = unat (hash_loop 5381 str) mod capacity"

section \<open>The list\<close>

definition blank_metadata :: file_metadata where
  "blank_metadata =
     \<lparr>fm_filename = [], fm_folder_path = [], fm_owner = [], fm_ss_id = 0, fm_size = 0,
      fm_word_count = 0, fm_char_count = 0, fm_created = 0, fm_modified = 0, fm_accessed = 0,
      fm_last_accessed_by = [], fm_acl = []\<rparr>"

definition create_cache_node :: "string \<Rightarrow> file_metadata \<Rightarrow> cache_node" where
  "create_cache_node key v =
     \<lparr>cn_key = strncpy (MAX_FILENAME - 1) key, cn_value = v, cn_prev = NULL_ADDR, cn_next = NULL_ADDR\<rparr>"

text \<open>The key and value of a sentinel are never read.\<close>

definition init_cache :: "nat \<Rightarrow> lru_cache" where
  "init_cache capacity =
     \<lparr>lc_heap = [HEAD \<mapsto> \<lparr>cn_key = [], cn_value = blank_metadata, cn_prev = NULL_ADDR, cn_next = TAIL\<rparr>,
                TAIL \<mapsto> \<lparr>cn_key = [], cn_value = blank_metadata, cn_prev = HEAD, cn_next = NULL_ADDR\<rparr>],
      lc_brk = 3, lc_table = replicate capacity None, lc_capacity = capacity, lc_size = 0\<rparr>"

definition remove_node :: "addr \<Rightarrow> node_heap \<Rightarrow> node_heap" where
  "remove_node n h =
     (let h1 = set_next (cn_prev (node h n)) (cn_next (node h n)) h
      in set_prev (cn_next (node h1 n)) (cn_prev (node h1 n)) h1)"

definition add_to_head :: "addr \<Rightarrow> node_heap \<Rightarrow> node_heap" where
  "add_to_head n h =
     (let h1 = set_next n (cn_next (node h HEAD)) h;
          h2 = set_prev n HEAD h1;
          h3 = set_prev (cn_next (node h2 HEAD)) n h2
      in set_next HEAD n h3)"

definition move_to_head :: "addr \<Rightarrow> node_heap \<Rightarrow> node_heap" where
  "move_to_head n h = add_to_head n (remove_node n h)"

definition remove_tail :: "node_heap \<Rightarrow> addr \<times> node_heap" where
  "remove_tail h = (let n = cn_prev (node h TAIL) in (n, remove_node n h))"

section \<open>Operations\<close>

text \<open>
  The probing loop of \<open>cache_get\<close> and \<open>cache_remove\<close>: the slot where the key was found, or an
  empty slot ended the search.
\<close>

partial_function (option) get_probe :: "lru_cache \<Rightarrow> string \<Rightarrow> nat \<Rightarrow> nat option option" where
  "get_probe c key hash =
     (case lc_table c ! hash of
        None \<Rightarrow> Some None
      | Some n \<Rightarrow>
          if cn_key (node (lc_heap c) n) = key then Some (Some hash)
          else get_probe c key ((hash + 1) mod lc_capacity c))"

definition cache_get :: "lru_cache \<Rightarrow> string \<Rightarrow> (file_metadata option \<times> lru_cache) option" where
  "cache_get c key =
     Option.bind (get_probe c key (hash_string key (lc_capacity c))) (\<lambda>found.
       case found of
         None \<Rightarrow> Some (None, c)
       | Some slot \<Rightarrow>
           let n = the (lc_table c ! slot); h = move_to_head n (lc_heap c)
           in Some (Some (cn_value (node h n)), c\<lparr>lc_heap := h\<rparr>))"

text \<open>The first loop of \<open>cache_put\<close> also stops after a full circle; the second one does not.\<close>

partial_function (option) put_find :: "lru_cache \<Rightarrow> string \<Rightarrow> nat \<Rightarrow> nat \<Rightarrow> nat option option" where
  "put_find c key original_hash hash =
     (case lc_table c ! hash of
        None \<Rightarrow> Some None
      | Some n \<Rightarrow>
          if cn_key (node (lc_heap c) n) = key then Some (Some hash)
          else let hash' = (hash + 1) mod lc_capacity c in
            if hash' = original_hash then Some None else put_find c key original_hash hash')"

partial_function (option) find_slot :: "lru_cache \<Rightarrow> addr option \<Rightarrow> nat \<Rightarrow> nat option" where
  "find_slot c wanted hash =
     (if lc_table c ! hash \<noteq> wanted then find_slot c wanted ((hash + 1) mod lc_capacity c)
      else Some hash)"

definition free_node :: "addr \<Rightarrow> node_heap \<Rightarrow> node_heap" where
  "free_node n h = h(n := None)"

definition evict :: "lru_cache \<Rightarrow> lru_cache option" where
  "evict c =
     (let (tail, h) = remove_tail (lc_heap c); c1 = c\<lparr>lc_heap := h\<rparr>
      in Option.bind (find_slot c1 (Some tail) (hash_string (cn_key (node h tail)) (lc_capacity c)))
           (\<lambda>slot. Some (c1\<lparr>lc_table := (lc_table c)[slot := None],
                           lc_heap := free_node tail h, lc_size := lc_size c - 1\<rparr>)))"

definition cache_put :: "lru_cache \<Rightarrow> string \<Rightarrow> file_metadata \<Rightarrow> lru_cache option" where
  "cache_put c key v =
     (let hash = hash_string key (lc_capacity c) in
      Option.bind (put_find c key hash hash) (\<lambda>found.
        case found of
          Some slot \<Rightarrow>
            (let n = the (lc_table c ! slot)
             in Some (c\<lparr>lc_heap := move_to_head n (set_value n v (lc_heap c))\<rparr>))
        | None \<Rightarrow>
            (let n = lc_brk c; c1 = c\<lparr>lc_heap := (lc_heap c)(n \<mapsto> create_cache_node key v), lc_brk := Suc n\<rparr>
             in Option.bind (find_slot c1 None hash) (\<lambda>slot.
                  let c2 = c1\<lparr>lc_table := (lc_table c)[slot := Some n],
                             lc_heap := add_to_head n (lc_heap c1), lc_size := lc_size c + 1\<rparr>
                  in if lc_size c2 > int (lc_capacity c) then evict c2 else Some c2))))"

definition cache_remove :: "lru_cache \<Rightarrow> string \<Rightarrow> lru_cache option" where
  "cache_remove c key =
     Option.bind (get_probe c key (hash_string key (lc_capacity c))) (\<lambda>found.
       case found of
         None \<Rightarrow> Some c
       | Some slot \<Rightarrow>
           let n = the (lc_table c ! slot)
           in Some (c\<lparr>lc_table := (lc_table c)[slot := None],
                     lc_heap := free_node n (remove_node n (lc_heap c)), lc_size := lc_size c - 1\<rparr>))"

partial_function (option) clear_loop :: "node_heap \<Rightarrow> addr \<Rightarrow> node_heap option" where
  "clear_loop h current =
     (if current \<noteq> TAIL then clear_loop (free_node current h) (cn_next (node h current)) else Some h)"

definition cache_clear :: "lru_cache \<Rightarrow> lru_cache option" where
  "cache_clear c =
     Option.bind (clear_loop (lc_heap c) (cn_next (node (lc_heap c) HEAD))) (\<lambda>h.
       Some (c\<lparr>lc_heap := set_prev TAIL HEAD (set_next HEAD TAIL h),
               lc_table := replicate (lc_capacity c) None, lc_size := 0\<rparr>))"

section \<open>The list of nodes in order of use\<close>

locale recency_list =
  fixes repr :: "'h \<Rightarrow> addr list \<Rightarrow> bool"
    and allocated :: "'h \<Rightarrow> addr \<Rightarrow> bool"
    and unlink :: "addr \<Rightarrow> 'h \<Rightarrow> 'h"
    and push_front :: "addr \<Rightarrow> 'h \<Rightarrow> 'h"
  assumes repr_distinct: "repr h xs \<Longrightarrow> distinct xs"
    and repr_allocated: "repr h xs \<Longrightarrow> n \<in> set xs \<Longrightarrow> allocated h n"
    and repr_unlink: "repr h (as @ n # bs) \<Longrightarrow> repr (unlink n h) (as @ bs)"
    and repr_push: "repr h xs \<Longrightarrow> n \<notin> set xs \<Longrightarrow> allocated h n \<Longrightarrow> repr (push_front n h) (n # xs)"
    and allocated_unlink: "allocated (unlink n h) m \<longleftrightarrow> allocated h m"
begin

lemma unlink_remove1:
  assumes "repr h xs" and "n \<in> set xs"
  shows "repr (unlink n h) (remove1 n xs)"
proof -
  from assms(2) obtain as bs where xs: "xs = as @ n # bs" "n \<notin> set as" by (meson split_list_first)
  with repr_unlink [of h as n bs] assms(1) show ?thesis by (simp add: remove1_append)
qed

text \<open>Moving a node to the front keeps the others in their order.\<close>

lemma move_to_front:
  assumes "repr h xs" and "n \<in> set xs"
  shows "repr (push_front n (unlink n h)) (n # remove1 n xs)"
  using assms unlink_remove1 [OF assms] repr_distinct [OF assms(1)] repr_allocated [OF assms]
  by (intro repr_push) (simp_all add: allocated_unlink)

lemma move_to_front_set:
  assumes "repr h xs" and "n \<in> set xs"
  shows "set (n # remove1 n xs) = set xs \<and> length (n # remove1 n xs) = length xs"
  using assms repr_distinct [OF assms(1)] by (auto simp: length_remove1 dest: length_pos_if_in_set)

end

text \<open>The chain of pointers through a list of addresses, in both directions.\<close>

fun links :: "node_heap \<Rightarrow> addr list \<Rightarrow> bool" where
  "links h (a # b # zs) \<longleftrightarrow> cn_next (node h a) = b \<and> cn_prev (node h b) = a \<and> links h (b # zs)"
| "links h zs \<longleftrightarrow> True"

definition chain :: "node_heap \<Rightarrow> addr list \<Rightarrow> bool" where
  "chain h xs \<longleftrightarrow> distinct (HEAD # xs @ [TAIL]) \<and> set (HEAD # xs @ [TAIL]) \<subseteq> dom h
     \<and> links h (HEAD # xs @ [TAIL])"

definition ordinary :: "node_heap \<Rightarrow> addr \<Rightarrow> bool" where
  "ordinary h n \<longleftrightarrow> n \<in> dom h \<and> n \<noteq> HEAD \<and> n \<noteq> TAIL"

named_theorems heap_upd \<open>reading a heap after one field was written\<close>

lemma node_set_next [heap_upd]:
  "cn_next (node (set_next a b h) x) = (if x = a \<and> a \<in> dom h then b else cn_next (node h x))"
  "cn_prev (node (set_next a b h) x) = cn_prev (node h x)"
  "cn_key (node (set_next a b h) x) = cn_key (node h x)"
  "cn_value (node (set_next a b h) x) = cn_value (node h x)"
  "dom (set_next a b h) = dom h"
  by (cases "h a"; auto simp: node_def set_next_def)+

lemma node_set_prev [heap_upd]:
  "cn_prev (node (set_prev a b h) x) = (if x = a \<and> a \<in> dom h then b else cn_prev (node h x))"
  "cn_next (node (set_prev a b h) x) = cn_next (node h x)"
  "cn_key (node (set_prev a b h) x) = cn_key (node h x)"
  "cn_value (node (set_prev a b h) x) = cn_value (node h x)"
  "dom (set_prev a b h) = dom h"
  by (cases "h a"; auto simp: node_def set_prev_def)+

lemma node_set_value [heap_upd]:
  "cn_value (node (set_value a v h) x) = (if x = a \<and> a \<in> dom h then v else cn_value (node h x))"
  "cn_next (node (set_value a v h) x) = cn_next (node h x)"
  "cn_prev (node (set_value a v h) x) = cn_prev (node h x)"
  "cn_key (node (set_value a v h) x) = cn_key (node h x)"
  "dom (set_value a v h) = dom h"
  by (cases "h a"; auto simp: node_def set_value_def)+

lemma node_fun_upd [heap_upd]:
  "node (h(a \<mapsto> c)) x = (if x = a then c else node h x)"
  "x \<noteq> a \<Longrightarrow> node (free_node a h) x = node h x"
  "dom (free_node a h) = dom h - {a}"
  by (auto simp: node_def free_node_def)

lemma list_ops_payload [heap_upd]:
  "cn_key (node (remove_node n h) x) = cn_key (node h x)"
  "cn_value (node (remove_node n h) x) = cn_value (node h x)"
  "dom (remove_node n h) = dom h"
  "cn_key (node (add_to_head n h) x) = cn_key (node h x)"
  "cn_value (node (add_to_head n h) x) = cn_value (node h x)"
  "dom (add_to_head n h) = dom h"
  by (simp_all add: remove_node_def add_to_head_def Let_def heap_upd)

lemma links_append:
  "links h (as @ a # b # bs) \<longleftrightarrow>
     links h (as @ [a]) \<and> cn_next (node h a) = b \<and> cn_prev (node h b) = a \<and> links h (b # bs)"
proof (induction as)
  case (Cons c as)
  then show ?case by (cases as) auto
qed simp

lemma links_snoc:
  "links h (as @ [a, b]) \<longleftrightarrow> links h (as @ [a]) \<and> cn_next (node h a) = b \<and> cn_prev (node h b) = a"
  using links_append [of h as a b "[]"] by simp

lemma in_set_tlD: "x \<in> set (tl xs) \<Longrightarrow> x \<in> set xs"
  by (cases xs) auto

lemma links_frame:
  assumes "\<And>a. a \<in> set (butlast zs) \<Longrightarrow> cn_next (node h' a) = cn_next (node h a)"
    and "\<And>a. a \<in> set (tl zs) \<Longrightarrow> cn_prev (node h' a) = cn_prev (node h a)"
  shows "links h' zs = links h zs"
  using assms
proof (induction h zs rule: links.induct)
  case (1 h a b zs)
  have "links h' (b # zs) = links h (b # zs)"
    by (rule "1.IH") (use "1.prems" in \<open>auto dest: in_set_tlD\<close>)
  with "1.prems" [of a] "1.prems"(2) [of b] show ?case by simp
qed auto

lemma links_frame_Cons:
  assumes "\<And>x. x \<in> set (b # zs) \<Longrightarrow> cn_next (node h' x) = cn_next (node h x)"
    and "\<And>x. x \<in> set zs \<Longrightarrow> cn_prev (node h' x) = cn_prev (node h x)"
  shows "links h' (b # zs) = links h (b # zs)"
  using assms(1)[OF in_set_butlastD] assms(2) by (rule links_frame) simp_all

lemma remove_node_links:
  assumes "links h (as @ a # n # b # bs)" and "distinct (as @ a # n # b # bs)"
    and "{a, n, b} \<subseteq> dom h"
  shows "links (remove_node n h) (as @ a # b # bs)"
proof -
  let ?h = "remove_node n h"
  have ls: "links h (as @ [a])" "cn_next (node h a) = n" "cn_prev (node h n) = a"
      "cn_next (node h n) = b" "cn_prev (node h b) = n" "links h (b # bs)"
    using assms(1) by (auto simp: links_append [of h as a n "b # bs"])
  have nx: "cn_next (node ?h x) = (if x = a then b else cn_next (node h x))" for x
    using assms(2,3) ls by (auto simp: remove_node_def Let_def heap_upd)
  have pv: "cn_prev (node ?h x) = (if x = b then a else cn_prev (node h x))" for x
    using assms(2,3) ls by (auto simp: remove_node_def Let_def heap_upd)
  have "links ?h (as @ [a])"
    using ls(1) assms(2)
    by (subst links_frame [of _ _ h]) (auto simp: nx pv butlast_append dest: in_set_tlD)
  moreover have "links ?h (b # bs)"
    using ls(6) assms(2)
    by (subst links_frame_Cons [of _ _ _ h]) (auto simp: nx pv)
  ultimately show ?thesis by (simp add: links_append nx pv)
qed

lemma chain_unlink:
  assumes "chain h (as @ n # bs)"
  shows "chain (remove_node n h) (as @ bs)"
proof -
  obtain p a where p: "HEAD # as = p @ [a]" by (metis append_butlast_last_id list.distinct(1))
  obtain b q where q: "bs @ [TAIL] = b # q" by (metis Nil_is_append_conv list.distinct(1) neq_Nil_conv)
  have l: "HEAD # (as @ n # bs) @ [TAIL] = p @ a # n # b # q" using p q
    by (metis append.assoc append_Cons append_Nil)
  have r: "HEAD # (as @ bs) @ [TAIL] = p @ a # b # q" using p q
    by (metis append.assoc append_Cons append_Nil)
  from assms have d: "distinct (p @ a # n # b # q)" "set (p @ a # n # b # q) \<subseteq> dom h"
    "links h (p @ a # n # b # q)" by (simp_all only: chain_def l)
  then have "links (remove_node n h) (p @ a # b # q)" by (intro remove_node_links) auto
  with d show ?thesis unfolding chain_def r by (simp add: heap_upd)
qed

lemma chain_push:
  assumes "chain h xs" and "n \<notin> set xs" and "ordinary h n"
  shows "chain (add_to_head n h) (n # xs)"
proof -
  obtain b q where q: "xs @ [TAIL] = b # q" by (metis Nil_is_append_conv list.distinct(1) neq_Nil_conv)
  let ?h = "add_to_head n h"
  from assms have zs: "links h (HEAD # b # q)" "distinct (HEAD # b # q)" "set (HEAD # b # q) \<subseteq> dom h"
    by (simp_all only: chain_def q)
  have "n \<notin> set (xs @ [TAIL])" using assms by (simp add: ordinary_def)
  then have n: "n \<noteq> HEAD" "n \<noteq> b" "n \<notin> set q" "n \<in> dom h"
    using assms(3) unfolding q by (simp_all add: ordinary_def)
  obtain k where k: "HEAD = k" by simp
  have nx: "cn_next (node ?h x) = (if x = k then n else if x = n then b else cn_next (node h x))" for x
    using zs n unfolding add_to_head_def Let_def k by (simp add: heap_upd)
  have pv: "cn_prev (node ?h x) = (if x = b then n else if x = n then k else cn_prev (node h x))" for x
    using zs n unfolding add_to_head_def Let_def k by (simp add: heap_upd)
  have "links ?h (b # q)"
    using zs n unfolding k by (subst links_frame_Cons [of _ _ _ h]) (auto simp: nx pv)
  then have "links ?h (k # n # b # q)" using zs n unfolding k by (simp add: nx pv)
  with zs n show ?thesis
    unfolding chain_def append_Cons q k by (auto simp: heap_upd)
qed

interpretation dll: recency_list chain ordinary remove_node add_to_head
proof unfold_locales
  show "chain (remove_node n h) (as @ bs)" if "chain h (as @ n # bs)" for h as n bs
    using that by (rule chain_unlink)
  show "chain (add_to_head n h) (n # xs)" if "chain h xs" "n \<notin> set xs" "ordinary h n" for h xs n
    using that by (rule chain_push)
qed (auto simp: chain_def ordinary_def heap_upd)

section \<open>Probing\<close>

text \<open>
  \<open>first cap P h i\<close>: walking the table from slot \<open>h\<close>, \<open>i\<close> is the first slot with \<open>P\<close>.
\<close>

definition first :: "nat \<Rightarrow> (nat \<Rightarrow> bool) \<Rightarrow> nat \<Rightarrow> nat \<Rightarrow> bool" where
  "first cap P h i \<longleftrightarrow> (\<exists>d < cap. i = (h + d) mod cap \<and> P i \<and> (\<forall>e < d. \<not> P ((h + e) mod cap)))"

lemma walk_inj: "d < cap \<Longrightarrow> e < cap \<Longrightarrow> (h + d) mod cap = (h + e) mod cap \<Longrightarrow> d = (e :: nat)"
proof (induction d e rule: linorder_wlog)
  case (le d e)
  from le have "cap dvd (h + e) - (h + d)"
    by (intro mod_eq_dvd_iff_nat [THEN iffD1]) auto
  with le show ?case using nat_dvd_not_less [of "e - d" cap] by (cases "e = d") auto
qed metis

lemma walk_surj: "i < cap \<Longrightarrow> h < cap \<Longrightarrow> \<exists>d < cap. i = (h + d) mod (cap :: nat)"
  by (cases "h \<le> i") (intro exI [of _ "i - h"], simp, intro exI [of _ "i + cap - h"], simp)

lemma first_exists:
  assumes "i < cap" "P i" "h < cap"
  shows "\<exists>j. first cap P h j"
proof -
  obtain d where d: "d < cap" "i = (h + d) mod cap" using walk_surj [OF assms(1,3)] by blast
  let ?Q = "\<lambda>d. P ((h + d) mod cap)"
  have q: "?Q d" using d assms(2) by simp
  have "(LEAST d. ?Q d) \<le> d" using q by (rule Least_le)
  moreover have "?Q (LEAST d. ?Q d)" using q by (rule LeastI)
  moreover have "\<not> ?Q e" if "e < (LEAST d. ?Q d)" for e using that by (rule not_less_Least)
  ultimately show ?thesis using d(1) unfolding first_def
    by (intro exI [of _ "(h + (LEAST d. ?Q d)) mod cap"] exI [of _ "LEAST d. ?Q d"]) auto
qed

lemma first_bound: "first cap P h i \<Longrightarrow> i < cap \<and> P i"
  by (auto simp: first_def)

definition stops :: "lru_cache \<Rightarrow> string \<Rightarrow> nat \<Rightarrow> bool" where
  "stops c key i \<longleftrightarrow>
     (case lc_table c ! i of None \<Rightarrow> True | Some n \<Rightarrow> cn_key (node (lc_heap c) n) = key)"

definition probe_result :: "lru_cache \<Rightarrow> nat \<Rightarrow> nat option" where
  "probe_result c i = (if lc_table c ! i = None then None else Some i)"

lemma probe_step:
  "stops c key h \<Longrightarrow> get_probe c key h = Some (probe_result c h)"
  "\<not> stops c key h \<Longrightarrow> get_probe c key h = get_probe c key ((h + 1) mod lc_capacity c)"
  by (subst get_probe.simps; auto simp: stops_def probe_result_def split: option.splits)+

lemma walk:
  assumes "\<And>h. P h \<Longrightarrow> f h = r h" and "\<And>h. \<not> P h \<Longrightarrow> f h = f ((h + 1) mod cap)"
    and "first cap P h i" and "h < (cap :: nat)"
  shows "f h = r i"
proof -
  from assms(3) obtain d where d: "i = (h + d) mod cap" "P i" "\<And>e. e < d \<Longrightarrow> \<not> P ((h + e) mod cap)"
    by (auto simp: first_def)
  have "e \<le> d \<Longrightarrow> f h = f ((h + e) mod cap)" for e
  proof (induction e)
    case (Suc e)
    then show ?case using assms(2) [OF d(3) [of e]] by (simp add: mod_Suc_eq)
  qed (simp add: \<open>h < cap\<close>)
  from this [of d] show ?thesis using d(1,2) assms(1) by simp
qed

lemma get_probe_first:
  assumes "first (lc_capacity c) (stops c key) h i" and "h < lc_capacity c"
  shows "get_probe c key h = Some (probe_result c i)"
  using walk [of "stops c key" "get_probe c key" "\<lambda>i. Some (probe_result c i)"] probe_step assms by blast

lemma get_probe_diverges:
  assumes "\<forall>i < lc_capacity c. \<not> stops c key i" and "h < lc_capacity c"
  shows "get_probe c key h = None"
proof (rule ccontr)
  let ?P = "\<lambda>c key h y. (\<forall>i < lc_capacity c. \<not> stops c key i) \<longrightarrow> h < lc_capacity c \<longrightarrow> False"
  assume "get_probe c key h \<noteq> None"
  then obtain y where "get_probe c key h = Some y" by blast
  then have "?P c key h y"
  proof (rule get_probe.raw_induct [where P = ?P, rotated])
    fix f c key h y
    assume IH: "\<And>c key h y. f c key h = Some y \<Longrightarrow> ?P c key h y"
      and r: "(case lc_table c ! h of None \<Rightarrow> Some None
        | Some n \<Rightarrow> if cn_key (node (lc_heap c) n) = key then Some (Some h)
            else f c key ((h + 1) mod lc_capacity c)) = Some y"
    show "?P c key h y"
    proof (intro impI)
      assume no: "\<forall>i < lc_capacity c. \<not> stops c key i" and h: "h < lc_capacity c"
      then have "f c key ((h + 1) mod lc_capacity c) = Some y"
        using r by (auto simp: stops_def split: option.splits)
      from IH [OF this] no h show False by simp
    qed
  qed
  with assms show False by blast
qed

lemma slot_step:
  "lc_table c ! h = w \<Longrightarrow> find_slot c w h = Some h"
  "lc_table c ! h \<noteq> w \<Longrightarrow> find_slot c w h = find_slot c w ((h + 1) mod lc_capacity c)"
  by (subst find_slot.simps; simp)+

lemma find_slot_first:
  assumes "first (lc_capacity c) (\<lambda>i. lc_table c ! i = w) h i" and "h < lc_capacity c"
  shows "find_slot c w h = Some i"
  using walk [of "\<lambda>i. lc_table c ! i = w" "find_slot c w" Some] slot_step assms by blast

lemma find_slot_diverges:
  assumes "\<forall>i < lc_capacity c. lc_table c ! i \<noteq> w" and "h < lc_capacity c"
  shows "find_slot c w h = None"
proof (rule ccontr)
  let ?P = "\<lambda>c w h y. (\<forall>i < lc_capacity c. lc_table c ! i \<noteq> w) \<longrightarrow> h < lc_capacity c \<longrightarrow> False"
  assume "find_slot c w h \<noteq> None"
  then obtain y where "find_slot c w h = Some y" by blast
  then have "?P c w h y"
  proof (rule find_slot.raw_induct [where P = ?P, rotated])
    fix f c w h y
    assume IH: "\<And>c w h y. f c w h = Some y \<Longrightarrow> ?P c w h y"
      and r: "(if lc_table c ! h \<noteq> w then f c w ((h + 1) mod lc_capacity c) else Some h) = Some y"
    show "?P c w h y"
    proof (intro impI)
      assume no: "\<forall>i < lc_capacity c. lc_table c ! i \<noteq> w" and h: "h < lc_capacity c"
      then have "f c w ((h + 1) mod lc_capacity c) = Some y" using r by auto
      from IH [OF this] no h show False by simp
    qed
  qed
  with assms show False by blast
qed

lemma put_find_walk:
  assumes "\<And>e. e \<le> d \<Longrightarrow> \<not> stops c key ((h + e) mod lc_capacity c)" and "h < lc_capacity c" "Suc d < lc_capacity c"
  shows "put_find c key h h = put_find c key h ((h + Suc d) mod lc_capacity c)"
proof -
  let ?cap = "lc_capacity c"
  have step: "put_find c key h ((h + e) mod ?cap) = put_find c key h ((h + Suc e) mod ?cap)"
    if "e \<le> d" for e
  proof -
    have "(h + Suc e) mod ?cap \<noteq> h"
      using walk_inj [of "Suc e" ?cap 0 h] that assms by auto
    then show ?thesis using assms(1) [OF that]
      by (subst put_find.simps) (auto simp: stops_def Let_def mod_Suc_eq split: option.splits)
  qed
  have "e \<le> Suc d \<Longrightarrow> put_find c key h h = put_find c key h ((h + e) mod ?cap)" for e
  proof (induction e)
    case (Suc e)
    then show ?case using step [of e] by simp
  qed (simp add: assms(2))
  from this [of "Suc d"] show ?thesis by simp
qed

lemma put_find_stop: "stops c key i \<Longrightarrow> put_find c key h i = Some (probe_result c i)"
  by (subst put_find.simps) (auto simp: stops_def probe_result_def split: option.splits)

lemma put_find_first:
  assumes "first (lc_capacity c) (stops c key) h i" and "h < lc_capacity c"
  shows "put_find c key h h = Some (probe_result c i)"
proof -
  from assms(1) obtain d where d: "d < lc_capacity c" "i = (h + d) mod lc_capacity c" "stops c key i"
    "\<And>e. e < d \<Longrightarrow> \<not> stops c key ((h + e) mod lc_capacity c)" by (auto simp: first_def)
  show ?thesis
  proof (cases d)
    case 0
    with d assms(2) show ?thesis by (simp add: put_find_stop)
  next
    case (Suc j)
    with d put_find_walk [of j c key h] assms(2) show ?thesis by (simp add: put_find_stop)
  qed
qed

lemma put_find_full:
  assumes "\<forall>i < lc_capacity c. \<not> stops c key i" and "h < lc_capacity c"
  shows "put_find c key h h = Some None"
proof -
  let ?cap = "lc_capacity c" and ?l = "(h + (lc_capacity c - 1)) mod lc_capacity c"
  have "put_find c key h h = put_find c key h ?l"
  proof (cases "?cap = 1")
    case False
    with assms put_find_walk [of "?cap - 2" c key h] show ?thesis
      by (auto simp: numeral_2_eq_2 Suc_diff_Suc)
  qed (use assms in simp)
  moreover have "(?l + 1) mod ?cap = h" using assms(2) by (simp add: mod_Suc_eq)
  moreover have "\<not> stops c key ?l" using assms by (simp add: mod_less_divisor)
  ultimately show ?thesis
    by (simp only: , subst put_find.simps) (auto simp: stops_def Let_def split: option.splits)
qed

section \<open>The invariant of the cache\<close>

text \<open>
  \<open>cache_ok c xs\<close>: the list holds exactly the nodes \<open>xs\<close>, most recently used first; each is in
  one slot of the table; nothing else is allocated; \<open>size\<close> is their number.
\<close>

definition table_ok :: "lru_cache \<Rightarrow> addr list \<Rightarrow> bool" where
  "table_ok c xs \<longleftrightarrow> length (lc_table c) = lc_capacity c \<and> 0 < lc_capacity c
     \<and> (\<forall>n. n \<in> set xs \<longleftrightarrow> (\<exists>i < lc_capacity c. lc_table c ! i = Some n))
     \<and> (\<forall>i < lc_capacity c. \<forall>j < lc_capacity c. \<forall>n.
          lc_table c ! i = Some n \<longrightarrow> lc_table c ! j = Some n \<longrightarrow> i = j)"

lemma table_slot: "table_ok c xs \<Longrightarrow> n \<in> set xs \<longleftrightarrow> (\<exists>i < lc_capacity c. lc_table c ! i = Some n)"
  by (simp add: table_ok_def)

lemma table_unique:
  "table_ok c xs \<Longrightarrow> i < lc_capacity c \<Longrightarrow> j < lc_capacity c \<Longrightarrow>
     lc_table c ! i = Some n \<Longrightarrow> lc_table c ! j = Some n \<Longrightarrow> i = j"
  by (auto simp: table_ok_def)

definition cache_ok :: "lru_cache \<Rightarrow> addr list \<Rightarrow> bool" where
  "cache_ok c xs \<longleftrightarrow> chain (lc_heap c) xs \<and> dom (lc_heap c) = set (HEAD # xs @ [TAIL])
     \<and> (\<forall>a \<in> dom (lc_heap c). a < lc_brk c) \<and> table_ok c xs \<and> lc_size c = int (length xs)"

lemma hash_string_less: "0 < cap \<Longrightarrow> hash_string key cap < cap"
  by (simp add: hash_string_def)

lemma table_count:
  assumes "table_ok c xs" and "distinct xs"
  shows "length xs = card {i. i < lc_capacity c \<and> lc_table c ! i \<noteq> None}"
proof -
  let ?I = "{i. i < lc_capacity c \<and> lc_table c ! i \<noteq> None}"
  have "inj_on (\<lambda>i. the (lc_table c ! i)) ?I"
    by (rule inj_onI) (auto intro: table_unique [OF assms(1)])
  moreover have "(\<lambda>i. the (lc_table c ! i)) ` ?I = set xs"
    using table_slot [OF assms(1)] by (force simp: image_iff)
  ultimately have "card (set xs) = card ?I" by (metis card_image)
  with assms(2) show ?thesis by (simp add: distinct_card)
qed

lemma not_all_below: "{i. i < k \<and> \<not> P i} \<noteq> {..<k} \<longleftrightarrow> (\<exists>i < k. P i)" for k :: nat
  by auto

lemma table_room:
  assumes "table_ok c xs" and "distinct xs"
  shows "length xs \<le> lc_capacity c"
    and "length xs < lc_capacity c \<longleftrightarrow> (\<exists>i < lc_capacity c. lc_table c ! i = None)"
proof -
  let ?I = "{i. i < lc_capacity c \<and> lc_table c ! i \<noteq> None}"
  have sub: "?I \<subseteq> {..<lc_capacity c}" by auto
  then have "card ?I \<le> card {..<lc_capacity c}" by (intro card_mono) auto
  then show "length xs \<le> lc_capacity c" by (simp add: table_count [OF assms])
  have "card ?I < card {..<lc_capacity c} \<longleftrightarrow> ?I \<noteq> {..<lc_capacity c}"
  proof
    assume "?I \<noteq> {..<lc_capacity c}"
    with sub have "?I \<subset> {..<lc_capacity c}" by (rule psubsetI)
    then show "card ?I < card {..<lc_capacity c}" by (intro psubset_card_mono) simp
  qed (use less_irrefl in fastforce)
  also have "?I \<noteq> {..<lc_capacity c} \<longleftrightarrow> (\<exists>i < lc_capacity c. lc_table c ! i = None)"
    by (rule not_all_below)
  finally show "length xs < lc_capacity c \<longleftrightarrow> (\<exists>i < lc_capacity c. lc_table c ! i = None)"
    by (simp only: table_count [OF assms] card_lessThan)
qed

lemma table_insert:
  assumes "table_ok c xs" and "i < lc_capacity c" "lc_table c ! i = None" "n \<notin> set xs"
    and "lc_table c' = (lc_table c)[i := Some n]" "lc_capacity c' = lc_capacity c"
  shows "table_ok c' (n # xs)"
proof -
  have get: "lc_table c' ! j = (if j = i then Some n else lc_table c ! j)" if "j < lc_capacity c" for j
    using that assms by (auto simp: table_ok_def nth_list_update)
  have "m \<in> set (n # xs) \<longleftrightarrow> (\<exists>j < lc_capacity c. lc_table c' ! j = Some m)" for m
  proof (cases "m = n")
    case True
    then show ?thesis using assms(2) by (auto simp: get)
  next
    case False
    then have "lc_table c' ! j = Some m \<longleftrightarrow> lc_table c ! j = Some m" if "j < lc_capacity c" for j
      using get [OF that] assms(3) by auto
    with False table_slot [OF assms(1), of m] show ?thesis by auto
  qed
  moreover have "j = k" if "j < lc_capacity c" "k < lc_capacity c" "lc_table c' ! j = Some m" "lc_table c' ! k = Some m" for j k m
    using that table_unique [OF assms(1), of j k m] table_slot [OF assms(1), of m] assms(4)
    by (auto simp: get split: if_splits)
  ultimately show ?thesis using assms unfolding table_ok_def by simp
qed

lemma table_delete:
  assumes "table_ok c xs" and "i < lc_capacity c" "lc_table c ! i = Some n" "distinct xs"
    and "lc_table c' = (lc_table c)[i := None]" "lc_capacity c' = lc_capacity c"
  shows "table_ok c' (remove1 n xs)"
proof -
  have get: "lc_table c' ! j = (if j = i then None else lc_table c ! j)" if "j < lc_capacity c" for j
    using that assms by (auto simp: table_ok_def nth_list_update)
  have "m \<in> set (remove1 n xs) \<longleftrightarrow> (\<exists>j < lc_capacity c. lc_table c' ! j = Some m)" for m
  proof (cases "m = n")
    case True
    have "lc_table c ! j \<noteq> Some n" if "j < lc_capacity c" "j \<noteq> i" for j
      using table_unique [OF assms(1) that(1) assms(2) _ assms(3)] that(2) by blast
    with True assms(4) show ?thesis by (auto simp: get)
  next
    case False
    then have "lc_table c' ! j = Some m \<longleftrightarrow> lc_table c ! j = Some m" if "j < lc_capacity c" for j
      using get [OF that] assms(3) by auto
    with False table_slot [OF assms(1), of m] show ?thesis by auto
  qed
  moreover have "j = k" if "j < lc_capacity c" "k < lc_capacity c" "lc_table c' ! j = Some m" "lc_table c' ! k = Some m" for j k m
    using that table_unique [OF assms(1), of j k m] by (auto simp: get split: if_splits)
  ultimately show ?thesis using assms unfolding table_ok_def by simp
qed

lemma table_cong: "set ys = set xs \<Longrightarrow> lc_table c' = lc_table c \<Longrightarrow> lc_capacity c' = lc_capacity c \<Longrightarrow>
    table_ok c xs \<Longrightarrow> table_ok c' ys"
  by (simp add: table_ok_def)

lemma cache_ok_distinct: "cache_ok c xs \<Longrightarrow> distinct xs"
  by (auto simp: cache_ok_def chain_def)

lemma cache_ok_slot:
  assumes "cache_ok c xs" and "i < lc_capacity c" "lc_table c ! i = Some n"
  shows "n \<in> set xs"
  using assms by (auto simp: cache_ok_def table_ok_def)

lemma chain_cong_payload: "chain (set_value n v h) xs = chain h xs"
proof -
  have "links (set_value n v h) zs = links h zs" for zs
    by (rule links_frame) (simp_all add: heap_upd)
  then show ?thesis by (simp add: chain_def heap_upd)
qed

text \<open>Moving a node of the list to the front.\<close>

lemma ok_move:
  assumes "cache_ok c xs" and "n \<in> set xs"
  shows "cache_ok (c\<lparr>lc_heap := move_to_head n (set_value m v (lc_heap c))\<rparr>) (n # remove1 n xs)"
    and "cache_ok (c\<lparr>lc_heap := move_to_head n (lc_heap c)\<rparr>) (n # remove1 n xs)"
proof -
  have ch: "chain (lc_heap c) xs" using assms(1) by (simp add: cache_ok_def)
  note f = dll.move_to_front_set [OF ch assms(2)]
  have t: "table_ok (c\<lparr>lc_heap := h\<rparr>) (n # remove1 n xs)" for h
    by (rule table_cong [of _ xs _ c]) (use f assms(1) in \<open>simp_all add: cache_ok_def\<close>)
  show "cache_ok (c\<lparr>lc_heap := move_to_head n (lc_heap c)\<rparr>) (n # remove1 n xs)"
    using dll.move_to_front [OF ch assms(2)] f t assms(1)
    by (simp add: cache_ok_def move_to_head_def heap_upd del: length_Cons) auto
  have "chain (set_value m v (lc_heap c)) xs" using ch by (simp add: chain_cong_payload)
  from dll.move_to_front [OF this assms(2)] f t assms(1)
  show "cache_ok (c\<lparr>lc_heap := move_to_head n (set_value m v (lc_heap c))\<rparr>) (n # remove1 n xs)"
    by (simp add: cache_ok_def move_to_head_def heap_upd del: length_Cons) auto
qed

lemma get_probe_cases:
  assumes "table_ok c xs" and "get_probe c key (hash_string key (lc_capacity c)) = Some r"
  obtains i where "first (lc_capacity c) (stops c key) (hash_string key (lc_capacity c)) i" "r = probe_result c i"
proof -
  have h: "hash_string key (lc_capacity c) < lc_capacity c"
    using assms(1) by (simp add: table_ok_def hash_string_less)
  have "\<exists>i < lc_capacity c. stops c key i"
    using get_probe_diverges [of c key, OF _ h] assms(2) by fastforce
  with first_exists [of _ _ "stops c key", OF _ _ h] obtain i where
    i: "first (lc_capacity c) (stops c key) (hash_string key (lc_capacity c)) i" by blast
  with get_probe_first [OF i h] assms(2) that show ?thesis by simp
qed

lemma put_find_cases:
  assumes "table_ok c xs" and "put_find c key h h = Some r" and "h < lc_capacity c"
  obtains (new) "r = None" | (old) i n where "i < lc_capacity c" "lc_table c ! i = Some n" "r = Some i"
proof (cases "\<exists>i < lc_capacity c. stops c key i")
  case True
  with first_exists [of _ _ "stops c key", OF _ _ assms(3)] obtain i where
    i: "first (lc_capacity c) (stops c key) h i" by blast
  with put_find_first [OF i assms(3)] assms(2) that first_bound [OF i] show ?thesis
    by (auto simp: probe_result_def split: if_splits)
next
  case False
  with put_find_full [of c key h] assms that show ?thesis by simp
qed

text \<open>Every operation that returns keeps the invariant; the eviction branch is never taken.\<close>

lemma cache_get_ok:
  assumes "cache_ok c xs" and "cache_get c key = Some (v, c')"
  shows "\<exists>ys. cache_ok c' ys \<and> lc_capacity c' = lc_capacity c"
proof -
  have t: "table_ok c xs" using assms(1) by (simp add: cache_ok_def)
  obtain r where r: "get_probe c key (hash_string key (lc_capacity c)) = Some r"
    using assms(2) by (cases "get_probe c key (hash_string key (lc_capacity c))") (auto simp: cache_get_def)
  from get_probe_cases [OF t r] obtain i where i: "i < lc_capacity c" "r = probe_result c i"
    using first_bound by metis
  show ?thesis
  proof (cases "lc_table c ! i")
    case None
    with i r assms show ?thesis by (auto simp: cache_get_def probe_result_def)
  next
    case (Some n)
    with i r assms(2) have "c' = c\<lparr>lc_heap := move_to_head n (lc_heap c)\<rparr>"
      by (auto simp: cache_get_def probe_result_def Let_def)
    with ok_move(2) [OF assms(1) cache_ok_slot [OF assms(1) i(1) Some]] show ?thesis by auto
  qed
qed

lemma cache_insert_ok:
  fixes key :: string and v :: file_metadata
  assumes "cache_ok c xs" and "i < lc_capacity c" "lc_table c ! i = None"
  defines "h \<equiv> (lc_heap c)(lc_brk c \<mapsto> create_cache_node key v)"
  shows "cache_ok (c\<lparr>lc_brk := Suc (lc_brk c), lc_table := (lc_table c)[i := Some (lc_brk c)],
      lc_heap := add_to_head (lc_brk c) h, lc_size := lc_size c + 1\<rparr>) (lc_brk c # xs)"
proof -
  let ?n = "lc_brk c"
  have d: "dom (lc_heap c) = set (HEAD # xs @ [TAIL])" "\<forall>a \<in> dom (lc_heap c). a < ?n"
    and ch: "chain (lc_heap c) xs" using assms(1) by (simp_all add: cache_ok_def)
  then have n: "?n \<notin> set (HEAD # xs @ [TAIL])" by (metis less_irrefl)
  have "links h (HEAD # xs @ [TAIL]) = links (lc_heap c) (HEAD # xs @ [TAIL])"
  proof (rule links_frame)
    fix a assume "a \<in> set (butlast (HEAD # xs @ [TAIL]))"
    then have "a \<noteq> ?n" using n by (metis in_set_butlastD)
    then show "cn_next (node h a) = cn_next (node (lc_heap c) a)" by (simp add: h_def heap_upd)
  next
    fix a assume "a \<in> set (tl (HEAD # xs @ [TAIL]))"
    then have "a \<noteq> ?n" using n by (metis in_set_tlD)
    then show "cn_prev (node h a) = cn_prev (node (lc_heap c) a)" by (simp add: h_def heap_upd)
  qed
  then have "chain h xs" using ch by (auto simp: chain_def h_def)
  moreover have "ordinary h ?n" using n by (simp add: ordinary_def h_def)
  ultimately have "chain (add_to_head ?n h) (?n # xs)" using n by (intro dll.repr_push) simp_all
  moreover have "table_ok (c\<lparr>lc_brk := Suc ?n, lc_table := (lc_table c)[i := Some ?n],
      lc_heap := add_to_head ?n h, lc_size := lc_size c + 1\<rparr>) (?n # xs)"
    using assms(1-3) n by (intro table_insert [of c xs i]) (simp_all add: cache_ok_def)
  moreover have "dom (add_to_head ?n h) = insert ?n (dom (lc_heap c))" by (simp add: heap_upd h_def)
  moreover have "\<forall>a \<in> insert ?n (dom (lc_heap c)). a < Suc ?n" using d(2) by (simp add: less_Suc_eq)
  ultimately show ?thesis using assms(1) d(1)
    unfolding cache_ok_def by (simp del: HEAD_def TAIL_def) blast
qed

lemma cache_put_ok:
  assumes "cache_ok c xs" and "cache_put c key v = Some c'"
  shows "\<exists>ys. cache_ok c' ys \<and> lc_capacity c' = lc_capacity c"
proof -
  let ?h = "hash_string key (lc_capacity c)"
  have t: "table_ok c xs" using assms(1) by (simp add: cache_ok_def)
  then have h: "?h < lc_capacity c" by (simp add: table_ok_def hash_string_less)
  obtain r where r: "put_find c key ?h ?h = Some r"
    using assms(2) by (cases "put_find c key ?h ?h") (auto simp: cache_put_def Let_def)
  from t r h show ?thesis
  proof (cases rule: put_find_cases)
    case (old i n)
    with r assms(2) have "c' = c\<lparr>lc_heap := move_to_head n (set_value n v (lc_heap c))\<rparr>"
      by (simp add: cache_put_def Let_def)
    with ok_move(1) [OF assms(1) cache_ok_slot [OF assms(1) old(1,2)]] show ?thesis by auto
  next
    case new
    let ?c1 = "c\<lparr>lc_heap := (lc_heap c)(lc_brk c \<mapsto> create_cache_node key v), lc_brk := Suc (lc_brk c)\<rparr>"
    from new r assms(2) have "find_slot ?c1 None ?h \<noteq> None"
      by (cases "find_slot ?c1 None ?h") (simp_all add: cache_put_def Let_def)
    moreover have "find_slot ?c1 None ?h = None" if "\<not> (\<exists>i < lc_capacity c. lc_table c ! i = None)"
      by (rule find_slot_diverges) (use that h in simp_all)
    ultimately have room: "\<exists>i < lc_capacity c. lc_table c ! i = None" by metis
    with first_exists [of _ _ "\<lambda>i. lc_table c ! i = None", OF _ _ h] obtain i where
      i: "first (lc_capacity c) (\<lambda>i. lc_table c ! i = None) ?h i" by metis
    have f: "find_slot ?c1 None ?h = Some i"
      by (rule find_slot_first) (use i h in simp_all)
    have b: "i < lc_capacity c" "lc_table c ! i = None" using first_bound [OF i] by auto
    have "length xs < lc_capacity c"
      using table_room(2) [OF t cache_ok_distinct [OF assms(1)]] room by (rule iffD2)
    then have "\<not> lc_size c + 1 > int (lc_capacity c)" using assms(1) by (simp add: cache_ok_def)
    with new r assms(2) f have "c' = ?c1\<lparr>lc_table := (lc_table c)[i := Some (lc_brk c)],
        lc_heap := add_to_head (lc_brk c) (lc_heap ?c1), lc_size := lc_size c + 1\<rparr>"
      by (simp add: cache_put_def Let_def)
    with cache_insert_ok [OF assms(1) b, of key v] show ?thesis by auto
  qed
qed

lemma chain_free:
  assumes "chain h ys" and "n \<notin> set (HEAD # ys @ [TAIL])"
  shows "chain (free_node n h) ys"
proof -
  have "links (free_node n h) (HEAD # ys @ [TAIL]) = links h (HEAD # ys @ [TAIL])"
  proof (rule links_frame)
    fix a assume "a \<in> set (butlast (HEAD # ys @ [TAIL]))"
    then have "a \<noteq> n" using assms(2) by (metis in_set_butlastD)
    then show "cn_next (node (free_node n h) a) = cn_next (node h a)" by (simp add: heap_upd)
  next
    fix a assume "a \<in> set (tl (HEAD # ys @ [TAIL]))"
    then have "a \<noteq> n" using assms(2) by (metis in_set_tlD)
    then show "cn_prev (node (free_node n h) a) = cn_prev (node h a)" by (simp add: heap_upd)
  qed
  moreover have "set (HEAD # ys @ [TAIL]) \<subseteq> dom h - {n}"
    using assms unfolding chain_def by blast
  ultimately show ?thesis using assms(1) unfolding chain_def by (simp only: heap_upd)
qed

lemma cache_remove_ok:
  assumes "cache_ok c xs" and "cache_remove c key = Some c'"
  shows "\<exists>ys. cache_ok c' ys \<and> lc_capacity c' = lc_capacity c"
proof -
  have t: "table_ok c xs" and ch: "chain (lc_heap c) xs"
    and dm: "dom (lc_heap c) = set (HEAD # xs @ [TAIL])" using assms(1) by (simp_all add: cache_ok_def)
  obtain r where r: "get_probe c key (hash_string key (lc_capacity c)) = Some r"
    using assms(2) by (cases "get_probe c key (hash_string key (lc_capacity c))") (auto simp: cache_remove_def)
  from get_probe_cases [OF t r] obtain i where i: "i < lc_capacity c" "r = probe_result c i"
    using first_bound by metis
  show ?thesis
  proof (cases "lc_table c ! i")
    case None
    with i r assms show ?thesis by (auto simp: cache_remove_def probe_result_def)
  next
    case (Some n)
    note n = cache_ok_slot [OF assms(1) i(1) Some]
    note dist = cache_ok_distinct [OF assms(1)]
    have c': "c' = c\<lparr>lc_table := (lc_table c)[i := None],
        lc_heap := free_node n (remove_node n (lc_heap c)), lc_size := lc_size c - 1\<rparr>"
      using i r assms(2) Some by (simp add: cache_remove_def probe_result_def Let_def)
    have sentinel: "n \<noteq> HEAD" "n \<noteq> TAIL" using ch n by (auto simp: chain_def)
    then have out: "n \<notin> set (HEAD # remove1 n xs @ [TAIL])" using dist by simp
    have "chain (free_node n (remove_node n (lc_heap c))) (remove1 n xs)"
      using chain_free [OF dll.unlink_remove1 [OF ch n] out] .
    moreover have "table_ok c' (remove1 n xs)"
      using c' by (intro table_delete [OF t i(1) Some dist]) simp_all
    moreover have "dom (free_node n (remove_node n (lc_heap c))) = set (HEAD # remove1 n xs @ [TAIL])"
      using dm sentinel dist by (simp only: heap_upd) auto
    moreover have "length (remove1 n xs) = length xs - 1" "0 < length xs"
      using n by (auto simp: length_remove1 dest: length_pos_if_in_set)
    ultimately have "cache_ok c' (remove1 n xs)"
      using assms(1) unfolding c' cache_ok_def
      by (auto simp: heap_upd of_nat_diff Suc_le_eq dest: notin_set_remove1)
    then show ?thesis using c' by auto
  qed
qed

lemma clear_loop_links:
  assumes "links h (xs @ [TAIL])" and "distinct (xs @ [TAIL])"
  shows "clear_loop h (hd (xs @ [TAIL])) = Some (fold free_node xs h)"
  using assms
proof (induction xs arbitrary: h)
  case Nil
  show ?case by (subst clear_loop.simps) simp
next
  case (Cons x xs)
  have "links (free_node x h) (xs @ [TAIL]) = links h (xs @ [TAIL])"
  proof (rule links_frame)
    fix a assume "a \<in> set (butlast (xs @ [TAIL]))"
    then have "a \<noteq> x" using Cons.prems(2) by auto
    then show "cn_next (node (free_node x h) a) = cn_next (node h a)" by (simp add: heap_upd)
  next
    fix a assume "a \<in> set (tl (xs @ [TAIL]))"
    then have "a \<noteq> x" using Cons.prems(2) by (auto dest: in_set_tlD)
    then show "cn_prev (node (free_node x h) a) = cn_prev (node h a)" by (simp add: heap_upd)
  qed
  moreover have "links h (xs @ [TAIL]) \<and> cn_next (node h x) = hd (xs @ [TAIL])"
    using Cons.prems(1) by (cases xs) simp_all
  ultimately have "clear_loop (free_node x h) (hd (xs @ [TAIL])) = Some (fold free_node xs (free_node x h))"
    using Cons.prems by (intro Cons.IH) simp_all
  moreover have "x \<noteq> TAIL" using Cons.prems(2) by simp
  ultimately show ?case using \<open>links h (xs @ [TAIL]) \<and> cn_next (node h x) = hd (xs @ [TAIL])\<close>
    by (subst clear_loop.simps) simp
qed

lemma free_all: "fold free_node xs h a = (if a \<in> set xs then None else h a)"
  by (induction xs arbitrary: h) (auto simp: free_node_def)

lemma cache_clear_ok:
  assumes "cache_ok c xs"
  shows "\<exists>c'. cache_clear c = Some c' \<and> cache_ok c' [] \<and> lc_capacity c' = lc_capacity c"
proof -
  have ch: "chain (lc_heap c) xs" using assms by (simp add: cache_ok_def)
  then have "links (lc_heap c) (xs @ [TAIL])" "cn_next (node (lc_heap c) HEAD) = hd (xs @ [TAIL])"
    unfolding chain_def by (cases xs; simp)+
  with clear_loop_links [of "lc_heap c" xs] ch
  have loop: "clear_loop (lc_heap c) (cn_next (node (lc_heap c) HEAD)) = Some (fold free_node xs (lc_heap c))"
    by (auto simp: chain_def)
  let ?h = "fold free_node xs (lc_heap c)"
  have d: "dom ?h = {HEAD, TAIL}"
    using assms ch unfolding cache_ok_def chain_def by (auto simp: free_all dom_def split: if_splits)
  let ?c = "c\<lparr>lc_heap := set_prev TAIL HEAD (set_next HEAD TAIL ?h),
              lc_table := replicate (lc_capacity c) None, lc_size := 0\<rparr>"
  have "cache_clear c = Some ?c" unfolding cache_clear_def loop by simp
  moreover have "cache_ok ?c []"
    using assms d by (auto simp: cache_ok_def chain_def table_ok_def heap_upd)
  ultimately show ?thesis by auto
qed

lemma init_cache_ok: "0 < cap \<Longrightarrow> cache_ok (init_cache cap) []"
  by (auto simp: cache_ok_def chain_def table_ok_def init_cache_def node_def)

section \<open>The cache as a list of entries in order of use\<close>

text \<open>
  While nothing was removed from the table, every node is reached by probing from the hash of its
  key, and no key has two nodes. Then the cache is the list of its entries, and what the
  operations do to that list is \<open>lru_touch\<close> and \<open>lru_store\<close>.
\<close>

definition reachable_slots :: "lru_cache \<Rightarrow> bool" where
  "reachable_slots c \<longleftrightarrow>
     (\<forall>i < lc_capacity c. \<forall>n. lc_table c ! i = Some n \<longrightarrow>
        (\<exists>d < lc_capacity c. i = (hash_string (cn_key (node (lc_heap c) n)) (lc_capacity c) + d) mod lc_capacity c
           \<and> (\<forall>e < d. lc_table c ! ((hash_string (cn_key (node (lc_heap c) n)) (lc_capacity c) + e) mod lc_capacity c) \<noteq> None)))"

definition view :: "node_heap \<Rightarrow> addr list \<Rightarrow> (string \<times> file_metadata) list" where
  "view h xs = map (\<lambda>n. (cn_key (node h n), cn_value (node h n))) xs"

definition cache_rel :: "lru_cache \<Rightarrow> (string \<times> file_metadata) list \<Rightarrow> bool" where
  "cache_rel c es \<longleftrightarrow>
     (\<exists>xs. cache_ok c xs \<and> reachable_slots c \<and> es = view (lc_heap c) xs \<and> distinct (map fst es))"

definition drop_key :: "string \<Rightarrow> (string \<times> 'v) list \<Rightarrow> (string \<times> 'v) list" where
  "drop_key k es = filter (\<lambda>e. fst e \<noteq> k) es"

definition lru_touch :: "string \<Rightarrow> (string \<times> 'v) list \<Rightarrow> (string \<times> 'v) list" where
  "lru_touch k es = (case map_of es k of None \<Rightarrow> es | Some v \<Rightarrow> (k, v) # drop_key k es)"

definition lru_store :: "string \<Rightarrow> 'v \<Rightarrow> (string \<times> 'v) list \<Rightarrow> (string \<times> 'v) list" where
  "lru_store k v es = (k, v) # drop_key k es"

lemma view_simps [simp]: "view h [] = []"
  "view h (n # xs) = (cn_key (node h n), cn_value (node h n)) # view h xs"
  by (simp_all add: view_def)

lemma keys_view: "map fst (view h xs) = map (\<lambda>n. cn_key (node h n)) xs"
  by (simp add: view_def comp_def)

lemma drop_key_absent: "k \<notin> fst ` set es \<Longrightarrow> drop_key k es = es"
  by (auto simp: drop_key_def filter_id_conv)

lemma distinct_drop_key: "distinct (map fst es) \<Longrightarrow> distinct (map fst (drop_key k es)) \<and> k \<notin> fst ` set (drop_key k es)"
  by (auto simp: drop_key_def distinct_map_filter)

lemma view_remove1:
  assumes "distinct (map fst (view h xs))" and "n \<in> set xs"
  shows "view h (remove1 n xs) = drop_key (cn_key (node h n)) (view h xs)"
  using assms
proof (induction xs)
  case (Cons m xs)
  show ?case
  proof (cases "m = n")
    case True
    with Cons.prems have "cn_key (node h n) \<notin> fst ` set (view h xs)" by simp
    with True show ?thesis by (simp add: drop_key_absent) (simp add: drop_key_def drop_key_absent [unfolded drop_key_def])
  next
    case False
    with Cons.prems have "n \<in> set xs" "cn_key (node h m) \<noteq> cn_key (node h n)"
      by (auto simp: view_def)
    with False Cons show ?thesis by (simp add: drop_key_def)
  qed
qed simp

lemma view_cong: "(\<And>n. n \<in> set xs \<Longrightarrow> cn_key (node h' n) = cn_key (node h n) \<and> cn_value (node h' n) = cn_value (node h n)) \<Longrightarrow>
    view h' xs = view h xs"
  by (simp add: view_def)

lemma reachable_cong:
  assumes "reachable_slots c" and "lc_table c' = lc_table c" "lc_capacity c' = lc_capacity c"
    and "\<And>n. cn_key (node (lc_heap c') n) = cn_key (node (lc_heap c) n)"
  shows "reachable_slots c'"
  using assms by (simp add: reachable_slots_def)

lemma present_first:
  assumes "cache_ok c xs" "reachable_slots c" "distinct (map fst (view (lc_heap c) xs))" "n \<in> set xs"
  obtains i where "first (lc_capacity c) (stops c (cn_key (node (lc_heap c) n)))
      (hash_string (cn_key (node (lc_heap c) n)) (lc_capacity c)) i" "i < lc_capacity c" "lc_table c ! i = Some n"
proof -
  let ?k = "cn_key (node (lc_heap c) n)" and ?cap = "lc_capacity c"
  let ?h = "hash_string ?k ?cap"
  have t: "table_ok c xs" using assms(1) by (simp add: cache_ok_def)
  obtain i where i: "i < ?cap" "lc_table c ! i = Some n" using table_slot [OF t] assms(4) by blast
  with assms(2) obtain d where d: "d < ?cap" "i = (?h + d) mod ?cap"
      "\<And>e. e < d \<Longrightarrow> lc_table c ! ((?h + e) mod ?cap) \<noteq> None"
    unfolding reachable_slots_def by meson
  have "\<not> stops c ?k ((?h + e) mod ?cap)" if "e < d" for e
  proof -
    let ?j = "(?h + e) mod ?cap"
    obtain m where m: "lc_table c ! ?j = Some m" using d(3) [OF \<open>e < d\<close>] by blast
    have j: "?j < ?cap" using i(1) by simp
    have "?j \<noteq> i" using walk_inj [of e ?cap d ?h] that d(1,2) by auto
    then have "m \<noteq> n" using table_unique [OF t j i(1)] m i(2) by blast
    moreover have "m \<in> set xs" using cache_ok_slot [OF assms(1) j m] .
    ultimately have "cn_key (node (lc_heap c) m) \<noteq> ?k"
      using assms(3,4) unfolding keys_view by (auto simp: distinct_map dest: inj_onD)
    with m show ?thesis by (simp add: stops_def)
  qed
  moreover have "stops c ?k i" using i(2) by (simp add: stops_def)
  ultimately have "first ?cap (stops c ?k) ?h i" unfolding first_def using d(1,2) by blast
  with i that show ?thesis by blast
qed

lemma absent_stops:
  assumes "cache_ok c xs" and "k \<notin> fst ` set (view (lc_heap c) xs)" and "i < lc_capacity c"
  shows "stops c k i \<longleftrightarrow> lc_table c ! i = None"
  using assms cache_ok_slot [OF assms(1,3)]
  by (auto simp: stops_def view_def image_iff split: option.splits)

lemma first_cong: "(\<And>j. j < cap \<Longrightarrow> P j = Q j) \<Longrightarrow> 0 < cap \<Longrightarrow> first cap P h i = first cap Q h i"
  by (simp add: first_def) (metis mod_less_divisor)

lemma move_payload [heap_upd]:
  "cn_key (node (move_to_head n h) x) = cn_key (node h x)"
  "cn_value (node (move_to_head n h) x) = cn_value (node h x)"
  by (simp_all add: move_to_head_def heap_upd)

lemma map_of_view:
  assumes "distinct (map fst (view h xs))" and "n \<in> set xs"
  shows "map_of (view h xs) (cn_key (node h n)) = Some (cn_value (node h n))"
  using assms by (intro map_of_is_SomeI) (auto simp: view_def)

lemma get_present:
  assumes "cache_ok c xs" "reachable_slots c" "distinct (map fst (view (lc_heap c) xs))" "n \<in> set xs"
  defines "k \<equiv> cn_key (node (lc_heap c) n)"
  shows "cache_get c k = Some (Some (cn_value (node (lc_heap c) n)), c\<lparr>lc_heap := move_to_head n (lc_heap c)\<rparr>)"
    and "cache_rel (c\<lparr>lc_heap := move_to_head n (lc_heap c)\<rparr>)
           ((k, cn_value (node (lc_heap c) n)) # drop_key k (view (lc_heap c) xs))"
proof -
  obtain i where i: "first (lc_capacity c) (stops c k) (hash_string k (lc_capacity c)) i"
      "i < lc_capacity c" "lc_table c ! i = Some n"
    using present_first [OF assms(1-4)] unfolding k_def by blast
  then have "hash_string k (lc_capacity c) < lc_capacity c" by (simp add: hash_string_less)
  from get_probe_first [OF i(1) this] i(3)
  show "cache_get c k = Some (Some (cn_value (node (lc_heap c) n)), c\<lparr>lc_heap := move_to_head n (lc_heap c)\<rparr>)"
    by (simp add: cache_get_def probe_result_def Let_def heap_upd)
  let ?c = "c\<lparr>lc_heap := move_to_head n (lc_heap c)\<rparr>"
  have v: "view (lc_heap ?c) ys = view (lc_heap c) ys" for ys by (rule view_cong) (simp add: heap_upd)
  have "cache_ok ?c (n # remove1 n xs)" by (rule ok_move(2) [OF assms(1,4)])
  moreover have "reachable_slots ?c" by (rule reachable_cong [OF assms(2)]) (simp_all add: heap_upd)
  moreover have "view (lc_heap ?c) (n # remove1 n xs) = (k, cn_value (node (lc_heap c) n)) # drop_key k (view (lc_heap c) xs)"
    unfolding v by (simp add: k_def view_remove1 [OF assms(3,4)])
  ultimately show "cache_rel ?c ((k, cn_value (node (lc_heap c) n)) # drop_key k (view (lc_heap c) xs))"
    unfolding cache_rel_def using distinct_drop_key [OF assms(3), of k]
    by (intro exI [of _ "n # remove1 n xs"]) simp
qed

lemma put_present:
  assumes "cache_ok c xs" "reachable_slots c" "distinct (map fst (view (lc_heap c) xs))" "n \<in> set xs"
  defines "k \<equiv> cn_key (node (lc_heap c) n)"
  shows "cache_put c k v = Some (c\<lparr>lc_heap := move_to_head n (set_value n v (lc_heap c))\<rparr>)"
    and "cache_rel (c\<lparr>lc_heap := move_to_head n (set_value n v (lc_heap c))\<rparr>)
           (lru_store k v (view (lc_heap c) xs))"
proof -
  obtain i where i: "first (lc_capacity c) (stops c k) (hash_string k (lc_capacity c)) i"
      "i < lc_capacity c" "lc_table c ! i = Some n"
    using present_first [OF assms(1-4)] unfolding k_def by blast
  then have "hash_string k (lc_capacity c) < lc_capacity c" by (simp add: hash_string_less)
  from put_find_first [OF i(1) this] i(3)
  show "cache_put c k v = Some (c\<lparr>lc_heap := move_to_head n (set_value n v (lc_heap c))\<rparr>)"
    by (simp add: cache_put_def probe_result_def Let_def)
  let ?h = "move_to_head n (set_value n v (lc_heap c))"
  let ?c = "c\<lparr>lc_heap := ?h\<rparr>"
  have dn: "n \<in> dom (lc_heap c)" using assms(1,4) by (auto simp: cache_ok_def)
  have "n \<notin> set (remove1 n xs)" using cache_ok_distinct [OF assms(1)] by simp
  then have v: "view ?h (remove1 n xs) = view (lc_heap c) (remove1 n xs)"
    by (intro view_cong) (auto simp: heap_upd)
  have "cache_ok ?c (n # remove1 n xs)" by (rule ok_move(1) [OF assms(1,4)])
  moreover have "reachable_slots ?c" by (rule reachable_cong [OF assms(2)]) (simp_all add: heap_upd)
  moreover have "view ?h (n # remove1 n xs) = lru_store k v (view (lc_heap c) xs)"
    using dn by (simp add: v lru_store_def heap_upd k_def view_remove1 [OF assms(3,4)])
  ultimately show "cache_rel ?c (lru_store k v (view (lc_heap c) xs))"
    unfolding cache_rel_def using distinct_drop_key [OF assms(3), of k]
    by (intro exI [of _ "n # remove1 n xs"]) (simp add: lru_store_def)
qed

lemma probe_absent:
  assumes "cache_ok c xs" and "k \<notin> fst ` set (view (lc_heap c) xs)"
  defines "h \<equiv> hash_string k (lc_capacity c)"
  shows "length xs < lc_capacity c \<Longrightarrow>
           \<exists>i. first (lc_capacity c) (\<lambda>i. lc_table c ! i = None) h i \<and> put_find c k h h = Some None
             \<and> get_probe c k h = Some None"
    and "\<not> length xs < lc_capacity c \<Longrightarrow> put_find c k h h = Some None \<and> get_probe c k h = None
             \<and> (\<forall>i < lc_capacity c. lc_table c ! i \<noteq> None)"
proof -
  have t: "table_ok c xs" using assms(1) by (simp add: cache_ok_def)
  then have hl: "h < lc_capacity c" "0 < lc_capacity c" by (simp_all add: table_ok_def hash_string_less h_def)
  have st: "stops c k j \<longleftrightarrow> lc_table c ! j = None" if "j < lc_capacity c" for j
    by (rule absent_stops [OF assms(1,2) that])
  note room = table_room(2) [OF t cache_ok_distinct [OF assms(1)]]
  show "\<exists>i. first (lc_capacity c) (\<lambda>i. lc_table c ! i = None) h i \<and> put_find c k h h = Some None
      \<and> get_probe c k h = Some None" if "length xs < lc_capacity c"
  proof -
    obtain j where "j < lc_capacity c" "lc_table c ! j = None" using room \<open>length xs < lc_capacity c\<close> by metis
    then obtain i where i: "first (lc_capacity c) (\<lambda>i. lc_table c ! i = None) h i"
      using first_exists [of j _ "\<lambda>i. lc_table c ! i = None", OF _ _ hl(1)] by metis
    then have s: "first (lc_capacity c) (stops c k) h i"
      using first_cong [of _ "stops c k" "\<lambda>i. lc_table c ! i = None", OF st hl(2)] by simp
    have "probe_result c i = None" using first_bound [OF i] by (simp add: probe_result_def)
    with i put_find_first [OF s hl(1)] get_probe_first [OF s hl(1)] show ?thesis by auto
  qed
  show "put_find c k h h = Some None \<and> get_probe c k h = None \<and> (\<forall>i < lc_capacity c. lc_table c ! i \<noteq> None)"
    if "\<not> length xs < lc_capacity c"
  proof -
    have full: "\<forall>i < lc_capacity c. lc_table c ! i \<noteq> None" using room that by metis
    then have "\<forall>i < lc_capacity c. \<not> stops c k i" using st by metis
    with put_find_full [OF this hl(1)] get_probe_diverges [OF this hl(1)] full show ?thesis by simp
  qed
qed

text \<open>A node put into the first free slot of its probe sequence is reachable, and so are the others still.\<close>

lemma reachable_insert:
  assumes "reachable_slots c" and "lc_capacity c' = lc_capacity c" and "i < lc_capacity c"
    and "\<And>j. j < lc_capacity c \<Longrightarrow> lc_table c' ! j = (if j = i then Some n else lc_table c ! j)"
    and "\<And>j m. j < lc_capacity c \<Longrightarrow> lc_table c ! j = Some m \<Longrightarrow> cn_key (node (lc_heap c') m) = cn_key (node (lc_heap c) m)"
    and "first (lc_capacity c) (\<lambda>i. lc_table c ! i = None) (hash_string (cn_key (node (lc_heap c') n)) (lc_capacity c)) i"
  shows "reachable_slots c'"
  unfolding reachable_slots_def
proof (intro allI impI)
  fix j m
  assume j: "j < lc_capacity c'" "lc_table c' ! j = Some m"
  let ?cap = "lc_capacity c'" and ?k = "cn_key (node (lc_heap c') m)"
  have still: "lc_table c' ! (e mod ?cap) \<noteq> None" if "lc_table c ! (e mod lc_capacity c) \<noteq> None" for e
  proof -
    have "e mod lc_capacity c < lc_capacity c" using assms(3) by simp
    from assms(4) [OF this] that show ?thesis by (simp add: assms(2))
  qed
  have "\<exists>d < lc_capacity c. j = (hash_string ?k (lc_capacity c) + d) mod lc_capacity c
      \<and> (\<forall>e < d. lc_table c ! ((hash_string ?k (lc_capacity c) + e) mod lc_capacity c) \<noteq> None)"
  proof (cases "j = i")
    case True
    then have "m = n" using j assms(3) assms(4) [of i] by simp
    with True assms(6) show ?thesis unfolding first_def by metis
  next
    case False
    then have old: "lc_table c ! j = Some m" using j assms(2) assms(4) [of j] by simp
    moreover have "j < lc_capacity c" using j(1) assms(2) by simp
    ultimately show ?thesis using assms(1,5) unfolding reachable_slots_def by metis
  qed
  with still show "\<exists>d < ?cap. j = (hash_string ?k ?cap + d) mod ?cap
      \<and> (\<forall>e < d. lc_table c' ! ((hash_string ?k ?cap + e) mod ?cap) \<noteq> None)"
    using assms(2) by metis
qed

lemma put_new:
  assumes "cache_ok c xs" "reachable_slots c" "distinct (map fst (view (lc_heap c) xs))"
    and "k \<notin> fst ` set (view (lc_heap c) xs)" and "length k < MAX_FILENAME"
  shows "length xs < lc_capacity c \<Longrightarrow>
           \<exists>c'. cache_put c k v = Some c' \<and> cache_rel c' (lru_store k v (view (lc_heap c) xs))"
    and "\<not> length xs < lc_capacity c \<Longrightarrow> cache_put c k v = None"
proof -
  let ?hash = "hash_string k (lc_capacity c)" and ?n = "lc_brk c"
  let ?h = "(lc_heap c)(?n \<mapsto> create_cache_node k v)"
  let ?c1 = "c\<lparr>lc_heap := ?h, lc_brk := Suc ?n\<rparr>"
  have t: "table_ok c xs" using assms(1) by (simp add: cache_ok_def)
  then have hl: "?hash < lc_capacity c" by (simp add: table_ok_def hash_string_less)
  show "cache_put c k v = None" if "\<not> length xs < lc_capacity c"
  proof -
    note p = probe_absent(2) [OF assms(1,4) that]
    have "find_slot ?c1 None ?hash = None"
      by (rule find_slot_diverges) (use p hl in simp_all)
    with p show ?thesis by (simp add: cache_put_def Let_def)
  qed
  show "\<exists>c'. cache_put c k v = Some c' \<and> cache_rel c' (lru_store k v (view (lc_heap c) xs))"
    if room: "length xs < lc_capacity c"
  proof -
    obtain i where i: "first (lc_capacity c) (\<lambda>i. lc_table c ! i = None) ?hash i"
      and p: "put_find c k ?hash ?hash = Some None"
      using probe_absent(1) [OF assms(1,4) room] by blast
    have f: "find_slot ?c1 None ?hash = Some i" by (rule find_slot_first) (use i hl in simp_all)
    have b: "i < lc_capacity c" "lc_table c ! i = None" using first_bound [OF i] by auto
    let ?c = "c\<lparr>lc_brk := Suc ?n, lc_table := (lc_table c)[i := Some ?n],
      lc_heap := add_to_head ?n ?h, lc_size := lc_size c + 1\<rparr>"
    have "\<not> lc_size c + 1 > int (lc_capacity c)" using room assms(1) by (simp add: cache_ok_def)
    then have put: "cache_put c k v = Some ?c" using p f by (simp add: cache_put_def Let_def)
    have ok: "cache_ok ?c (?n # xs)" by (rule cache_insert_ok [OF assms(1) b])
    have "\<forall>a \<in> dom (lc_heap c). a < ?n" "set xs \<subseteq> dom (lc_heap c)" using assms(1) by (auto simp: cache_ok_def)
    then have nx: "?n \<notin> set xs" by blast
    have key: "cn_key (node (lc_heap ?c) m) = (if m = ?n then k else cn_key (node (lc_heap c) m))" for m
      using assms(5) by (simp add: heap_upd create_cache_node_def strncpy_fits)
    have vx: "view (lc_heap ?c) xs = view (lc_heap c) xs"
      by (rule view_cong) (use nx in \<open>auto simp: heap_upd\<close>)
    have slot: "lc_table ?c ! j = (if j = i then Some ?n else lc_table c ! j)" if "j < lc_capacity c" for j
      using that t b by (simp add: table_ok_def nth_list_update)
    have same: "cn_key (node (lc_heap ?c) m) = cn_key (node (lc_heap c) m)"
      if "j < lc_capacity c" "lc_table c ! j = Some m" for j m
    proof -
      have "m \<noteq> ?n" using cache_ok_slot [OF assms(1) _ that(2)] that(1) nx by auto
      then show ?thesis unfolding key by simp
    qed
    have new: "first (lc_capacity c) (\<lambda>i. lc_table c ! i = None) (hash_string (cn_key (node (lc_heap ?c) ?n)) (lc_capacity c)) i"
      using i unfolding key by simp
    have "reachable_slots ?c"
      by (rule reachable_insert [OF assms(2) _ b(1) slot same new]) simp
    moreover have "view (lc_heap ?c) (?n # xs) = lru_store k v (view (lc_heap c) xs)"
      using assms(4) vx key [of ?n]
      by (simp add: lru_store_def drop_key_absent heap_upd) (simp add: create_cache_node_def)
    moreover have "distinct (map fst (lru_store k v (view (lc_heap c) xs)))"
      using distinct_drop_key [OF assms(3), of k] by (simp add: lru_store_def)
    ultimately have "cache_rel ?c (lru_store k v (view (lc_heap c) xs))"
      using ok unfolding cache_rel_def by metis
    with put show ?thesis by blast
  qed
qed

section \<open>Sequences of operations\<close>

datatype cache_op = Get string | Put string file_metadata | Rem string | Clear

fun run_cache_op :: "cache_op \<Rightarrow> lru_cache \<Rightarrow> (file_metadata option \<times> lru_cache) option" where
  "run_cache_op (Get k) c = cache_get c k"
| "run_cache_op (Put k v) c = map_option (Pair None) (cache_put c k v)"
| "run_cache_op (Rem k) c = map_option (Pair None) (cache_remove c k)"
| "run_cache_op Clear c = map_option (Pair None) (cache_clear c)"

fun run_cache :: "cache_op list \<Rightarrow> lru_cache \<Rightarrow> (file_metadata option list \<times> lru_cache) option" where
  "run_cache [] c = Some ([], c)"
| "run_cache (op # ops) c =
     Option.bind (run_cache_op op c) (\<lambda>(r, c').
       map_option (\<lambda>(rs, c''). (r # rs, c'')) (run_cache ops c'))"

lemma run_cache_op_ok:
  assumes "cache_ok c xs" and "run_cache_op op c = Some (r, c')"
  shows "\<exists>ys. cache_ok c' ys \<and> lc_capacity c' = lc_capacity c"
proof (cases op)
  case Clear
  with cache_clear_ok [OF assms(1)] assms(2) show ?thesis by auto
qed (use assms cache_get_ok cache_put_ok cache_remove_ok in \<open>auto\<close>)

lemma run_cache_ok:
  "cache_ok c xs \<Longrightarrow> run_cache ops c = Some (rs, c') \<Longrightarrow> \<exists>ys. cache_ok c' ys \<and> lc_capacity c' = lc_capacity c"
proof (induction ops arbitrary: c xs rs)
  case (Cons op ops)
  from Cons.prems(2) obtain r c1 rs1 where
    "run_cache_op op c = Some (r, c1)" "run_cache ops c1 = Some (rs1, c')"
    by (auto simp: bind_eq_Some_conv)
  with run_cache_op_ok [OF Cons.prems(1)] Cons.IH show ?case by metis
qed auto

section \<open>Evaluation\<close>

text \<open>For evaluation: simplify the first computation before what follows it.\<close>

lemma bind_weak_cong: "x = y \<Longrightarrow> Option.bind x f = Option.bind y f"
  by simp

lemma map_option_weak_cong: "x = y \<Longrightarrow> map_option f x = map_option f y"
  by simp

text \<open>Two keys with the same hash.\<close>

lemma hash_collision: "hash_string ''az'' 5 = 2" "hash_string ''bY'' 5 = 2"
  by (simp_all add: hash_string_def signed_char_def)

definition sample :: "string \<Rightarrow> file_metadata" where
  "sample owner = blank_metadata\<lparr>fm_owner := owner\<rparr>"

lemmas cache_eval =
  init_cache_def cache_put_def cache_remove_def cache_get_def put_find.simps find_slot.simps
  get_probe.simps hash_collision Let_def node_def create_cache_node_def strncpy_def
  add_to_head_def move_to_head_def remove_node_def set_next_def set_prev_def set_value_def
  free_node_def

lemmas cache_eval_cong = bind_weak_cong map_option_weak_cong let_weak_cong

lemma singleton_cache:
  assumes "0 < cap"
  shows "\<exists>c. cache_put (init_cache cap) ''az'' v = Some c \<and> cache_rel c [(''az'', v)]"
  using put_new(1) [OF init_cache_ok [OF assms], of "''az''" v] assms
  by (simp add: reachable_slots_def lru_store_def drop_key_def) (simp add: init_cache_def)

lemma init_cache_rel: "0 < cap \<Longrightarrow> cache_rel (init_cache cap) []"
  unfolding cache_rel_def
  by (rule exI [of _ "[]"]) (use init_cache_ok [of cap] in \<open>simp add: reachable_slots_def init_cache_def\<close>)

lemma get_lru:
  assumes "cache_rel c es"
  shows "(if key \<in> fst ` set es \<or> length es < lc_capacity c
          then \<exists>c'. cache_get c key = Some (map_of es key, c') \<and> cache_rel c' (lru_touch key es)
          else cache_get c key = None)"
proof -
  obtain xs where xs: "cache_ok c xs" "reachable_slots c" "es = view (lc_heap c) xs" "distinct (map fst es)"
    using assms by (auto simp: cache_rel_def)
  show ?thesis
  proof (cases "key \<in> fst ` set es")
    case True
    then obtain n where n: "n \<in> set xs" "key = cn_key (node (lc_heap c) n)"
      using xs(3) by (auto simp: view_def)
    note g = get_present [OF xs(1,2) xs(4) [unfolded xs(3)] n(1)]
    have "map_of es key = Some (cn_value (node (lc_heap c) n))"
      using map_of_view [OF xs(4) [unfolded xs(3)] n(1)] n(2) xs(3) by simp
    with g True n(2) xs(3) show ?thesis by (auto simp: lru_touch_def)
  next
    case False
    then have none: "map_of es key = None" by (simp add: map_of_eq_None_iff)
    have len: "length es = length xs" using xs(3) by (simp add: view_def)
    note p = probe_absent [OF xs(1) False [unfolded xs(3)]]
    show ?thesis
    proof (cases "length xs < lc_capacity c")
      case True
      with p(1) have "cache_get c key = Some (None, c)" by (auto simp: cache_get_def)
      with True len none assms show ?thesis by (simp add: lru_touch_def)
    next
      case full: False
      with p(2) have "cache_get c key = None" by (simp add: cache_get_def)
      with full len False show ?thesis by simp
    qed
  qed
qed

lemma put_lru:
  assumes "cache_rel c es" and "length key < MAX_FILENAME"
  shows "(if key \<in> fst ` set es \<or> length es < lc_capacity c
          then \<exists>c'. cache_put c key v = Some c' \<and> cache_rel c' (lru_store key v es)
          else cache_put c key v = None)"
proof -
  obtain xs where xs: "cache_ok c xs" "reachable_slots c" "es = view (lc_heap c) xs" "distinct (map fst es)"
    using assms(1) by (auto simp: cache_rel_def)
  show ?thesis
  proof (cases "key \<in> fst ` set es")
    case True
    then obtain n where n: "n \<in> set xs" "key = cn_key (node (lc_heap c) n)"
      using xs(3) by (auto simp: view_def)
    from put_present [OF xs(1,2) xs(4) [unfolded xs(3)] n(1)] True n(2) xs(3) show ?thesis by auto
  next
    case False
    have "length es = length xs" using xs(3) by (simp add: view_def)
    with put_new [OF xs(1,2) xs(4) [unfolded xs(3)] False [unfolded xs(3)] assms(2)] False xs(3)
    show ?thesis by auto
  qed
qed

section \<open>Properties\<close>

text \<open>
  C17. Whatever operations ran on a new cache, the list and the table hold the same nodes: the
  links form one chain between the sentinels, every node of the chain is in exactly one slot, no
  freed node is in either and no node is leaked, and there are at most \<open>capacity\<close> of them.
\<close>

theorem cache_invariant:
  assumes "0 < capacity" and "run_cache ops (init_cache capacity) = Some (rs, c)"
  shows "\<exists>xs. chain (lc_heap c) xs \<and> dom (lc_heap c) = set (HEAD # xs @ [TAIL])
           \<and> table_ok c xs \<and> lc_size c = int (length xs) \<and> length xs \<le> capacity"
proof -
  obtain xs where xs: "cache_ok c xs" "lc_capacity c = capacity"
    using run_cache_ok [OF init_cache_ok [OF assms(1)] assms(2)] by (auto simp: init_cache_def)
  then have "length xs \<le> capacity"
    using table_room(1) [of c xs] cache_ok_distinct [OF xs(1)] by (simp add: cache_ok_def)
  with xs show ?thesis by (auto simp: cache_ok_def)
qed

theorem cache_invariant_witness:
  "\<exists>c xs. run_cache [Put ''az'' (sample ''ann''), Get ''az'', Rem ''az''] (init_cache 5) =
       Some ([None, Some (sample ''ann''), None], c)
     \<and> chain (lc_heap c) xs \<and> dom (lc_heap c) = set (HEAD # xs @ [TAIL]) \<and> length xs \<le> 5"
proof -
  let ?ops = "[Put ''az'' (sample ''ann''), Get ''az'', Rem ''az'']"
  have "map_option fst (run_cache ?ops (init_cache 5)) = Some [None, Some (sample ''ann''), None]"
    by (simp add: cache_eval cong: cache_eval_cong)
  then obtain c where c: "run_cache ?ops (init_cache 5) = Some ([None, Some (sample ''ann''), None], c)"
    by auto
  from cache_invariant [OF _ c] c show ?thesis by auto
qed

text \<open>
  C15. \<open>cache_get\<close> on a cache from which nothing was removed returns the value stored for the key
  and makes the entry the most recently used one; on a miss it changes nothing and returns, unless
  the table is full: then it never returns.
\<close>

theorem cache_get_refines:
  assumes "cache_rel c es"
  shows "(if key \<in> fst ` set es \<or> length es < lc_capacity c
          then \<exists>c'. cache_get c key = Some (map_of es key, c') \<and> cache_rel c' (lru_touch key es)
          else cache_get c key = None)"
  using assms by (rule get_lru)

theorem cache_get_refines_witness:
  "\<exists>c c'. cache_put (init_cache 5) ''az'' (sample ''ann'') = Some c
     \<and> cache_get c ''az'' = Some (Some (sample ''ann''), c') \<and> cache_rel c' [(''az'', sample ''ann'')]"
proof -
  obtain c where c: "cache_put (init_cache 5) ''az'' (sample ''ann'') = Some c"
    and r: "cache_rel c [(''az'', sample ''ann'')]"
    using singleton_cache [of 5 "sample ''ann''"] by auto
  from cache_get_refines [OF r, of "''az''"] c show ?thesis
    by (auto simp: lru_touch_def drop_key_def)
qed

text \<open>
  C16. \<open>cache_put\<close> on such a cache stores the value under the key as the most recently used entry
  and keeps the others in their order, as long as the key is present or the table has a free slot.
  A new key on a full table makes it loop forever: the eviction after the loop is never reached.
\<close>

theorem cache_put_refines:
  assumes "cache_rel c es" and "length key < MAX_FILENAME"
  shows "(if key \<in> fst ` set es \<or> length es < lc_capacity c
          then \<exists>c'. cache_put c key v = Some c' \<and> cache_rel c' (lru_store key v es)
          else cache_put c key v = None)"
  using assms by (rule put_lru)

theorem cache_put_refines_witness:
  "\<exists>c. cache_put (init_cache 1) ''az'' (sample ''ann'') = Some c
     \<and> cache_rel c [(''az'', sample ''ann'')] \<and> cache_put c ''bY'' (sample ''bob'') = None"
proof -
  have len: "length ''az'' < MAX_FILENAME" "length ''bY'' < MAX_FILENAME" by simp_all
  obtain c where c: "cache_put (init_cache 1) ''az'' (sample ''ann'') = Some c"
    and r: "cache_rel c [(''az'', sample ''ann'')]"
    using cache_put_refines [OF init_cache_rel [of 1] len(1), of "sample ''ann''"]
    by (auto simp: lru_store_def drop_key_def init_cache_def)
  obtain ys where "cache_ok c ys \<and> lc_capacity c = lc_capacity (init_cache 1)"
    using cache_put_ok [OF init_cache_ok [of 1] c] by auto
  then have "lc_capacity c = 1" by (simp add: init_cache_def)
  with cache_put_refines [OF r len(2), of "sample ''bob''"] c r show ?thesis by auto
qed

text \<open>
  After a removal an entry that was probed past the freed slot is neither found nor removed,
  and turns up again when the slot is filled: with capacity 5, the metadata of the second file
  (stored first, then removed without effect) is returned long after its removal.
\<close>

definition stale_script :: "cache_op list" where
  "stale_script =
     [Put ''az'' (sample ''ann''), Put ''bY'' (sample ''bob''), Rem ''az'', Get ''bY'', Rem ''bY'',
      Put ''az'' (sample ''eve''), Get ''bY'']"

lemma stale_entry_returned:
  "map_option fst (run_cache stale_script (init_cache 5)) =
     Some [None, None, None, None, None, None, Some (sample ''bob'')]"
  by (simp add: stale_script_def cache_eval cong: cache_eval_cong)

end
