(* ===== verification/DiskOps.thy ===== *)
theory DiskOps
  imports FileOps
begin

text \<open>
  The disk, and the half of \<open>file_ops.c\<close> that works on it: undo backups and checkpoints. A path
  is the string the code builds; two strings are two paths. The contract both kinds of snapshot
  have is the locale \<open>snapshot_store\<close>, interpreted on the undo and on the checkpoint operations.
\<close>

section \<open>The disk\<close>

text \<open>
  Regular files with their bytes and times, the directories, and the paths the operating system
  refuses to open (permissions, name too long). A directory opens for reading, and reading it
  gives no bytes.
\<close>

record disk_file =
  df_bytes :: bytes
  df_mtime :: time
  df_atime :: time

record disk =
  dk_files :: "string \<rightharpoonup> disk_file"
  dk_dirs :: "string set"
  dk_blocked :: "string set"

definition content :: "disk \<Rightarrow> string \<Rightarrow> bytes option" where
  "content d path = map_option df_bytes (dk_files d path)"

text \<open>\<open>access(path, F_OK) == 0\<close>, and the success of \<open>stat\<close>.\<close>

definition path_exists :: "disk \<Rightarrow> string \<Rightarrow> bool" where
  "path_exists d path \<longleftrightarrow> dk_files d path \<noteq> None \<or> path \<in> dk_dirs d"

text \<open>\<open>fopen(path, "r")\<close> and all that can be read from it.\<close>

definition read_all :: "disk \<Rightarrow> string \<Rightarrow> bytes option" where
  "read_all d path =
     (if path \<in> dk_blocked d then None
      else case content d path of
          Some bs \<Rightarrow> Some bs
        | None \<Rightarrow> if path \<in> dk_dirs d then Some [] else None)"

definition dirname :: "string \<Rightarrow> string" where
  "dirname path = rev (drop 1 (dropWhile (\<lambda>c. c \<noteq> CHR ''/'') (rev path)))"

text \<open>Whether \<open>fopen(path, "w")\<close> succeeds.\<close>

definition can_write :: "disk \<Rightarrow> string \<Rightarrow> bool" where
  "can_write d path \<longleftrightarrow> path \<notin> dk_blocked d \<and> path \<notin> dk_dirs d
     \<and> (dirname path = [] \<or> dirname path \<in> dk_dirs d)"

definition put_file :: "time \<Rightarrow> string \<Rightarrow> bytes \<Rightarrow> disk \<Rightarrow> disk" where
  "put_file now path bs d =
     d\<lparr>dk_files := (dk_files d)(path \<mapsto>
        \<lparr>df_bytes = bs, df_mtime = now,
         df_atime = (case dk_files d path of None \<Rightarrow> now | Some f \<Rightarrow> df_atime f)\<rparr>)\<rparr>"

definition unlink_file :: "string \<Rightarrow> disk \<Rightarrow> disk" where
  "unlink_file path d = d\<lparr>dk_files := (dk_files d)(path := None)\<rparr>"

text \<open>
  The loop that copies \<open>src\<close> to \<open>dst\<close>: the source is open before the target is truncated, so
  a file copied to itself ends up empty.
\<close>

datatype copy_result = No_source | No_target | Copied disk

definition copy_file :: "time \<Rightarrow> string \<Rightarrow> string \<Rightarrow> disk \<Rightarrow> copy_result" where
  "copy_file now src dst d =
     (case read_all d src of
        None \<Rightarrow> No_source
      | Some _ \<Rightarrow>
          if \<not> can_write d dst then No_target
          else let d1 = put_file now dst [] d
            in Copied (put_file now dst (case read_all d1 src of None \<Rightarrow> [] | Some bs \<Rightarrow> bs) d1))"

section \<open>Parsing and writing a file\<close>

text \<open>\<open>parse_file\<close> on a path; \<open>None\<close> is its return value -1.\<close>

definition parse_file :: "disk \<Rightarrow> string \<Rightarrow> file_content option" where
  "parse_file d filepath = map_option parse_content (read_all d filepath)"

definition write_file_content :: "time \<Rightarrow> string \<Rightarrow> file_content \<Rightarrow> disk \<Rightarrow> int \<times> disk" where
  "write_file_content now filepath fc d =
     (if \<not> can_write d filepath then (-1, d) else (0, put_file now filepath (render fc) d))"

definition get_file_stats :: "disk \<Rightarrow> string \<Rightarrow> nat \<times> nat" where
  "get_file_stats d filepath =
     (case read_all d filepath of None \<Rightarrow> (0, 0) | Some bs \<Rightarrow> file_stats bs)"

section \<open>Undo\<close>

definition undo_path :: "string \<Rightarrow> string" where
  "undo_path filepath = snprintf MAX_PATH (filepath @ ''.undo'')"

definition create_undo_backup :: "time \<Rightarrow> string \<Rightarrow> disk \<Rightarrow> int \<times> disk" where
  "create_undo_backup now filepath d =
     (case copy_file now filepath (undo_path filepath) d of
        Copied d' \<Rightarrow> (0, d')
      | _ \<Rightarrow> (-1, d))"

definition restore_from_undo :: "time \<Rightarrow> string \<Rightarrow> disk \<Rightarrow> int \<times> disk" where
  "restore_from_undo now filepath d =
     (if \<not> path_exists d (undo_path filepath) then (-1, d)
      else case copy_file now (undo_path filepath) filepath d of
          Copied d' \<Rightarrow> (200, unlink_file (undo_path filepath) d')
        | _ \<Rightarrow> (-1, d))"

definition undo_backup_exists :: "string \<Rightarrow> disk \<Rightarrow> bool" where
  "undo_backup_exists filepath d \<longleftrightarrow> path_exists d (undo_path filepath)"

section \<open>Checkpoints\<close>

definition checkpoint_path :: "string \<Rightarrow> string \<Rightarrow> string" where
  "checkpoint_path filepath tag = snprintf MAX_PATH (filepath @ ''.checkpoint_'' @ tag)"

definition create_checkpoint :: "time \<Rightarrow> string \<Rightarrow> string \<Rightarrow> disk \<Rightarrow> int \<times> disk" where
  "create_checkpoint now filepath tag d =
     (if path_exists d (checkpoint_path filepath tag) then (ERR_FILE_EXISTS, d)
      else case copy_file now filepath (checkpoint_path filepath tag) d of
          No_source \<Rightarrow> (ERR_FILE_NOT_FOUND, d)
        | No_target \<Rightarrow> (ERR_SERVER_ERROR, d)
        | Copied d' \<Rightarrow> (SUCCESS, d'))"

text \<open>
  The directory listing is in the order \<open>readdir\<close> gives the names, a parameter. The loop appends
  each tag that fits and stops at the first that fills the buffer; \<open>pos\<close> counts the bytes that
  were to be written.
\<close>

fun list_loop :: "string \<Rightarrow> nat \<Rightarrow> string \<Rightarrow> nat \<Rightarrow> string list \<Rightarrow> string \<times> nat" where
  "list_loop prefix buffer_size buffer pos [] = (buffer, pos)"
| "list_loop prefix buffer_size buffer pos (entry # entries) =
     (if take (length prefix) entry = prefix then
        (let tag = drop (length prefix) entry @ [NL];
             buffer' = buffer @ snprintf (buffer_size - pos) tag;
             pos' = pos + length tag
         in if pos' \<ge> buffer_size - 1 then (buffer', pos')
            else list_loop prefix buffer_size buffer' pos' entries)
      else list_loop prefix buffer_size buffer pos entries)"

definition basename :: "string \<Rightarrow> string" where
  "basename path = rev (takeWhile (\<lambda>c. c \<noteq> CHR ''/'') (rev path))"

text \<open>The directory part of the path: \<open>"."\<close> without a slash, the empty string before a leading one.\<close>

definition list_checkpoints ::
    "(disk \<Rightarrow> string \<Rightarrow> string list option) \<Rightarrow> string \<Rightarrow> nat \<Rightarrow> disk \<Rightarrow> int \<times> string" where
  "list_checkpoints readdir filepath buffer_size d =
     (let dir_path = (if CHR ''/'' \<in> set filepath then dirname filepath else ''.'');
          filename = basename filepath
      in case readdir d dir_path of
          None \<Rightarrow> (ERR_SERVER_ERROR, [])
        | Some entries \<Rightarrow>
            let (buffer, pos) =
              list_loop (snprintf MAX_PATH (filename @ ''.checkpoint_'')) buffer_size [] 0 entries
            in (SUCCESS, if pos = 0 then snprintf buffer_size (''No checkpoints found.'' @ [NL]) else buffer))"

definition view_checkpoint :: "string \<Rightarrow> string \<Rightarrow> nat \<Rightarrow> disk \<Rightarrow> int \<times> string" where
  "view_checkpoint filepath tag buffer_size d =
     (case read_all d (checkpoint_path filepath tag) of
        None \<Rightarrow> (ERR_FILE_NOT_FOUND, [])
      | Some bs \<Rightarrow> (SUCCESS, cstr (take (buffer_size - 1) bs)))"

definition revert_to_checkpoint :: "time \<Rightarrow> string \<Rightarrow> string \<Rightarrow> disk \<Rightarrow> int \<times> disk" where
  "revert_to_checkpoint now filepath tag d =
     (if \<not> path_exists d (checkpoint_path filepath tag) then (ERR_FILE_NOT_FOUND, d)
      else
        let d1 = snd (create_undo_backup now filepath d) in
        case copy_file now (checkpoint_path filepath tag) filepath d1 of
          No_source \<Rightarrow> (ERR_FILE_NOT_FOUND, d1)
        | No_target \<Rightarrow> (ERR_SERVER_ERROR, d1)
        | Copied d' \<Rightarrow> (SUCCESS, d'))"

section \<open>Reading what was written\<close>

named_theorems disk \<open>contents after disk operations\<close>

lemma content_put [disk]: "content (put_file now p bs d) q = (if q = p then Some bs else content d q)"
  by (simp add: content_def put_file_def)

lemma content_unlink [disk]: "content (unlink_file p d) q = (if q = p then None else content d q)"
  by (simp add: content_def unlink_file_def)

lemma put_dirs [disk]:
  "dk_dirs (put_file now p bs d) = dk_dirs d" "dk_blocked (put_file now p bs d) = dk_blocked d"
  "dk_dirs (unlink_file p d) = dk_dirs d" "dk_blocked (unlink_file p d) = dk_blocked d"
  by (simp_all add: put_file_def unlink_file_def)

lemma exists_content: "path_exists d p \<longleftrightarrow> content d p \<noteq> None \<or> p \<in> dk_dirs d"
  by (simp add: path_exists_def content_def)

lemma copy_content:
  assumes "copy_file now src dst d = Copied d'" and "content d src = Some bs"
  shows "content d' q = (if q = dst then Some (if src = dst then [] else bs) else content d q)"
proof -
  from assms have "can_write d dst" "src \<notin> dk_blocked d"
    by (auto simp: copy_file_def read_all_def split: option.splits if_splits)
  with assms show ?thesis
    by (auto simp: copy_file_def read_all_def disk split: option.splits if_splits)
qed

lemma copy_frame:
  assumes "copy_file now src dst d = Copied d'"
  shows "q \<noteq> dst \<Longrightarrow> content d' q = content d q" "dk_dirs d' = dk_dirs d" "dk_blocked d' = dk_blocked d"
  using assms by (auto simp: copy_file_def Let_def disk split: option.splits if_splits)

section \<open>Snapshots of a file\<close>

text \<open>
  What undo and checkpoints share: \<open>save\<close> copies a file to its slot, \<open>load\<close> copies the slot back.
  \<open>ok p\<close> says that the slot of \<open>p\<close> is another path, \<open>fine st\<close> that a status is the success code.
\<close>

locale snapshot_store =
  fixes get :: "'d \<Rightarrow> string \<Rightarrow> bytes option"
    and slot :: "string \<Rightarrow> string"
    and ok :: "string \<Rightarrow> bool"
    and save :: "string \<Rightarrow> 'd \<Rightarrow> int \<times> 'd" and saved :: int
    and load :: "string \<Rightarrow> 'd \<Rightarrow> int \<times> 'd" and loaded :: int
    and touched :: "string \<Rightarrow> string set"
  assumes save_slot: "ok p \<Longrightarrow> save p d = (saved, d') \<Longrightarrow> get d p = Some bs \<Longrightarrow> get d' (slot p) = Some bs"
    and save_frame: "ok p \<Longrightarrow> save p d = (r, d') \<Longrightarrow> q \<noteq> slot p \<Longrightarrow> get d' q = get d q"
    and load_file: "ok p \<Longrightarrow> load p d = (loaded, d') \<Longrightarrow> get d (slot p) = Some bs \<Longrightarrow> get d' p = Some bs"
    and load_frame: "ok p \<Longrightarrow> load p d = (r, d') \<Longrightarrow> q \<notin> touched p \<Longrightarrow> get d' q = get d q"
begin

text \<open>Whatever happens to the file in between, as long as the slot is left alone.\<close>

lemma save_load:
  assumes "ok p" and "save p d = (saved, d1)" and "get d p = Some bs"
    and "get d2 (slot p) = get d1 (slot p)" and "load p d2 = (loaded, d3)"
  shows "get d3 p = Some bs"
  using save_slot [OF assms(1-3)] assms(4) load_file [OF assms(1,5)] by simp

lemma save_keeps_file:
  assumes "ok p" and "save p d = (r, d')" and "slot p \<noteq> p"
  shows "get d' p = get d p"
  using save_frame [OF assms(1,2), of p] assms(3) by auto

end

definition undo_fits :: "string \<Rightarrow> bool" where
  "undo_fits p \<longleftrightarrow> length p + 5 < MAX_PATH"

definition checkpoint_fits :: "string \<Rightarrow> string \<Rightarrow> bool" where
  "checkpoint_fits tag p \<longleftrightarrow> length p + 12 + length tag < MAX_PATH"

lemma undo_path_eq: "undo_fits p \<Longrightarrow> undo_path p = p @ ''.undo''"
  by (simp add: undo_path_def undo_fits_def snprintf_fits)

lemma checkpoint_path_eq: "checkpoint_fits tag p \<Longrightarrow> checkpoint_path p tag = p @ ''.checkpoint_'' @ tag"
  by (simp add: checkpoint_path_def checkpoint_fits_def snprintf_fits)

lemma fits_neq: "undo_fits p \<Longrightarrow> undo_path p \<noteq> p" "checkpoint_fits tag p \<Longrightarrow> checkpoint_path p tag \<noteq> p"
  by (simp_all add: undo_path_eq checkpoint_path_eq)

lemma checkpoint_undo_neq:
  assumes "checkpoint_fits tag p"
  shows "checkpoint_path p tag \<noteq> undo_path p"
proof
  assume a: "checkpoint_path p tag = undo_path p"
  have f: "undo_fits p" using assms by (simp add: checkpoint_fits_def undo_fits_def)
  from a have "''.checkpoint_'' @ tag = ''.undo''"
    unfolding checkpoint_path_eq [OF assms] undo_path_eq [OF f] by (rule append_eq_append_conv [THEN iffD1, OF disjI1, THEN conjunct2, OF refl])
  then show False by simp
qed

interpretation undo: snapshot_store content undo_path undo_fits "create_undo_backup now" 0
    "restore_from_undo later" 200 "\<lambda>p. {p, undo_path p}" for now later
proof unfold_locales
  fix p d d' bs r q
  assume f: "undo_fits p"
  show "content d' (undo_path p) = Some bs" if "create_undo_backup now p d = (0, d')" "content d p = Some bs"
    using that fits_neq(1) [OF f]
    by (auto simp: create_undo_backup_def copy_content split: copy_result.splits)
  show "content d' q = content d q" if "create_undo_backup now p d = (r, d')" "q \<noteq> undo_path p"
    using that by (auto simp: create_undo_backup_def copy_frame split: copy_result.splits)
  show "content d' p = Some bs" if "restore_from_undo later p d = (200, d')" "content d (undo_path p) = Some bs"
    using that fits_neq(1) [OF f]
    by (auto simp: restore_from_undo_def copy_content disk split: copy_result.splits if_splits)
  show "content d' q = content d q" if "restore_from_undo later p d = (r, d')" "q \<notin> {p, undo_path p}"
    using that by (auto simp: restore_from_undo_def copy_frame disk split: copy_result.splits if_splits)
qed

lemma undo_backup_frame: "q \<noteq> undo_path p \<Longrightarrow> content (snd (create_undo_backup now p d)) q = content d q"
  by (auto simp: create_undo_backup_def copy_frame split: copy_result.splits)

interpretation checkpoint: snapshot_store content "\<lambda>p. checkpoint_path p tag" "checkpoint_fits tag"
    "\<lambda>p. create_checkpoint now p tag" 200 "\<lambda>p. revert_to_checkpoint later p tag" 200
    "\<lambda>p. {p, undo_path p}" for tag now later
proof unfold_locales
  fix p d d' bs r q
  assume f: "checkpoint_fits tag p"
  show "content d' (checkpoint_path p tag) = Some bs"
    if "create_checkpoint now p tag d = (200, d')" "content d p = Some bs"
    using that fits_neq(2) [OF f]
    by (auto simp: create_checkpoint_def copy_content split: copy_result.splits if_splits)
  show "content d' q = content d q" if "create_checkpoint now p tag d = (r, d')" "q \<noteq> checkpoint_path p tag"
    using that by (auto simp: create_checkpoint_def copy_frame split: copy_result.splits if_splits)
  show "content d' p = Some bs"
    if r: "revert_to_checkpoint later p tag d = (200, d')" and c: "content d (checkpoint_path p tag) = Some bs"
  proof -
    let ?d1 = "snd (create_undo_backup later p d)"
    have "content ?d1 (checkpoint_path p tag) = Some bs"
      using c undo_backup_frame [OF checkpoint_undo_neq [OF f]] by simp
    with r fits_neq(2) [OF f] show ?thesis
      by (auto simp: revert_to_checkpoint_def copy_content Let_def split: copy_result.splits if_splits)
  qed
  show "content d' q = content d q" if "revert_to_checkpoint later p tag d = (r, d')" "q \<notin> {p, undo_path p}"
    using that undo_backup_frame [of q p later d]
    by (auto simp: revert_to_checkpoint_def copy_frame Let_def split: copy_result.splits if_splits)
qed

section \<open>Properties\<close>

text \<open>
  C36. An undo backup survives every later change to the file: restoring it brings back the bytes
  the file had, consumes the backup and touches no other file.
\<close>

theorem undo_roundtrip:
  assumes "undo_fits p" and "content d p = Some bs" and "create_undo_backup t p d = (0, d1)"
    and "content d2 (undo_path p) = content d1 (undo_path p)" and "restore_from_undo t' p d2 = (200, d3)"
  shows "content d3 p = Some bs \<and> content d3 (undo_path p) = None
       \<and> (\<forall>q. q = p \<or> q = undo_path p \<or> content d3 q = content d2 q)"
proof -
  have "content d3 p = Some bs"
    using undo.save_load [OF assms(1,3,2,4,5)] .
  moreover have "content d3 (undo_path p) = None"
    using assms(5) fits_neq(1) [OF assms(1)]
    by (auto simp: restore_from_undo_def disk split: copy_result.splits if_splits)
  ultimately show ?thesis using undo.load_frame [OF assms(1,5)] by auto
qed

definition small_disk :: disk where
  "small_disk =
     \<lparr>dk_files = [''s/a'' \<mapsto> \<lparr>df_bytes = ''one'', df_mtime = 1, df_atime = 1\<rparr>],
      dk_dirs = {''s''}, dk_blocked = {}\<rparr>"

lemma small_disk_simps:
  "content small_disk q = (if q = ''s/a'' then Some ''one'' else None)"
  "dk_dirs small_disk = {''s''}" "dk_blocked small_disk = {}"
  "dirname ''s/a'' = ''s''" "dirname ''s/a.undo'' = ''s''" "dirname ''s/a.checkpoint_v1'' = ''s''"
  "undo_path ''s/a'' = ''s/a.undo''" "checkpoint_path ''s/a'' ''v1'' = ''s/a.checkpoint_v1''"
  "undo_fits ''s/a''" "checkpoint_fits ''v1'' ''s/a''"
  by (simp_all add: small_disk_def content_def dirname_def undo_path_def checkpoint_path_def
      snprintf_def undo_fits_def checkpoint_fits_def)

lemmas small_disk_eval = small_disk_simps copy_file_def read_all_def can_write_def exists_content disk

theorem undo_roundtrip_witness:
  "\<exists>d1 d3. create_undo_backup 2 ''s/a'' small_disk = (0, d1)
     \<and> restore_from_undo 4 ''s/a'' (put_file 3 ''s/a'' ''two'' d1) = (200, d3)
     \<and> content d3 ''s/a'' = Some ''one'' \<and> content d3 ''s/a.undo'' = None"
proof -
  obtain d1 where d1: "create_undo_backup 2 ''s/a'' small_disk = (0, d1)"
    and c: "content d1 ''s/a.undo'' = Some ''one''" "dk_dirs d1 = {''s''}" "dk_blocked d1 = {}"
    by (simp add: create_undo_backup_def small_disk_eval Let_def)
  then obtain d3 where d3: "restore_from_undo 4 ''s/a'' (put_file 3 ''s/a'' ''two'' d1) = (200, d3)"
    by (simp add: restore_from_undo_def small_disk_eval Let_def)
  have h: "undo_fits ''s/a''" "content small_disk ''s/a'' = Some ''one''"
    "content (put_file 3 ''s/a'' ''two'' d1) (undo_path ''s/a'') = content d1 (undo_path ''s/a'')"
    by (simp_all add: small_disk_simps disk)
  from undo_roundtrip [OF h(1,2) d1 h(3) d3] d1 d3 show ?thesis by (simp add: small_disk_simps)
qed

text \<open>
  A checkpoint is kept until the disk changes it: reverting brings back the bytes the file had
  when the checkpoint was made, keeps the checkpoint, and leaves the bytes the file had before the
  revert in the undo backup; a second checkpoint with the tag is refused.
\<close>

lemma checkpoint_roundtrip:
  assumes "checkpoint_fits tag p" and "content d p = Some bs" and "create_checkpoint t p tag d = (SUCCESS, d1)"
    and "content d2 (checkpoint_path p tag) = content d1 (checkpoint_path p tag)"
    and "content d2 p = Some bs2" and "can_write d2 (undo_path p)"
    and "revert_to_checkpoint t' p tag d2 = (SUCCESS, d3)"
  shows "content d3 p = Some bs \<and> content d3 (checkpoint_path p tag) = Some bs
       \<and> content d3 (undo_path p) = Some bs2
       \<and> create_checkpoint t'' p tag d3 = (ERR_FILE_EXISTS, d3)"
proof -
  let ?c = "checkpoint_path p tag"
  have ud: "undo_fits p" using assms(1) by (simp add: checkpoint_fits_def undo_fits_def)
  note ne = fits_neq(2) [OF assms(1)] fits_neq(1) [OF ud] checkpoint_undo_neq [OF assms(1)]
  have c2: "content d2 ?c = Some bs"
    using checkpoint.save_slot [OF assms(1) _ assms(2)] assms(3,4) by simp
  have restored: "content d3 p = Some bs" and slot: "content d3 ?c = Some bs"
    using checkpoint.load_file [OF assms(1) _ c2] checkpoint.load_frame [OF assms(1), of t' d2 200 d3 ?c]
      assms(7) ne c2 by auto
  have "p \<notin> dk_blocked d2"
    using assms(7) by (auto simp: revert_to_checkpoint_def copy_file_def can_write_def Let_def
        create_undo_backup_def disk split: copy_result.splits if_splits option.splits)
  then obtain d' where d': "create_undo_backup t' p d2 = (0, d')" "content d' (undo_path p) = Some bs2"
    using assms(5,6) ne by (simp add: create_undo_backup_def copy_file_def read_all_def disk)
  have "content d3 (undo_path p) = content d' (undo_path p)"
    using assms(7) d'(1) ne
    by (auto simp: revert_to_checkpoint_def copy_frame split: copy_result.splits if_splits)
  with restored slot d' show ?thesis by (simp add: create_checkpoint_def exists_content)
qed

text \<open>
  \<open>list_checkpoints\<close> lists the tags of exactly the entries of the directory that are
  checkpoints of the file, in directory order, one per line, when they fit the buffer.
\<close>

definition tags_of :: "string \<Rightarrow> string list \<Rightarrow> string list" where
  "tags_of prefix entries = map (drop (length prefix)) (filter (\<lambda>e. take (length prefix) e = prefix) entries)"

lemma tags_simps [simp]:
  "tags_of prefix [] = []"
  "tags_of prefix (e # es) =
     (if take (length prefix) e = prefix then drop (length prefix) e # tags_of prefix es
      else tags_of prefix es)"
  by (simp_all add: tags_of_def)

lemma list_loop_all:
  "length buffer = pos \<Longrightarrow> pos + length (concat (map (\<lambda>t. t @ [NL]) (tags_of prefix entries))) < n - 1 \<Longrightarrow>
   list_loop prefix n buffer pos entries =
     (buffer @ concat (map (\<lambda>t. t @ [NL]) (tags_of prefix entries)),
      pos + length (concat (map (\<lambda>t. t @ [NL]) (tags_of prefix entries))))"
proof (induction entries arbitrary: buffer pos)
  case (Cons e es)
  show ?case
  proof (cases "take (length prefix) e = prefix")
    case True
    let ?t = "drop (length prefix) e @ [NL]"
    have len: "pos + length ?t + length (concat (map (\<lambda>t. t @ [NL]) (tags_of prefix es))) < n - 1"
      using Cons.prems(2) True by simp
    then have "snprintf (n - pos) ?t = ?t" by (intro snprintf_fits) linarith
    moreover have "\<not> pos + length ?t \<ge> n - 1" using len by linarith
    moreover have "list_loop prefix n (buffer @ ?t) (pos + length ?t) es =
        ((buffer @ ?t) @ concat (map (\<lambda>t. t @ [NL]) (tags_of prefix es)),
         pos + length ?t + length (concat (map (\<lambda>t. t @ [NL]) (tags_of prefix es))))"
      by (rule Cons.IH) (use Cons.prems(1) len in simp_all)
    ultimately show ?thesis using True by (simp add: Let_def del: length_drop)
  next
    case False
    with Cons.IH [OF Cons.prems(1)] Cons.prems(2) show ?thesis by simp
  qed
qed simp

lemma list_checkpoints_correct:
  assumes "CHR ''/'' \<in> set p" and "readdir d (dirname p) = Some entries"
    and "length (basename p) + 12 < MAX_PATH"
    and "lines = concat (map (\<lambda>t. t @ [NL]) (tags_of (basename p @ ''.checkpoint_'') entries))"
    and "length lines < n - 1"
  shows "list_checkpoints readdir p n d =
     (SUCCESS, if lines = [] then snprintf n (''No checkpoints found.'' @ [NL]) else lines)"
  using assms list_loop_all [of "[]" 0 "basename p @ ''.checkpoint_''" entries n]
  by (simp add: list_checkpoints_def snprintf_fits)

end
