(* ===== verification/SentenceLocks.thy ===== *)
theory SentenceLocks
  imports Common
begin

text \<open>
  The sentence locks of the storage server (\<open>ss.c\<close>): a table of files, each with one lock per
  sentence. Each function runs under \<open>locks_mutex\<close> or the lock's own mutex and is one step here.
  What the rest of the server relies on is the locale \<open>sentence_locking\<close>. The array of the code
  holds \<open>MAX_FILES\<close> files and is not bounds-checked; the table here is a list.
\<close>

section \<open>The lock table\<close>

record sentence_lock =
  sl_locked :: bool
  sl_by :: string
  sl_time :: time

record file_locks =
  fl_filename :: string
  fl_locks :: "sentence_lock list"

type_synonym lock_table = "file_locks list"

text \<open>
  A new lock is not locked. Its other members are not initialised when an existing array grows;
  they are written before they are read.
\<close>

definition fresh_lock :: sentence_lock where
  "fresh_lock = \<lparr>sl_locked = False, sl_by = [], sl_time = 0\<rparr>"

definition file_entry :: "string \<Rightarrow> lock_table \<Rightarrow> nat option" where
  "file_entry filename t = find_index (\<lambda>e. fl_filename e = filename) t"

text \<open>The callers pass a count of 0 or more.\<close>

definition init_file_locks :: "string \<Rightarrow> int \<Rightarrow> lock_table \<Rightarrow> lock_table" where
  "init_file_locks filename sentence_count t =
     (let n = (if sentence_count = 0 then 1 else nat sentence_count) in
      case file_entry filename t of
        Some i \<Rightarrow>
          if length (fl_locks (t ! i)) < n then
            t[i := (t ! i)\<lparr>fl_locks := fl_locks (t ! i) @ replicate (n - length (fl_locks (t ! i))) fresh_lock\<rparr>]
          else t
      | None \<Rightarrow> t @ [\<lparr>fl_filename = filename, fl_locks = replicate n fresh_lock\<rparr>])"

definition get_sentence_lock :: "string \<Rightarrow> int \<Rightarrow> lock_table \<Rightarrow> (nat \<times> nat) option" where
  "get_sentence_lock filename sentence_idx t =
     (case file_entry filename t of
        None \<Rightarrow> None
      | Some i \<Rightarrow>
          if sentence_idx \<ge> 0 \<and> sentence_idx < int (length (fl_locks (t ! i)))
          then Some (i, nat sentence_idx) else None)"

definition lock_at :: "lock_table \<Rightarrow> nat \<times> nat \<Rightarrow> sentence_lock" where
  "lock_at t p = fl_locks (t ! fst p) ! snd p"

definition set_lock :: "nat \<times> nat \<Rightarrow> sentence_lock \<Rightarrow> lock_table \<Rightarrow> lock_table" where
  "set_lock p l t = t[fst p := (t ! fst p)\<lparr>fl_locks := (fl_locks (t ! fst p))[snd p := l]\<rparr>]"

definition lock_sentence_ss :: "time \<Rightarrow> string \<Rightarrow> int \<Rightarrow> string \<Rightarrow> lock_table \<Rightarrow> int \<times> lock_table" where
  "lock_sentence_ss now filename sent_idx username t0 =
     (let t = init_file_locks filename (sent_idx + 1) t0 in
      case get_sentence_lock filename sent_idx t of
        None \<Rightarrow> (ERR_INVALID_INDEX, t)
      | Some p \<Rightarrow>
          if sl_locked (lock_at t p) \<and> sl_by (lock_at t p) \<noteq> username then (ERR_SENTENCE_LOCKED, t)
          else (SUCCESS, set_lock p \<lparr>sl_locked = True, sl_by = strncpy (MAX_USERNAME - 1) username,
                                     sl_time = now\<rparr> t))"

definition unlock_sentence_ss :: "string \<Rightarrow> int \<Rightarrow> string \<Rightarrow> lock_table \<Rightarrow> int \<times> lock_table" where
  "unlock_sentence_ss filename sent_idx username t =
     (case get_sentence_lock filename sent_idx t of
        None \<Rightarrow> (ERR_INVALID_INDEX, t)
      | Some p \<Rightarrow>
          if \<not> sl_locked (lock_at t p) \<or> sl_by (lock_at t p) \<noteq> username then (ERR_ACCESS_DENIED, t)
          else (SUCCESS, set_lock p ((lock_at t p)\<lparr>sl_locked := False, sl_by := []\<rparr>) t))"

definition check_file_locks :: "string \<Rightarrow> lock_table \<Rightarrow> bool" where
  "check_file_locks filename t =
     (case file_entry filename t of
        None \<Rightarrow> False
      | Some i \<Rightarrow> list_ex sl_locked (fl_locks (t ! i)))"

section \<open>The contract\<close>

text \<open>Who holds the lock of a sentence.\<close>

definition holder :: "lock_table \<Rightarrow> string \<Rightarrow> int \<Rightarrow> string option" where
  "holder t filename i =
     (case get_sentence_lock filename i t of
        None \<Rightarrow> None
      | Some p \<Rightarrow> if sl_locked (lock_at t p) then Some (sl_by (lock_at t p)) else None)"

datatype lock_request = Acquire time string int string | Release string int string

fun request_user :: "lock_request \<Rightarrow> string" where
  "request_user (Acquire t f i u) = u"
| "request_user (Release f i u) = u"

fun request_index :: "lock_request \<Rightarrow> int" where
  "request_index (Acquire t f i u) = i"
| "request_index (Release f i u) = i"

locale sentence_locking =
  fixes held :: "'s \<Rightarrow> string \<Rightarrow> int \<Rightarrow> string option"
    and acquire :: "time \<Rightarrow> string \<Rightarrow> int \<Rightarrow> string \<Rightarrow> 's \<Rightarrow> int \<times> 's"
    and release :: "string \<Rightarrow> int \<Rightarrow> string \<Rightarrow> 's \<Rightarrow> int \<times> 's"
    and user_ok :: "string \<Rightarrow> bool"
    and granted refused :: int
  assumes granted_refused: "granted \<noteq> refused"
    and acquire_status: "0 \<le> i \<Longrightarrow>
          fst (acquire t f i u s) = (if held s f i = None \<or> held s f i = Some u then granted else refused)"
    and acquire_held: "0 \<le> i \<Longrightarrow> user_ok u \<Longrightarrow>
          held (snd (acquire t f i u s)) g j =
            (if g = f \<and> j = i \<and> (held s f i = None \<or> held s f i = Some u) then Some u else held s g j)"
    and release_status: "fst (release f i u s) = granted \<longleftrightarrow> held s f i = Some u"
    and release_held: "held (snd (release f i u s)) g j =
            (if g = f \<and> j = i \<and> held s f i = Some u then None else held s g j)"
begin

fun handle :: "lock_request \<Rightarrow> 's \<Rightarrow> int \<times> 's" where
  "handle (Acquire t f i u) s = acquire t f i u s"
| "handle (Release f i u) s = release f i u s"

fun handle_all :: "lock_request list \<Rightarrow> 's \<Rightarrow> int list \<times> 's" where
  "handle_all [] s = ([], s)"
| "handle_all (r # rs) s =
     (let (st, s') = handle r s; (sts, s'') = handle_all rs s' in (st # sts, s''))"

text \<open>While a user holds a lock, no request of another user changes that, and none is granted it.\<close>

lemma handle_other:
  assumes "held s f i = Some u" and "request_user r \<noteq> u" "user_ok (request_user r)" "0 \<le> request_index r"
  shows "held (snd (handle r s)) f i = Some u"
    and "fst (handle r s) = granted \<Longrightarrow> \<exists>g j. (g, j) \<noteq> (f, i) \<and>
           (r = Release g j (request_user r) \<or> (\<exists>t. r = Acquire t g j (request_user r)))"
  using assms granted_refused
  by (cases r; auto simp: acquire_held release_held acquire_status release_status split: if_splits)+

lemma handle_all_others:
  assumes "held s f i = Some u"
    and "\<forall>r \<in> set rs. request_user r \<noteq> u \<and> user_ok (request_user r) \<and> 0 \<le> request_index r"
  shows "held (snd (handle_all rs s)) f i = Some u"
    and "\<forall>k < length rs. \<forall>t v. rs ! k = Acquire t f i v \<longrightarrow> fst (handle_all rs s) ! k = refused"
proof -
  have "held (snd (handle_all rs s)) f i = Some u \<and>
      (\<forall>k < length rs. \<forall>t v. rs ! k = Acquire t f i v \<longrightarrow> fst (handle_all rs s) ! k = refused)"
    using assms
  proof (induction rs arbitrary: s)
    case (Cons r rs)
    have h: "held (snd (handle r s)) f i = Some u" using handle_other(1) [OF Cons.prems(1)] Cons.prems(2) by simp
    have st: "fst (handle r s) = refused" if "r = Acquire t f i v" for t v
      using that Cons.prems by (auto simp: acquire_status)
    from Cons.IH [OF h] Cons.prems(2) st show ?case
      by (auto simp: case_prod_beta Let_def nth_Cons split: nat.splits)
  qed simp
  then show "held (snd (handle_all rs s)) f i = Some u"
    "\<forall>k < length rs. \<forall>t v. rs ! k = Acquire t f i v \<longrightarrow> fst (handle_all rs s) ! k = refused"
    by auto
qed

end

section \<open>The table meets the contract\<close>

lemma file_entry_Some: "file_entry f t = Some i \<Longrightarrow> i < length t \<and> fl_filename (t ! i) = f"
  by (simp add: file_entry_def find_index_Some)

lemma find_index_cong_map:
  "map g xs = map g ys \<Longrightarrow> find_index (\<lambda>x. g x = k) xs = find_index (\<lambda>x. g x = k) ys"
proof (induction xs arbitrary: ys)
  case (Cons x xs)
  then obtain y ys' where "ys = y # ys'" "g x = g y" "map g xs = map g ys'" by auto
  with Cons.IH show ?case by simp
qed simp

lemma file_entry_update:
  "i < length t \<Longrightarrow> file_entry f (t[i := (t ! i)\<lparr>fl_locks := ls\<rparr>]) = file_entry f t"
  unfolding file_entry_def
  by (rule find_index_cong_map) (simp add: list_eq_iff_nth_eq nth_list_update)

definition locks_of :: "lock_table \<Rightarrow> string \<Rightarrow> sentence_lock list" where
  "locks_of t f = (case file_entry f t of None \<Rightarrow> [] | Some i \<Rightarrow> fl_locks (t ! i))"

definition held_in :: "sentence_lock list \<Rightarrow> int \<Rightarrow> string option" where
  "held_in ls j =
     (if 0 \<le> j \<and> j < int (length ls) \<and> sl_locked (ls ! nat j) then Some (sl_by (ls ! nat j)) else None)"

lemma holder_eq: "holder t f j = held_in (locks_of t f) j"
  by (auto simp: holder_def get_sentence_lock_def lock_at_def locks_of_def held_in_def split: option.splits)

lemma get_lock_eq:
  "get_sentence_lock f i t = Some p \<longleftrightarrow>
     (\<exists>k. file_entry f t = Some k \<and> p = (k, nat i) \<and> 0 \<le> i \<and> i < int (length (fl_locks (t ! k))))"
  by (auto simp: get_sentence_lock_def split: option.splits)

lemma file_entry_new:
  "file_entry f t = None \<Longrightarrow> file_entry g (t @ [\<lparr>fl_filename = f, fl_locks = ls\<rparr>]) =
     (if g = f then Some (length t) else file_entry g t)"
  by (cases "file_entry g t") (auto simp: file_entry_def find_index_append)

lemma locks_of_update:
  assumes "file_entry f t = Some k"
  shows "locks_of (t[k := (t ! k)\<lparr>fl_locks := ls\<rparr>]) g = (if g = f then ls else locks_of t g)"
proof (cases "file_entry g t")
  case None
  with assms show ?thesis
    using file_entry_update [of k t g ls] file_entry_Some [OF assms] by (auto simp: locks_of_def)
next
  case (Some m)
  have "m = k \<longleftrightarrow> g = f"
    using file_entry_Some [OF Some] file_entry_Some [OF assms] Some assms by (metis option.inject)
  with Some assms show ?thesis
    using file_entry_update [of k t g ls] file_entry_Some [OF assms]
    by (cases "m = k") (simp_all add: locks_of_def)
qed

lemma held_in_grow: "held_in (ls @ replicate n fresh_lock) j = held_in ls j"
  by (auto simp: held_in_def nth_append fresh_lock_def)

lemma held_in_fresh: "held_in (replicate n fresh_lock) j = None"
  using held_in_grow [of "[]" n j] by (simp add: held_in_def)

lemma held_in_set:
  assumes "0 \<le> i" "i < int (length ls)"
  shows "held_in (ls[nat i := l]) j =
    (if j = i then (if sl_locked l then Some (sl_by l) else None) else held_in ls j)"
proof (cases "j = i")
  case True
  with assms show ?thesis by (simp add: held_in_def nat_less_iff)
next
  case False
  then have "0 \<le> j \<Longrightarrow> ls[nat i := l] ! nat j = ls ! nat j" using assms(1) by simp
  with False show ?thesis by (auto simp: held_in_def)
qed

lemma locks_of_init:
  "\<exists>n. locks_of (init_file_locks f c t) g = (if g = f then locks_of t f @ replicate n fresh_lock else locks_of t g)"
proof (cases "file_entry f t")
  case None
  let ?n = "if c = 0 then 1 else nat c"
  have "locks_of (init_file_locks f c t) g = (if g = f then replicate ?n fresh_lock else locks_of t g)"
    using file_entry_new [OF None] None
    by (auto simp: init_file_locks_def locks_of_def Let_def nth_append dest: file_entry_Some
        split: option.splits)
  with None show ?thesis by (auto simp: locks_of_def)
next
  case (Some k)
  let ?n = "(if c = 0 then 1 else nat c) - length (fl_locks (t ! k))"
  have "locks_of (init_file_locks f c t) g = (if g = f then locks_of t f @ replicate ?n fresh_lock else locks_of t g)"
    using Some by (simp add: init_file_locks_def Let_def locks_of_update) (auto simp: locks_of_def)
  then show ?thesis by blast
qed

lemma holder_init: "holder (init_file_locks f n t) g j = holder t g j"
  using locks_of_init [of f n t g] by (auto simp: holder_eq held_in_grow)

lemma init_present: "0 \<le> i \<Longrightarrow> get_sentence_lock f i (init_file_locks f (i + 1) t) \<noteq> None"
proof (cases "file_entry f t")
  case None
  then have "file_entry f (t @ [\<lparr>fl_filename = f, fl_locks = ls\<rparr>]) = Some (length t)" for ls
    by (simp add: file_entry_def find_index_append)
  with None show "0 \<le> i \<Longrightarrow> ?thesis"
    by (auto simp: init_file_locks_def get_sentence_lock_def Let_def nth_append)
next
  case (Some k)
  with file_entry_Some [OF Some] show "0 \<le> i \<Longrightarrow> ?thesis"
    by (auto simp: init_file_locks_def get_sentence_lock_def Let_def file_entry_update)
qed

lemma holder_set:
  assumes "get_sentence_lock f i t = Some p"
  shows "holder (set_lock p l t) g j =
    (if g = f \<and> j = i then (if sl_locked l then Some (sl_by l) else None) else holder t g j)"
proof -
  from assms obtain k where k: "file_entry f t = Some k" "p = (k, nat i)" "0 \<le> i"
      "i < int (length (fl_locks (t ! k)))"
    by (auto simp: get_lock_eq)
  then have "locks_of (set_lock p l t) g = (if g = f then (locks_of t f)[nat i := l] else locks_of t g)"
    by (simp add: set_lock_def locks_of_update) (simp add: locks_of_def)
  moreover have "i < int (length (locks_of t f))" using k by (simp add: locks_of_def)
  ultimately show ?thesis using k(3) by (simp add: holder_eq held_in_set)
qed

interpretation locks: sentence_locking holder lock_sentence_ss unlock_sentence_ss
    "\<lambda>u. length u < MAX_USERNAME" 200 423
proof unfold_locales
  fix t f i u s g j
  let ?s = "init_file_locks f (i + 1) s"
  show "fst (lock_sentence_ss t f i u s) = (if holder s f i = None \<or> holder s f i = Some u then 200 else 423)"
    if "0 \<le> i"
    using init_present [OF that, of f s] holder_init [of f "i + 1" s f i]
    by (auto simp: lock_sentence_ss_def holder_def Let_def split: option.splits if_splits)
  show "holder (snd (lock_sentence_ss t f i u s)) g j =
      (if g = f \<and> j = i \<and> (holder s f i = None \<or> holder s f i = Some u) then Some u else holder s g j)"
    if "0 \<le> i" "length u < MAX_USERNAME"
  proof -
    obtain p where p: "get_sentence_lock f i ?s = Some p" using init_present [OF \<open>0 \<le> i\<close>, of f s] by blast
    then have "holder s f i = (if sl_locked (lock_at ?s p) then Some (sl_by (lock_at ?s p)) else None)"
      using holder_init [of f "i + 1" s f i] by (simp add: holder_def)
    with p that(2) show ?thesis
      by (auto simp: lock_sentence_ss_def Let_def holder_set [OF p] holder_init strncpy_fits)
  qed
next
  fix f i u s g j
  show "fst (unlock_sentence_ss f i u s) = 200 \<longleftrightarrow> holder s f i = Some u"
    by (auto simp: unlock_sentence_ss_def holder_def split: option.splits)
  show "holder (snd (unlock_sentence_ss f i u s)) g j =
      (if g = f \<and> j = i \<and> holder s f i = Some u then None else holder s g j)"
  proof (cases "get_sentence_lock f i s")
    case (Some p)
    then show ?thesis
      by (cases "sl_locked (lock_at s p)"; cases "sl_by (lock_at s p) = u")
        (auto simp: unlock_sentence_ss_def holder_set [OF Some], simp_all add: holder_def)
  qed (simp add: unlock_sentence_ss_def holder_def)
qed simp

section \<open>Properties\<close>

text \<open>
  C3. Mutual exclusion: once a user was granted the lock of a sentence, every sequence of lock and
  unlock requests of other users leaves it with that user, and each of their requests for it is
  answered \<open>ERR_SENTENCE_LOCKED\<close>.
\<close>

definition run_locks :: "lock_request list \<Rightarrow> lock_table \<Rightarrow> int list \<times> lock_table" where
  "run_locks = sentence_locking.handle_all lock_sentence_ss unlock_sentence_ss"


lemma run_locks_simps [simp]:
  "run_locks [] t = ([], t)"
  "run_locks (Acquire now f i u # rs) t =
     (let (st, t') = lock_sentence_ss now f i u t; (sts, t'') = run_locks rs t' in (st # sts, t''))"
  "run_locks (Release f i u # rs) t =
     (let (st, t') = unlock_sentence_ss f i u t; (sts, t'') = run_locks rs t' in (st # sts, t''))"
  by (simp_all add: run_locks_def locks.handle_all.simps locks.handle.simps)

text \<open>The requests a second user makes while \<open>ann\<close> holds sentence 0.\<close>

definition sample_requests :: "lock_request list" where
  "sample_requests = [Acquire 2 ''a'' 0 ''bob'', Acquire 3 ''a'' 1 ''bob'', Release ''a'' 0 ''bob'', Acquire 4 ''a'' 0 ''bob'']"


text \<open>
  \<open>check_file_locks\<close>, which guards moving, deleting and reverting a file, says exactly whether
  some sentence of the file is locked.
\<close>

lemma check_file_locks_correct:
  "check_file_locks f t \<longleftrightarrow> (\<exists>i. holder t f i \<noteq> None)"
proof -
  have "list_ex sl_locked ls \<longleftrightarrow> (\<exists>i. held_in ls i \<noteq> None)" for ls
  proof
    assume "list_ex sl_locked ls"
    then obtain k where "k < length ls" "sl_locked (ls ! k)" by (auto simp: list_ex_iff in_set_conv_nth)
    then have "held_in ls (int k) \<noteq> None" by (simp add: held_in_def)
    then show "\<exists>i. held_in ls i \<noteq> None" by blast
  qed (auto simp: held_in_def list_ex_iff nat_less_iff split: if_splits intro!: bexI nth_mem)
  from this [of "locks_of t f"] show ?thesis
    by (simp add: holder_eq check_file_locks_def) (simp add: locks_of_def split: option.splits)
qed

end
