(* ===== verification/WriteSessions.thy ===== *)
theory WriteSessions
  imports DiskOps SentenceLocks
begin

text \<open>
  Write sessions and the commit queues of the storage server (\<open>ss.c\<close>): a user who locked a
  sentence edits a copy of the file; unlocking queues the copy, and the queue merges the edited
  sentence back into the file as it is by then. \<open>now\<close> is what \<open>time(NULL)\<close> returns.
\<close>

section \<open>State\<close>

record write_session =
  ws_filename :: string
  ws_username :: string
  ws_sentence_idx :: int
  ws_temp_filepath :: string
  ws_original_count :: int
  ws_lock_time :: time

record commit_entry =
  ce_filename :: string
  ce_username :: string
  ce_sentence_idx :: int
  ce_original_count :: int
  ce_temp_filepath :: string
  ce_lock_time :: time

text \<open>The linked list of a queue, head first.\<close>

record commit_queue =
  cq_filename :: string
  cq_entries :: "commit_entry list"

record storage =
  ss_id :: int
  ss_ip :: string
  ss_nm_port :: int
  ss_client_port :: int
  ss_path :: string
  ss_disk :: disk
  ss_locks :: lock_table
  ss_sessions :: "write_session list"
  ss_queues :: "commit_queue list"

definition MAX_FILE_QUEUES :: nat where [simp]: "MAX_FILE_QUEUES = 100"

text \<open>\<open>snprintf(filepath, sizeof(filepath), "%s/%s", ss.storage_path, filename)\<close>\<close>

definition file_path :: "storage \<Rightarrow> string \<Rightarrow> string" where
  "file_path s filename = snprintf MAX_PATH (ss_path s @ ''/'' @ filename)"

section \<open>Sessions\<close>

definition session_is :: "string \<Rightarrow> string \<Rightarrow> int \<Rightarrow> write_session \<Rightarrow> bool" where
  "session_is filename username sent_idx w \<longleftrightarrow>
     ws_filename w = filename \<and> ws_username w = username \<and> ws_sentence_idx w = sent_idx"

definition find_session :: "string \<Rightarrow> string \<Rightarrow> int \<Rightarrow> storage \<Rightarrow> nat option" where
  "find_session filename username sent_idx s =
     find_index (session_is filename username sent_idx) (ss_sessions s)"

definition temp_path :: "storage \<Rightarrow> string \<Rightarrow> string \<Rightarrow> int \<Rightarrow> string" where
  "temp_path s filename username sent_idx =
     snprintf MAX_PATH (ss_path s @ ''/'' @ filename @ ''.temp_'' @ username @ ''_'' @ dec_int sent_idx)"

definition get_write_session :: "string \<Rightarrow> string \<Rightarrow> int \<Rightarrow> bool \<Rightarrow> storage \<Rightarrow> (nat \<times> storage) option" where
  "get_write_session filename username sent_idx create s =
     (case find_session filename username sent_idx s of
        Some k \<Rightarrow> Some (k, s)
      | None \<Rightarrow>
          if create \<and> length (ss_sessions s) < MAX_CLIENTS * 10 then
            Some (length (ss_sessions s),
                  s\<lparr>ss_sessions := ss_sessions s @
                     [\<lparr>ws_filename = filename, ws_username = username, ws_sentence_idx = sent_idx,
                       ws_temp_filepath = temp_path s filename username sent_idx,
                       ws_original_count = 0, ws_lock_time = 0\<rparr>]\<rparr>)
          else None)"

definition remove_write_session :: "string \<Rightarrow> string \<Rightarrow> int \<Rightarrow> storage \<Rightarrow> storage" where
  "remove_write_session filename username sent_idx s =
     (case find_session filename username sent_idx s of
        None \<Rightarrow> s
      | Some k \<Rightarrow>
          s\<lparr>ss_disk := unlink_file (ws_temp_filepath (ss_sessions s ! k)) (ss_disk s),
            ss_sessions := remove_nth k (ss_sessions s)\<rparr>)"

definition start_write_session_ss :: "time \<Rightarrow> string \<Rightarrow> string \<Rightarrow> int \<Rightarrow> storage \<Rightarrow> int \<times> storage" where
  "start_write_session_ss now filename username sent_idx s =
     (let filepath = file_path s filename;
          count = (case parse_file (ss_disk s) filepath of Some fc \<Rightarrow> int (sentence_count fc) | None \<Rightarrow> 0)
      in case get_write_session filename username sent_idx True s of
          None \<Rightarrow> (ERR_SERVER_ERROR, s)
        | Some (k, s1) \<Rightarrow>
            let w = (ss_sessions s1 ! k)\<lparr>ws_original_count := count, ws_lock_time := now\<rparr>;
                s2 = s1\<lparr>ss_sessions := (ss_sessions s1)[k := w]\<rparr>;
                temp = ws_temp_filepath w
            in case copy_file now filepath temp (ss_disk s2) of
                No_source \<Rightarrow>
                  if \<not> can_write (ss_disk s2) temp
                  then (ERR_SERVER_ERROR, remove_write_session filename username sent_idx s2)
                  else (SUCCESS, s2\<lparr>ss_disk := put_file now temp [] (ss_disk s2)\<rparr>)
              | No_target \<Rightarrow> (ERR_SERVER_ERROR, remove_write_session filename username sent_idx s2)
              | Copied d \<Rightarrow> (SUCCESS, s2\<lparr>ss_disk := d\<rparr>))"

definition empty_sentence_content :: file_content where
  "empty_sentence_content = \<lparr>sentences = [[]], sentence_count = 1\<rparr>"

text \<open>
  One edit of the copy; \<open>None\<close> is the buffer overrun of \<open>split_by_delimiters\<close>. A copy that
  cannot be read or holds nothing is one empty sentence.
\<close>

definition write_file_ss ::
    "time \<Rightarrow> string \<Rightarrow> string \<Rightarrow> int \<Rightarrow> int \<Rightarrow> string \<Rightarrow> storage \<Rightarrow> (int \<times> storage) option" where
  "write_file_ss now filename username sent_idx word_idx text s =
     (case find_session filename username sent_idx s of
        None \<Rightarrow> Some (ERR_INVALID_OPERATION, s)
      | Some k \<Rightarrow>
          let temp = ws_temp_filepath (ss_sessions s ! k);
              fc = (case parse_file (ss_disk s) temp of
                      None \<Rightarrow> empty_sentence_content
                    | Some fc \<Rightarrow> if sentence_count fc = 0 then empty_sentence_content else fc)
          in if sent_idx < 0 \<or> sent_idx > int (sentence_count fc) then Some (ERR_INVALID_INDEX, s)
             else Option.bind (insert_word_in_sentence fc sent_idx word_idx text) (\<lambda>(new_sentences, fc').
               if new_sentences < 0 then Some (ERR_INVALID_INDEX, s)
               else let (ret, d) = write_file_content now temp fc' (ss_disk s)
                 in if ret \<noteq> 0 then Some (ERR_SERVER_ERROR, s)
                    else Some (SUCCESS, s\<lparr>ss_disk := d\<rparr>)))"

section \<open>The commit queue of a file\<close>

definition get_commit_queue :: "string \<Rightarrow> commit_queue list \<Rightarrow> (nat \<times> commit_queue list) option" where
  "get_commit_queue filename qs =
     (case find_index (\<lambda>q. cq_filename q = filename) qs of
        Some i \<Rightarrow> Some (i, qs)
      | None \<Rightarrow>
          if length qs \<ge> MAX_FILE_QUEUES then None
          else Some (length qs, qs @ [\<lparr>cq_filename = filename, cq_entries = []\<rparr>]))"

definition enqueue_commit :: "string \<Rightarrow> commit_entry \<Rightarrow> commit_queue list \<Rightarrow> int \<times> commit_queue list" where
  "enqueue_commit filename entry qs =
     (case get_commit_queue filename qs of
        None \<Rightarrow> (-1, qs)
      | Some (i, qs1) \<Rightarrow> (0, qs1[i := (qs1 ! i)\<lparr>cq_entries := cq_entries (qs1 ! i) @ [entry]\<rparr>]))"

text \<open>
  The three copying loops: the sentences before the adjusted index, the edited ones of the copy,
  the sentences after it.
\<close>

definition merge_sentences :: "sentence list \<Rightarrow> sentence list \<Rightarrow> int \<Rightarrow> int \<Rightarrow> int \<Rightarrow> sentence list" where
  "merge_sentences main temp sentence_idx adjusted_idx expansion =
     take (nat adjusted_idx) main
     @ take (nat (1 + expansion)) (drop (nat sentence_idx) temp)
     @ drop (nat (adjusted_idx + 1)) main"

definition set_times :: "time \<Rightarrow> time \<Rightarrow> string \<Rightarrow> disk \<Rightarrow> disk" where
  "set_times actime modtime path d =
     d\<lparr>dk_files := (dk_files d)(path := map_option
         (\<lambda>f. f\<lparr>df_atime := actime, df_mtime := modtime\<rparr>) (dk_files d path))\<rparr>"

text \<open>One round of the loop of \<open>process_commit_queue\<close>: an entry is dropped, merged, or stops it.\<close>

datatype commit_outcome = Skipped disk | Failed disk | Merged disk

definition process_entry :: "time \<Rightarrow> string \<Rightarrow> commit_entry \<Rightarrow> disk \<Rightarrow> commit_outcome" where
  "process_entry now filepath entry d =
     (let main = (case parse_file d filepath of Some fc \<Rightarrow> counted fc | None \<Rightarrow> []);
          current = int (length main);
          original = ce_original_count entry
      in case parse_file d (ce_temp_filepath entry) of
          None \<Rightarrow> Skipped (unlink_file (ce_temp_filepath entry) d)
        | Some temp_fc \<Rightarrow>
            let temp = counted temp_fc;
                adjusted = ce_sentence_idx entry + (current - original)
            in if \<not> (current = 0 \<and> original = 0 \<and> adjusted = 0) \<and> (adjusted < 0 \<or> adjusted \<ge> current)
               then Skipped (unlink_file (ce_temp_filepath entry) d)
               else
                 let expansion = int (length temp) - original;
                     merged = (if current = 0 then temp
                               else merge_sentences main temp (ce_sentence_idx entry) adjusted expansion);
                     (ret, d1) = write_file_content now filepath
                       \<lparr>sentences = merged, sentence_count = length merged\<rparr> d
                 in if ret \<noteq> 0 then Failed d1
                    else Merged (unlink_file (ce_temp_filepath entry) (set_times now now filepath d1)))"

fun process_loop :: "time \<Rightarrow> string \<Rightarrow> commit_entry list \<Rightarrow> disk \<Rightarrow> int \<Rightarrow> int \<times> commit_entry list \<times> disk" where
  "process_loop now filepath [] d processed = (processed, [], d)"
| "process_loop now filepath (entry # entries) d processed =
     (case process_entry now filepath entry d of
        Skipped d' \<Rightarrow> process_loop now filepath entries d' processed
      | Failed d' \<Rightarrow> (-1, entry # entries, d')
      | Merged d' \<Rightarrow> process_loop now filepath entries d' (processed + 1))"

definition process_commit_queue :: "time \<Rightarrow> string \<Rightarrow> storage \<Rightarrow> int \<times> storage" where
  "process_commit_queue now filename s =
     (case get_commit_queue filename (ss_queues s) of
        None \<Rightarrow> (0, s)
      | Some (i, qs) \<Rightarrow>
          let filepath = file_path s filename;
              entries = cq_entries (qs ! i);
              d = (if entries \<noteq> [] then snd (create_undo_backup now filepath (ss_disk s)) else ss_disk s);
              (ret, rest, d') = process_loop now filepath entries d 0
          in (ret, s\<lparr>ss_queues := qs[i := (qs ! i)\<lparr>cq_entries := rest\<rparr>], ss_disk := d'\<rparr>))"

section \<open>Ending a session\<close>

definition commit_write_session_ss :: "time \<Rightarrow> string \<Rightarrow> string \<Rightarrow> int \<Rightarrow> storage \<Rightarrow> int \<times> storage" where
  "commit_write_session_ss now filename username sent_idx s =
     (case find_session filename username sent_idx s of
        None \<Rightarrow> (SUCCESS, s)
      | Some k \<Rightarrow>
          let w = ss_sessions s ! k;
              (result, qs) = enqueue_commit filename
                 \<lparr>ce_filename = filename, ce_username = username, ce_sentence_idx = sent_idx,
                  ce_original_count = ws_original_count w, ce_temp_filepath = ws_temp_filepath w,
                  ce_lock_time = ws_lock_time w\<rparr> (ss_queues s)
          in if result \<noteq> 0 then (ERR_SERVER_ERROR, remove_write_session filename username sent_idx s)
             else (SUCCESS, snd (process_commit_queue now filename
                     (s\<lparr>ss_queues := qs, ss_sessions := remove_nth k (ss_sessions s)\<rparr>))))"

definition cancel_write_session_ss :: "string \<Rightarrow> string \<Rightarrow> int \<Rightarrow> storage \<Rightarrow> int \<times> storage" where
  "cancel_write_session_ss filename username sent_idx s =
     (case find_session filename username sent_idx s of
        None \<Rightarrow> (SUCCESS, s)
      | Some _ \<Rightarrow> (SUCCESS, remove_write_session filename username sent_idx s))"

section \<open>Queues\<close>

lemma commit_queue_again:
  assumes "get_commit_queue f qs = Some (i, qs1)"
  shows "i < length qs1 \<and> cq_filename (qs1 ! i) = f
    \<and> get_commit_queue f (qs1[i := (qs1 ! i)\<lparr>cq_entries := es\<rparr>]) = Some (i, qs1[i := (qs1 ! i)\<lparr>cq_entries := es\<rparr>])"
proof -
  have f: "find_index (\<lambda>q. cq_filename q = f) qs1 = Some i"
    using assms by (auto simp: get_commit_queue_def find_index_append split: option.splits if_splits)
  then have i: "i < length qs1" "cq_filename (qs1 ! i) = f" by (simp_all add: find_index_Some)
  have "find_index (\<lambda>q. cq_filename q = f) (qs1[i := (qs1 ! i)\<lparr>cq_entries := es\<rparr>]) =
      find_index (\<lambda>q. cq_filename q = f) qs1"
    by (rule find_index_cong_map) (rule nth_equalityI, use i(1) in \<open>auto simp: nth_list_update\<close>)
  with f i show ?thesis by (simp add: get_commit_queue_def)
qed

lemma undo_backup_dirs:
  "dk_dirs (snd (create_undo_backup now p d)) = dk_dirs d"
  "dk_blocked (snd (create_undo_backup now p d)) = dk_blocked d"
  by (auto simp: create_undo_backup_def copy_frame split: copy_result.splits)

section \<open>What a commit does to the file\<close>

lemma parse_file_content:
  "parse_file d p = Some fc \<longleftrightarrow> (\<exists>bs. read_all d p = Some bs \<and> fc = parse_content bs)"
  by (auto simp: parse_file_def)

text \<open>The sentences of a file; a file that cannot be read has none.\<close>

definition file_sentences :: "disk \<Rightarrow> string \<Rightarrow> sentence list" where
  "file_sentences d p = (case parse_file d p of Some fc \<Rightarrow> counted fc | None \<Rightarrow> [])"

lemma merge_sentences_mapped:
  assumes "length A = i" and "length C' = length C"
  shows "merge_sentences (A' @ x # C') (A @ B @ C) (int i) (int (length A')) (int (length B) - 1) = A' @ B @ C'"
  using assms by (simp add: merge_sentences_def nat_add_distrib)

lemma render_merged: "render \<lparr>sentences = ss, sentence_count = length ss\<rparr> = render_sentences ss"
  by (simp add: render_def counted_def)

lemma content_set_times [disk]: "content (set_times a m p d) q = content d q"
  by (simp add: content_def set_times_def option.map_comp comp_def)

lemma process_entry_merge:
  assumes "file_sentences d p = main" "main \<noteq> []" and "parse_file d (ce_temp_filepath e) = Some temp_fc"
    and "can_write d p" and "ce_temp_filepath e \<noteq> p"
    and "adj = ce_sentence_idx e + (int (length main) - ce_original_count e)" "0 \<le> adj" "adj < int (length main)"
  shows "\<exists>d'. process_entry now p e d = Merged d'
     \<and> content d' q = (if q = ce_temp_filepath e then None
          else if q = p then Some (render_sentences (merge_sentences main (counted temp_fc) (ce_sentence_idx e) adj
                 (int (length (counted temp_fc)) - ce_original_count e)))
          else content d q)"
  using assms
  by (auto simp: process_entry_def file_sentences_def write_file_content_def Let_def disk render_merged
      split: option.splits)

lemma process_entry_skip:
  assumes "file_sentences d p = main"
    and "adj = ce_sentence_idx e + (int (length main) - ce_original_count e)" "adj < 0 \<or> int (length main) \<le> adj"
    and "0 < ce_original_count e"
  shows "process_entry now p e d = Skipped (unlink_file (ce_temp_filepath e) d)"
  using assms by (auto simp: process_entry_def file_sentences_def Let_def split: option.splits)

section \<open>Properties\<close>

text \<open>
  C6. A commit is merged where it belongs when the commits before it changed the number of
  sentences only in front of the locked one: if the copy has the sentences \<open>A\<close>, \<open>B\<close>, \<open>C\<close> with \<open>B\<close>
  in place of the locked sentence, and the file by now has \<open>A'\<close>, the locked sentence and as many
  sentences as \<open>C\<close> after it, the file gets \<open>A'\<close>, \<open>B\<close> and its own rest; the copy is deleted and no
  other file changes.
\<close>

theorem commit_merges:
  assumes "file_sentences d p = A' @ x # C'" and "parse_file d (ce_temp_filepath e) = Some temp_fc"
    and "counted temp_fc = A @ B @ C" and "ce_sentence_idx e = int (length A)"
    and "ce_original_count e = int (length A + 1 + length C)" and "length C' = length C"
    and "can_write d p" and "ce_temp_filepath e \<noteq> p"
  shows "\<exists>d'. process_entry now p e d = Merged d'
           \<and> content d' p = Some (render_sentences (A' @ B @ C'))
           \<and> content d' (ce_temp_filepath e) = None
           \<and> (\<forall>q. q = p \<or> q = ce_temp_filepath e \<or> content d' q = content d q)"
proof -
  let ?main = "A' @ x # C'"
  have adj: "int (length A') = ce_sentence_idx e + (int (length ?main) - ce_original_count e)"
    using assms(4,5,6) by simp
  have ex: "int (length (counted temp_fc)) - ce_original_count e = int (length B) - 1"
    using assms(3,5) by simp
  have m: "merge_sentences ?main (counted temp_fc) (ce_sentence_idx e) (int (length A'))
      (int (length (counted temp_fc)) - ce_original_count e) = A' @ B @ C'"
    unfolding ex unfolding assms(3,4) by (rule merge_sentences_mapped [OF refl assms(6)])
  obtain d' where "process_entry now p e d = Merged d'"
    using process_entry_merge [OF assms(1) _ assms(2,7,8) adj, of now p] by auto
  with process_entry_merge [OF assms(1) _ assms(2,7,8) adj, of now] m assms(8) show ?thesis by auto
qed

definition demo_disk :: "bytes \<Rightarrow> bytes \<Rightarrow> disk" where
  "demo_disk main temp =
     \<lparr>dk_files = [''s/a'' \<mapsto> \<lparr>df_bytes = main, df_mtime = 0, df_atime = 0\<rparr>,
                 ''s/a.temp_ann_1'' \<mapsto> \<lparr>df_bytes = temp, df_mtime = 0, df_atime = 0\<rparr>],
      dk_dirs = {''s''}, dk_blocked = {}\<rparr>"

definition demo_entry :: "nat \<Rightarrow> int \<Rightarrow> commit_entry" where
  "demo_entry idx original =
     \<lparr>ce_filename = ''a'', ce_username = ''ann'', ce_sentence_idx = int idx, ce_original_count = original,
      ce_temp_filepath = ''s/a.temp_ann_1'', ce_lock_time = 0\<rparr>"

lemma demo_parse:
  "parse_file (demo_disk main temp) ''s/a'' = Some (parse_content main)"
  "parse_file (demo_disk main temp) ''s/a.temp_ann_1'' = Some (parse_content temp)"
  "can_write (demo_disk main temp) ''s/a''"
  "file_sentences (demo_disk main temp) ''s/a'' = counted (parse_content main)"
  by (simp_all add: parse_file_def read_all_def content_def demo_disk_def can_write_def dirname_def file_sentences_def)

theorem commit_merges_witness:
  "\<exists>d'. process_entry 7 ''s/a'' (demo_entry 1 2) (demo_disk ''x.a.b.'' ''a.B!c.'') = Merged d'
     \<and> content d' ''s/a'' = Some ''x. a. B! c.''"
proof -
  let ?d = "demo_disk ''x.a.b.'' ''a.B!c.''" and ?e = "demo_entry 1 2"
  have main: "file_sentences ?d ''s/a'' = [[''x'', ''.''], [''a'', ''.'']] @ [''b'', ''.''] # []"
    unfolding demo_parse by code_simp
  have temp: "counted (parse_content ''a.B!c.'') = [[''a'', ''.'']] @ [[''B'', ''!''], [''c'', ''.'']] @ []" by code_simp
  have h: "parse_file ?d (ce_temp_filepath ?e) = Some (parse_content ''a.B!c.'')"
    "ce_sentence_idx ?e = int (length [[''a'', ''.'']])"
    "ce_original_count ?e = int (length [[''a'', ''.'']] + 1 + length ([] :: sentence list))"
    "length ([] :: sentence list) = length ([] :: sentence list)"
    "can_write ?d ''s/a''" "ce_temp_filepath ?e \<noteq> ''s/a''"
    using demo_parse by (simp_all add: demo_entry_def)
  have r: "render_sentences ([[''x'', ''.''], [''a'', ''.'']] @ [[''B'', ''!''], [''c'', ''.'']] @ []) = ''x. a. B! c.''"
    by code_simp
  from commit_merges [OF main h(1) temp h(2-6), of 7] show ?thesis
    unfolding r by (elim exE conjE) (intro exI conjI)
qed

text \<open>
  C30. When another commit added \<open>k\<close> sentences behind the locked one, the code maps the locked
  index to the sentence \<open>k\<close> places after it: the edit replaces that sentence, written by someone
  else, and the locked sentence keeps its old text.
\<close>

theorem commit_overwrites_other:
  assumes "file_sentences d p = A @ x # P @ y # Q" and "parse_file d (ce_temp_filepath e) = Some temp_fc"
    and "counted temp_fc = A @ B @ C" and "ce_sentence_idx e = int (length A)"
    and "ce_original_count e = int (length A + 1 + length C)"
    and "length (P @ y # Q) = length C + k" and "length P = k - 1" and "0 < k"
    and "can_write d p" and "ce_temp_filepath e \<noteq> p"
  shows "\<exists>d'. process_entry now p e d = Merged d'
           \<and> content d' p = Some (render_sentences (A @ x # P @ B @ Q))"
proof -
  let ?main = "A @ x # P @ y # Q"
  have adj: "int (length A + k) = ce_sentence_idx e + (int (length ?main) - ce_original_count e)"
    using assms(4-6) by simp
  have b: "int (length A + k) < int (length ?main)" using assms(7,8) by simp
  have ex: "int (length (counted temp_fc)) - ce_original_count e = int (length B) - 1"
    using assms(3,5) by simp
  have split: "?main = (A @ x # P) @ y # Q" "int (length A + k) = int (length (A @ x # P))"
    using assms(7,8) by simp_all
  have m: "merge_sentences ?main (counted temp_fc) (ce_sentence_idx e) (int (length A + k))
      (int (length (counted temp_fc)) - ce_original_count e) = (A @ x # P) @ B @ Q"
    unfolding ex unfolding assms(3,4) split(2)
    unfolding split(1) by (simp add: merge_sentences_def nat_add_distrib)
  obtain d' where "process_entry now p e d = Merged d'"
    using process_entry_merge [OF assms(1) _ assms(2,9,10) adj, of now p] b by auto
  with process_entry_merge [OF assms(1) _ assms(2,9,10) adj _ b, of now p] m assms(10) show ?thesis by auto
qed

text \<open>
  In the example \<open>ann\<close> locked the first and \<open>bob\<close> the second sentence of \<open>a. b.\<close>; \<open>bob\<close> made two
  sentences of his one and unlocked first. The edit of \<open>ann\<close> then replaces the text of \<open>bob\<close>.
\<close>

theorem commit_overwrites_other_witness:
  "\<exists>d'. process_entry 7 ''s/a'' (demo_entry 0 2) (demo_disk ''a. b. c.'' ''A. b.'') = Merged d'
     \<and> content d' ''s/a'' = Some ''a. A. c.''"
proof -
  let ?d = "demo_disk ''a. b. c.'' ''A. b.''" and ?e = "demo_entry 0 2"
  have main: "file_sentences ?d ''s/a'' = [] @ [''a'', ''.''] # [] @ ['' '', ''b'', ''.''] # [['' '', ''c'', ''.'']]"
    unfolding demo_parse by code_simp
  have temp: "counted (parse_content ''A. b.'') = [] @ [[''A'', ''.'']] @ [['' '', ''b'', ''.'']]" by code_simp
  have h: "parse_file ?d (ce_temp_filepath ?e) = Some (parse_content ''A. b.'')"
    "ce_sentence_idx ?e = int (length ([] :: sentence list))"
    "ce_original_count ?e = int (length ([] :: sentence list) + 1 + length [['' '', ''b'', ''.'']])"
    "length ([] @ ['' '', ''b'', ''.''] # [['' '', ''c'', ''.'']]) = length [['' '', ''b'', ''.'']] + 1"
    "length ([] :: sentence list) = 1 - 1" "(0::nat) < 1"
    "can_write ?d ''s/a''" "ce_temp_filepath ?e \<noteq> ''s/a''"
    using demo_parse by (simp_all add: demo_entry_def)
  have r: "render_sentences ([] @ [''a'', ''.''] # [] @ [[''A'', ''.'']] @ [['' '', ''c'', ''.'']]) = ''a. A. c.''"
    by code_simp
  from commit_overwrites_other [OF main h(1) temp h(2-8), of 7] show ?thesis
    unfolding r .
qed

text \<open>
  C39. A commit on the sentence after the last one, which the lock request allows, is dropped: the
  session ends with \<open>SUCCESS\<close>, its copy is deleted and the file keeps its old bytes.
\<close>

theorem append_commit_dropped:
  assumes "find_session f u i s = Some k" and "ws_original_count (ss_sessions s ! k) = i" and "0 < i"
    and "int (length (file_sentences (ss_disk s) (file_path s f))) = i"
    and "get_commit_queue f (ss_queues s) = Some (q, qs)" and "cq_entries (qs ! q) = []"
    and "undo_fits (file_path s f)" and "file_path s f \<noteq> ws_temp_filepath (ss_sessions s ! k)"
  shows "\<exists>s'. commit_write_session_ss now f u i s = (SUCCESS, s')
           \<and> content (ss_disk s') (file_path s f) = content (ss_disk s) (file_path s f)
           \<and> content (ss_disk s') (ws_temp_filepath (ss_sessions s ! k)) = None"
proof -
  let ?w = "ss_sessions s ! k" and ?p = "file_path s f"
  let ?e = "\<lparr>ce_filename = f, ce_username = u, ce_sentence_idx = i, ce_original_count = i,
      ce_temp_filepath = ws_temp_filepath ?w, ce_lock_time = ws_lock_time ?w\<rparr>"
  let ?d = "snd (create_undo_backup now ?p (ss_disk s))"
  note q = commit_queue_again [OF assms(5)]
  have pne: "?p \<noteq> undo_path ?p" using fits_neq(1) [OF assms(7)] by simp
  have c: "content ?d ?p = content (ss_disk s) ?p" using undo_backup_frame [OF pne] .
  have m: "file_sentences ?d ?p = file_sentences (ss_disk s) ?p"
    unfolding file_sentences_def parse_file_def read_all_def c by (simp add: undo_backup_dirs)
  have e: "process_entry now ?p ?e ?d = Skipped (unlink_file (ws_temp_filepath ?w) ?d)"
    by (rule process_entry_skip [OF m, of i, THEN trans]) (use assms(3,4) in simp_all)
  have "enqueue_commit f ?e (ss_queues s) = (0, qs[q := (qs ! q)\<lparr>cq_entries := [?e]\<rparr>])"
    using assms(5,6) by (simp add: enqueue_commit_def)
  then have "commit_write_session_ss now f u i s = (SUCCESS, snd (process_commit_queue now f
      (s\<lparr>ss_queues := qs[q := (qs ! q)\<lparr>cq_entries := [?e]\<rparr>], ss_sessions := remove_nth k (ss_sessions s)\<rparr>)))"
    using assms(1,2) by (simp add: commit_write_session_ss_def Let_def)
  moreover have "ss_disk (snd (process_commit_queue now f
      (s\<lparr>ss_queues := qs[q := (qs ! q)\<lparr>cq_entries := [?e]\<rparr>], ss_sessions := remove_nth k (ss_sessions s)\<rparr>)))
      = unlink_file (ws_temp_filepath ?w) ?d"
    using q e by (simp add: process_commit_queue_def file_path_def Let_def)
  ultimately show ?thesis using assms(8) c by (simp add: disk)
qed

definition demo_storage :: "bytes \<Rightarrow> bytes \<Rightarrow> int \<Rightarrow> int \<Rightarrow> storage" where
  "demo_storage main temp idx original =
     \<lparr>ss_id = 1, ss_ip = [], ss_nm_port = 0, ss_client_port = 0, ss_path = ''s'',
      ss_disk = demo_disk main temp, ss_locks = [],
      ss_sessions = [\<lparr>ws_filename = ''a'', ws_username = ''ann'', ws_sentence_idx = idx,
          ws_temp_filepath = ''s/a.temp_ann_1'', ws_original_count = original, ws_lock_time = 0\<rparr>],
      ss_queues = []\<rparr>"

theorem append_commit_dropped_witness:
  "\<exists>s'. commit_write_session_ss 9 ''a'' ''ann'' 1 (demo_storage ''a.'' ''a. b.'' 1 1) = (SUCCESS, s')
     \<and> content (ss_disk s') ''s/a'' = Some ''a.''"
proof -
  let ?s = "demo_storage ''a.'' ''a. b.'' 1 1"
  have p: "file_path ?s ''a'' = ''s/a''" by (simp add: file_path_def demo_storage_def snprintf_def)
  have "counted (parse_content ''a.'') = [[''a'', ''.'']]" by code_simp
  then have l: "int (length (file_sentences (ss_disk ?s) (file_path ?s ''a''))) = 1"
    unfolding p by (simp add: demo_storage_def demo_parse)
  have h: "find_session ''a'' ''ann'' 1 ?s = Some 0" "ws_original_count (ss_sessions ?s ! 0) = 1" "(0::int) < 1"
    "get_commit_queue ''a'' (ss_queues ?s) = Some (0, [\<lparr>cq_filename = ''a'', cq_entries = []\<rparr>])"
    "cq_entries ([\<lparr>cq_filename = ''a'', cq_entries = []\<rparr>] ! 0) = []"
    "undo_fits (file_path ?s ''a'')" "file_path ?s ''a'' \<noteq> ws_temp_filepath (ss_sessions ?s ! 0)"
    unfolding p
    by (simp_all add: demo_storage_def find_session_def session_is_def get_commit_queue_def undo_fits_def)
  have c: "content (ss_disk ?s) ''s/a'' = Some ''a.''" by (simp add: demo_storage_def demo_disk_def content_def)
  from append_commit_dropped [OF h(1,2,3) l h(4-7), of 9] show ?thesis unfolding p c by blast
qed

text \<open>
  Edits are isolated: a WRITE changes no file but the copy of its session, and no lock,
  session or queue.
\<close>

lemma write_isolated:
  assumes "write_file_ss now f u i j text s = Some (st, s')"
  shows "(\<forall>q. content (ss_disk s') q = content (ss_disk s) q \<or>
            (\<exists>w \<in> set (ss_sessions s). session_is f u i w \<and> ws_temp_filepath w = q))
       \<and> s' = s\<lparr>ss_disk := ss_disk s'\<rparr>
       \<and> (find_session f u i s = None \<longrightarrow> st = ERR_INVALID_OPERATION)"
proof (cases "find_session f u i s")
  case (Some k)
  then have k: "ss_sessions s ! k \<in> set (ss_sessions s)" "session_is f u i (ss_sessions s ! k)"
    by (auto simp: find_session_def find_index_Some)
  from assms Some have "s' = s \<or> (\<exists>fc. s' = s\<lparr>ss_disk := put_file now (ws_temp_filepath (ss_sessions s ! k)) (render fc) (ss_disk s)\<rparr>)"
    by (auto simp: write_file_ss_def write_file_content_def Let_def bind_eq_Some_conv split: if_splits prod.splits)
  with k Some show ?thesis by (auto simp: disk)
qed (use assms in \<open>simp add: write_file_ss_def\<close>)

end
