(* ===== verification/StorageServer.thy ===== *)
theory StorageServer
  imports WriteSessions
begin

text \<open>
  The storage server (\<open>ss.c\<close>): its file, folder and streaming operations, the requests of clients
  (\<open>handle_client_request\<close>) and of the name server (\<open>handle_nm_communication\<close>), registration and
  heartbeats. A request is one step: its handler runs to the end before the next one starts. The
  value \<open>None\<close> of a step is a write past a buffer.
\<close>

section \<open>Starting up and registering\<close>

definition init_storage_server :: "string \<Rightarrow> int \<Rightarrow> int \<Rightarrow> int \<Rightarrow> disk \<Rightarrow> storage" where
  "init_storage_server ip nm_port client_port dir_id d =
     (let path = snprintf MAX_PATH (''./ss_storage_'' @ dec_int dir_id)
      in \<lparr>ss_id = dir_id, ss_ip = ip, ss_nm_port = nm_port, ss_client_port = client_port, ss_path = path,
          ss_disk = (if path_exists d path then d else d\<lparr>dk_dirs := insert path (dk_dirs d)\<rparr>),
          ss_locks = [], ss_sessions = [], ss_queues = []\<rparr>)"

definition contains :: "string \<Rightarrow> string \<Rightarrow> bool" where
  "contains sub s \<longleftrightarrow> list_ex (\<lambda>k. take (length sub) (drop k s) = sub) [0..<Suc (length s)]"

text \<open>The names \<open>readdir\<close> returns that are registered: regular files without \<open>.undo\<close> in the name.\<close>

definition registered_names :: "storage \<Rightarrow> string list \<Rightarrow> string list" where
  "registered_names s entries =
     filter (\<lambda>e. e \<noteq> ''.'' \<and> e \<noteq> ''..'' \<and> \<not> contains ''.undo'' e
               \<and> dk_files (ss_disk s) (snprintf MAX_PATH (ss_path s @ ''/'' @ e)) \<noteq> None) entries"

fun join_comma :: "string list \<Rightarrow> string" where
  "join_comma [] = []"
| "join_comma [x] = x"
| "join_comma (x # y # xs) = x @ '','' @ join_comma (y # xs)"

text \<open>
  The registration message; the inner \<open>None\<close> is a storage directory that cannot be listed, after
  which nothing is sent. The list is built with \<open>strcat\<close> in a buffer of \<open>MAX_BUFFER\<close> bytes.
\<close>

definition scan_and_register_files :: "(disk \<Rightarrow> string \<Rightarrow> string list option) \<Rightarrow> storage \<Rightarrow> message option option" where
  "scan_and_register_files readdir s =
     (case readdir (ss_disk s) (ss_path s) of
        None \<Rightarrow> Some None
      | Some entries \<Rightarrow>
          let file_list = join_comma (registered_names s entries) in
          if length file_list < MAX_BUFFER then
            Some (Some (init_message\<lparr>msg_type := type_code MSG_REG_SS, msg_ss_id := ss_id s,
              msg_sender := ss_ip s, msg_client_port := ss_client_port s,
              msg_nm_port := ss_nm_port s, msg_data := file_list\<rparr>))
          else None)"

definition heartbeat_init_message :: "storage \<Rightarrow> message" where
  "heartbeat_init_message s =
     init_message\<lparr>msg_type := type_code MSG_ACK, msg_ss_id := ss_id s, msg_data := ''HB_INIT''\<rparr>"

definition heartbeat_message :: "storage \<Rightarrow> message" where
  "heartbeat_message s =
     init_message\<lparr>msg_type := type_code MSG_ACK, msg_ss_id := ss_id s, msg_data := ''HEARTBEAT''\<rparr>"

section \<open>Files and folders\<close>

definition create_file_ss :: "time \<Rightarrow> string \<Rightarrow> storage \<Rightarrow> int \<times> storage" where
  "create_file_ss now filename s =
     (let filepath = file_path s filename in
      if path_exists (ss_disk s) filepath then (ERR_FILE_EXISTS, s)
      else if \<not> can_write (ss_disk s) filepath then (ERR_SERVER_ERROR, s)
      else (SUCCESS, s\<lparr>ss_disk := put_file now filepath [] (ss_disk s),
                       ss_locks := init_file_locks filename 1 (ss_locks s)\<rparr>))"

definition delete_file_ss :: "string \<Rightarrow> storage \<Rightarrow> int \<times> storage" where
  "delete_file_ss filename s =
     (let filepath = file_path s filename in
      if dk_files (ss_disk s) filepath = None then (ERR_FILE_NOT_FOUND, s)
      else (SUCCESS, s\<lparr>ss_disk := unlink_file (undo_path filepath) (unlink_file filepath (ss_disk s))\<rparr>))"

text \<open>Reading sets the access time and keeps the modification time.\<close>

definition read_file_ss :: "time \<Rightarrow> string \<Rightarrow> storage \<Rightarrow> int \<times> string \<times> storage" where
  "read_file_ss now filename s =
     (let filepath = file_path s filename in
      case read_all (ss_disk s) filepath of
        None \<Rightarrow> (ERR_FILE_NOT_FOUND, [], s)
      | Some bs \<Rightarrow>
          (SUCCESS, cstr (take (MAX_BUFFER - 1) bs),
           s\<lparr>ss_disk := (case dk_files (ss_disk s) filepath of
                            None \<Rightarrow> ss_disk s
                          | Some f \<Rightarrow> set_times now (df_mtime f) filepath (ss_disk s))\<rparr>))"

definition mkdir :: "string \<Rightarrow> disk \<Rightarrow> disk" where
  "mkdir path d =
     (if path_exists d path \<or> path \<in> dk_blocked d \<or> \<not> (dirname path = [] \<or> dirname path \<in> dk_dirs d)
      then d else d\<lparr>dk_dirs := insert path (dk_dirs d)\<rparr>)"

text \<open>The loop that creates each directory on the way, and then the last one.\<close>

definition mkdir_all :: "string \<Rightarrow> disk \<Rightarrow> disk" where
  "mkdir_all full_path d =
     (let tmp = (if full_path \<noteq> [] \<and> last full_path = CHR ''/'' then butlast full_path else full_path)
      in mkdir tmp (fold (\<lambda>k. mkdir (take k tmp)) (filter (\<lambda>k. tmp ! k = CHR ''/'') [1..<length tmp]) d))"

definition create_folder_ss :: "string \<Rightarrow> storage \<Rightarrow> int \<times> storage" where
  "create_folder_ss folder_path s =
     (let full_path = snprintf MAX_PATH (ss_path s @ folder_path) in
      if path_exists (ss_disk s) full_path then (ERR_FILE_EXISTS, s)
      else (SUCCESS, s\<lparr>ss_disk := mkdir_all full_path (ss_disk s)\<rparr>))"

text \<open>\<open>rename\<close> on a regular file; the name server moves nothing else.\<close>

definition rename_file :: "string \<Rightarrow> string \<Rightarrow> disk \<Rightarrow> disk option" where
  "rename_file old new d =
     (case dk_files d old of
        None \<Rightarrow> None
      | Some f \<Rightarrow>
          if old \<in> dk_blocked d \<or> \<not> can_write d new then None
          else Some (d\<lparr>dk_files := (dk_files d)(old := None, new \<mapsto> f)\<rparr>))"

definition located :: "storage \<Rightarrow> string \<Rightarrow> string \<Rightarrow> string" where
  "located s folder filename =
     snprintf MAX_PATH (if folder \<noteq> [] \<and> folder \<noteq> ''/'' then ss_path s @ folder @ ''/'' @ filename
                        else ss_path s @ ''/'' @ filename)"

definition move_file_ss :: "string \<Rightarrow> string \<Rightarrow> string \<Rightarrow> storage \<Rightarrow> int \<times> storage" where
  "move_file_ss filename old_path new_path s =
     (let old_full = located s old_path filename; new_full = located s new_path filename in
      case rename_file old_full new_full (ss_disk s) of
        None \<Rightarrow> (ERR_SERVER_ERROR, s)
      | Some d \<Rightarrow>
          (SUCCESS, s\<lparr>ss_disk := (case rename_file (undo_path old_full) (undo_path new_full) d of
                                      None \<Rightarrow> d | Some d' \<Rightarrow> d')\<rparr>))"

text \<open>\<open>None\<close> is \<open>ERR_FILE_NOT_FOUND\<close>; else size, words, characters, modified and accessed times.\<close>

definition get_file_info_ss :: "string \<Rightarrow> storage \<Rightarrow> (nat \<times> nat \<times> nat \<times> time \<times> time) option" where
  "get_file_info_ss filename s =
     (let filepath = file_path s filename in
      case dk_files (ss_disk s) filepath of
        None \<Rightarrow> None
      | Some f \<Rightarrow>
          let (words, chars) = get_file_stats (ss_disk s) filepath
          in Some (length (df_bytes f), words, chars, df_mtime f, df_atime f))"

section \<open>Streaming\<close>

text \<open>
  One message per token: the status asks the client to print a space after it. A send that fails
  ends the stream, so the client may get only the first of these messages.
\<close>

fun stream_words :: "bool \<Rightarrow> int \<Rightarrow> int \<Rightarrow> sentence \<Rightarrow> (string \<times> bool \<times> int \<times> int) list" where
  "stream_words follows i j [] = []"
| "stream_words follows i j [w] = [(w, follows, i, j)]"
| "stream_words follows i j (w # v # ws) =
     (w, \<not> starts_with_delimiter w \<and> \<not> starts_with_delimiter v, i, j) # stream_words follows i (j + 1) (v # ws)"

fun stream_sentences :: "int \<Rightarrow> sentence list \<Rightarrow> (string \<times> bool \<times> int \<times> int) list" where
  "stream_sentences i [] = []"
| "stream_sentences i (s # ss) = stream_words (ss \<noteq> []) i 0 s @ stream_sentences (i + 1) ss"

definition token_message :: "string \<times> bool \<times> int \<times> int \<Rightarrow> message" where
  "token_message t =
     (case t of (w, space, i, j) \<Rightarrow>
        init_message\<lparr>msg_type := type_code MSG_DATA, msg_data := strncpy (MAX_BUFFER - 1) w,
          msg_status := (if space then 1 else 0), msg_sentence_index := i, msg_word_index := j\<rparr>)"

definition stream_file_ss :: "string \<Rightarrow> storage \<Rightarrow> int \<times> message list" where
  "stream_file_ss filename s =
     (case parse_file (ss_disk s) (file_path s filename) of
        None \<Rightarrow> (ERR_FILE_NOT_FOUND, [])
      | Some fc \<Rightarrow>
          let data = map token_message (stream_sentences 0 (counted fc));
              lst = (if data = [] then init_message else last data)
          in (SUCCESS, data @ [lst\<lparr>msg_type := type_code MSG_STOP, msg_status := SUCCESS\<rparr>]))"

section \<open>Requests of clients\<close>

definition ack :: message where
  "ack = init_message\<lparr>msg_type := type_code MSG_ACK\<rparr>"

text \<open>The check of a lock request against the file as it is now.\<close>

definition lock_index_valid :: "storage \<Rightarrow> string \<Rightarrow> int \<Rightarrow> bool" where
  "lock_index_valid s filename i =
     (let ss = file_sentences (ss_disk s) (file_path s filename); n = int (length ss) in
      if n = 0 then i = 0
      else if i < 0 \<or> i > n then False
      else if i = n then
        last ss \<noteq> [] \<and> (starts_with_delimiter (last (last ss)) \<or> is_newline_token (last (last ss)))
      else True)"

definition lock_request_ss :: "time \<Rightarrow> string \<Rightarrow> int \<Rightarrow> string \<Rightarrow> storage \<Rightarrow> int \<times> storage" where
  "lock_request_ss now filename i user s =
     (if \<not> lock_index_valid s filename i then (ERR_INVALID_INDEX, s)
      else
        let (st, t) = lock_sentence_ss now filename i user (ss_locks s); s1 = s\<lparr>ss_locks := t\<rparr> in
        if st \<noteq> SUCCESS then (st, s1)
        else
          let (st2, s2) = start_write_session_ss now filename user i s1 in
          if st2 \<noteq> SUCCESS
          then (st2, s2\<lparr>ss_locks := snd (unlock_sentence_ss filename i user (ss_locks s2))\<rparr>)
          else (SUCCESS, s2))"

definition unlock_request_ss :: "time \<Rightarrow> string \<Rightarrow> int \<Rightarrow> string \<Rightarrow> storage \<Rightarrow> int \<times> storage" where
  "unlock_request_ss now filename i user s =
     (let (st, s1) = commit_write_session_ss now filename user i s;
          (st2, t) = unlock_sentence_ss filename i user (ss_locks s1)
      in (if st = SUCCESS then st2 else st, s1\<lparr>ss_locks := t\<rparr>))"

definition cancel_request_ss :: "string \<Rightarrow> int \<Rightarrow> string \<Rightarrow> storage \<Rightarrow> int \<times> storage" where
  "cancel_request_ss filename i user s =
     (let s1 = snd (cancel_write_session_ss filename user i s);
          (st2, t) = unlock_sentence_ss filename i user (ss_locks s1)
      in (st2, s1\<lparr>ss_locks := t\<rparr>))"

definition undo_request_ss :: "time \<Rightarrow> string \<Rightarrow> storage \<Rightarrow> int \<times> storage" where
  "undo_request_ss now filename s =
     (let filepath = file_path s filename in
      if undo_backup_exists filepath (ss_disk s) then
        (let (st, d) = restore_from_undo now filepath (ss_disk s) in (st, s\<lparr>ss_disk := d\<rparr>))
      else (ERR_INVALID_OPERATION, s))"

definition client_request :: "time \<Rightarrow> message \<Rightarrow> storage \<Rightarrow> (message list \<times> storage) option" where
  "client_request now msg s =
     (let f = msg_filename msg; u = msg_sender msg; i = msg_sentence_index msg in
      case type_of_code (msg_type msg) of
        Some MSG_READ \<Rightarrow>
          (let (st, buffer, s') = read_file_ss now f s
           in Some ([if st = SUCCESS then ack\<lparr>msg_status := st, msg_data := strncpy (MAX_BUFFER - 1) buffer\<rparr>
                     else ack\<lparr>msg_status := st\<rparr>], s'))
      | Some MSG_LOCK_SENTENCE \<Rightarrow>
          (let (st, s') = lock_request_ss now f i u s in Some ([ack\<lparr>msg_status := st\<rparr>], s'))
      | Some MSG_WRITE \<Rightarrow>
          map_option (\<lambda>(st, s'). ([ack\<lparr>msg_status := st\<rparr>], s'))
            (write_file_ss now f u i (msg_word_index msg) (msg_data msg) s)
      | Some MSG_UNLOCK_SENTENCE \<Rightarrow>
          (let (st, s') = unlock_request_ss now f i u s in Some ([ack\<lparr>msg_status := st\<rparr>], s'))
      | Some MSG_CANCEL_WRITE \<Rightarrow>
          (let (st, s') = cancel_request_ss f i u s in Some ([ack\<lparr>msg_status := st\<rparr>], s'))
      | Some MSG_STREAM \<Rightarrow>
          Some (ack\<lparr>msg_status := SUCCESS\<rparr> # snd (stream_file_ss f s), s)
      | Some MSG_UNDO \<Rightarrow>
          (let (st, s') = undo_request_ss now f s in Some ([ack\<lparr>msg_status := st\<rparr>], s'))
      | _ \<Rightarrow> Some ([ack\<lparr>msg_status := ERR_INVALID_OPERATION\<rparr>], s))"

section \<open>Requests of the name server\<close>

definition info_data :: "nat \<times> nat \<times> nat \<times> time \<times> time \<Rightarrow> string" where
  "info_data info =
     (case info of (sz, words, chars, modified, accessed) \<Rightarrow>
        snprintf MAX_BUFFER (dec_int (int sz) @ BAR # dec_int (int words) @ BAR # dec_int (int chars) @ BAR #
          dec_int modified @ BAR # dec_int accessed))"

definition nm_request ::
    "(disk \<Rightarrow> string \<Rightarrow> string list option) \<Rightarrow> time \<Rightarrow> message \<Rightarrow> storage \<Rightarrow> message \<times> storage" where
  "nm_request readdir now msg s =
     (let f = msg_filename msg; tag = msg_checkpoint_tag msg; filepath = file_path s f;
          reply = ack\<lparr>msg_ss_id := ss_id s\<rparr> in
      case type_of_code (msg_type msg) of
        Some MSG_CHECK_LOCKS \<Rightarrow>
          (reply\<lparr>msg_status := (if check_file_locks f (ss_locks s) then ERR_FILE_LOCKED else SUCCESS)\<rparr>, s)
      | Some MSG_CHECKPOINT \<Rightarrow>
          (let (st, d) = create_checkpoint now filepath tag (ss_disk s)
           in (reply\<lparr>msg_status := st\<rparr>, s\<lparr>ss_disk := d\<rparr>))
      | Some MSG_LISTCHECKPOINTS \<Rightarrow>
          (let (st, data) = list_checkpoints readdir filepath MAX_BUFFER (ss_disk s)
           in (reply\<lparr>msg_status := st, msg_data := data\<rparr>, s))
      | Some MSG_VIEWCHECKPOINT \<Rightarrow>
          (let (st, data) = view_checkpoint filepath tag MAX_BUFFER (ss_disk s)
           in (reply\<lparr>msg_status := st, msg_data := data\<rparr>, s))
      | Some MSG_REVERT \<Rightarrow>
          (let (st, d) = revert_to_checkpoint now filepath tag (ss_disk s)
           in (reply\<lparr>msg_status := st\<rparr>, s\<lparr>ss_disk := d\<rparr>))
      | Some MSG_CREATEFOLDER \<Rightarrow>
          (let (st, s') = create_folder_ss (msg_target_path msg) s in (reply\<lparr>msg_status := st\<rparr>, s'))
      | Some MSG_MOVE \<Rightarrow>
          (let (st, s') = move_file_ss f (msg_data msg) (msg_target_path msg) s
           in (reply\<lparr>msg_status := st\<rparr>, s'))
      | Some MSG_CREATE \<Rightarrow>
          (let (st, s') = create_file_ss now f s in (reply\<lparr>msg_status := st\<rparr>, s'))
      | Some MSG_DELETE \<Rightarrow>
          (let (st, s') = delete_file_ss f s in (reply\<lparr>msg_status := st\<rparr>, s'))
      | Some MSG_SS_INFO \<Rightarrow>
          if msg_data msg = ''READ_CONTENT'' then
            (let (st, buffer, s') = read_file_ss now f s
             in (if st = SUCCESS then reply\<lparr>msg_status := st, msg_data := strncpy (MAX_BUFFER - 1) buffer\<rparr>
                 else reply\<lparr>msg_status := st\<rparr>, s'))
          else (case get_file_info_ss f s of
              None \<Rightarrow> (reply\<lparr>msg_status := ERR_FILE_NOT_FOUND\<rparr>, s)
            | Some info \<Rightarrow> (reply\<lparr>msg_status := SUCCESS, msg_data := info_data info\<rparr>, s))
      | _ \<Rightarrow> (reply\<lparr>msg_status := ERR_INVALID_OPERATION\<rparr>, s))"

section \<open>Sessions and locks together\<close>

definition session_key :: "write_session \<Rightarrow> string \<times> string \<times> int" where
  "session_key w = (ws_filename w, ws_username w, ws_sentence_idx w)"

definition session_keys :: "storage \<Rightarrow> (string \<times> string \<times> int) list" where
  "session_keys s = map session_key (ss_sessions s)"

lemma session_keys_update [simp]:
  "session_keys (s\<lparr>ss_disk := d\<rparr>) = session_keys s"
  "session_keys (s\<lparr>ss_locks := t\<rparr>) = session_keys s"
  "session_keys (s\<lparr>ss_queues := qs\<rparr>) = session_keys s"
  "session_keys (s\<lparr>ss_sessions := ws\<rparr>) = map session_key ws"
  by (simp_all add: session_keys_def)

text \<open>Every session holds the lock of its sentence, and no sentence has two sessions.\<close>

definition sessions_locked :: "storage \<Rightarrow> bool" where
  "sessions_locked s \<longleftrightarrow>
     (\<forall>(f, u, i) \<in> set (session_keys s). holder (ss_locks s) f i = Some u)
     \<and> distinct (map (\<lambda>(f, u, i). (f, i)) (session_keys s))"

lemma session_is_key: "session_is f u i w \<longleftrightarrow> session_key w = (f, u, i)"
  by (simp add: session_is_def session_key_def)

lemma remove_nth_find:
  "find_index (\<lambda>x. g x = k) xs = Some n \<Longrightarrow> map g (remove_nth n xs) = remove1 k (map g xs)"
proof (induction xs arbitrary: n)
  case (Cons x xs)
  show ?case
  proof (cases "g x = k")
    case True
    with Cons.prems show ?thesis by (simp add: remove_nth_def)
  next
    case False
    with Cons.prems obtain m where "find_index (\<lambda>x. g x = k) xs = Some m" "n = Suc m" by auto
    with False Cons.IH show ?thesis by (simp add: remove_nth_def)
  qed
qed simp

lemma find_session_key: "find_session f u i s = find_index (\<lambda>w. session_key w = (f, u, i)) (ss_sessions s)"
  by (simp add: find_session_def session_is_key [abs_def])

lemma find_session_None: "find_session f u i s = None \<longleftrightarrow> (f, u, i) \<notin> set (session_keys s)"
  unfolding find_session_key find_index_None session_keys_def set_map by (metis (mono_tags) imageE imageI)

lemma remove_session_keys:
  "find_session f u i s = Some n \<Longrightarrow> map session_key (remove_nth n (ss_sessions s)) = remove1 (f, u, i) (session_keys s)"
  by (simp add: find_session_key session_keys_def remove_nth_find)

lemma remove_write_session_keys:
  "session_keys (remove_write_session f u i s) = remove1 (f, u, i) (session_keys s)"
  "ss_locks (remove_write_session f u i s) = ss_locks s"
  using remove_session_keys [of f u i s]
  by (auto simp: remove_write_session_def find_session_None remove1_idem split: option.splits)

lemma get_write_session_keys:
  assumes "get_write_session f u i True s = Some (k, s1)"
  shows "session_keys s1 = (if (f, u, i) \<in> set (session_keys s) then session_keys s else session_keys s @ [(f, u, i)])"
    and "ss_locks s1 = ss_locks s" and "ss_disk s1 = ss_disk s" and "k < length (ss_sessions s1)"
    and "session_key (ss_sessions s1 ! k) = (f, u, i)"
proof -
  show "session_keys s1 = (if (f, u, i) \<in> set (session_keys s) then session_keys s else session_keys s @ [(f, u, i)])"
    "ss_locks s1 = ss_locks s" "ss_disk s1 = ss_disk s" "k < length (ss_sessions s1)"
    "session_key (ss_sessions s1 ! k) = (f, u, i)"
    using assms find_session_None [of f u i s]
    by (auto simp: get_write_session_def session_keys_def session_key_def find_session_key find_index_Some
        split: option.splits if_splits)
qed

lemma keys_update:
  assumes "k < length ws" and "session_key w = session_key (ws ! k)"
  shows "map session_key (ws[k := w]) = map session_key ws"
  using assms by (simp add: map_update list_update_same_conv)

lemma start_session_keys:
  assumes "start_write_session_ss now f u i s = (st, s')"
  shows "ss_locks s' = ss_locks s"
    and "session_keys s' = (if st \<noteq> SUCCESS then remove1 (f, u, i) (session_keys s)
           else if (f, u, i) \<in> set (session_keys s) then session_keys s else session_keys s @ [(f, u, i)])"
proof -
  have "ss_locks s' = ss_locks s \<and> session_keys s' = (if st \<noteq> SUCCESS then remove1 (f, u, i) (session_keys s)
           else if (f, u, i) \<in> set (session_keys s) then session_keys s else session_keys s @ [(f, u, i)])"
  proof (cases "get_write_session f u i True s")
    case None
    then have "(f, u, i) \<notin> set (session_keys s)"
      by (auto simp: get_write_session_def find_session_None [symmetric] split: option.splits)
    with None assms show ?thesis by (auto simp: start_write_session_ss_def Let_def remove1_idem)
  next
    case (Some r)
    obtain k s1 where r: "r = (k, s1)" by (cases r)
    note g = get_write_session_keys [OF Some [unfolded r]]
    let ?w = "\<lambda>c. (ss_sessions s1 ! k)\<lparr>ws_original_count := c, ws_lock_time := now\<rparr>"
    have u: "map session_key ((ss_sessions s1)[k := ?w c]) = session_keys s1" for c
      using keys_update [OF g(4), of "?w c"] by (simp add: session_keys_def session_key_def)
    have rem: "remove1 (f, u, i) (session_keys s1) = remove1 (f, u, i) (session_keys s)"
      using g(1) by (simp add: remove1_append remove1_idem)
    have new: "remove1 (f, u, i) (session_keys s @ [(f, u, i)]) = session_keys s"
      if "(f, u, i) \<notin> set (session_keys s)"
      using that by (simp add: remove1_append)
    from assms Some r show ?thesis
      by (auto simp: start_write_session_ss_def Let_def remove_write_session_keys g(2) u
          rem g(1) new remove1_idem
          split: copy_result.splits if_splits)
  qed
  then show "ss_locks s' = ss_locks s"
    "session_keys s' = (if st \<noteq> SUCCESS then remove1 (f, u, i) (session_keys s)
           else if (f, u, i) \<in> set (session_keys s) then session_keys s else session_keys s @ [(f, u, i)])" by auto
qed

lemma process_queue_frame:
  "ss_locks (snd (process_commit_queue now f s)) = ss_locks s"
  "session_keys (snd (process_commit_queue now f s)) = session_keys s"
  by (simp_all add: process_commit_queue_def Let_def case_prod_beta split: option.splits)

lemma commit_session_keys:
  assumes "commit_write_session_ss now f u i s = (st, s')"
  shows "session_keys s' = remove1 (f, u, i) (session_keys s)" and "ss_locks s' = ss_locks s"
proof -
  have "session_keys s' = remove1 (f, u, i) (session_keys s) \<and> ss_locks s' = ss_locks s"
  proof (cases "find_session f u i s")
    case None
    with assms find_session_None [of f u i s] show ?thesis
      by (simp add: commit_write_session_ss_def remove1_idem)
  next
    case (Some n)
    from assms Some remove_session_keys [OF Some] show ?thesis
      by (auto simp: commit_write_session_ss_def Let_def process_queue_frame remove_write_session_keys
          split: prod.splits if_splits)
  qed
  then show "session_keys s' = remove1 (f, u, i) (session_keys s)" "ss_locks s' = ss_locks s" by auto
qed

lemma cancel_session_keys:
  "session_keys (snd (cancel_write_session_ss f u i s)) = remove1 (f, u, i) (session_keys s)"
  "ss_locks (snd (cancel_write_session_ss f u i s)) = ss_locks s"
  using find_session_None [of f u i s]
  by (auto simp: cancel_write_session_ss_def remove_write_session_keys remove1_idem split: option.splits)

text \<open>
  The server's steps: a request of a client or of the name server, as it arrives from the network
  (\<open>recv_message\<close> cuts the sender to 63 bytes).
\<close>

inductive ss_step :: "(disk \<Rightarrow> string \<Rightarrow> string list option) \<Rightarrow> storage \<Rightarrow> storage \<Rightarrow> bool"
  for readdir where
  client: "client_request now msg s = Some (out, s') \<Longrightarrow> length (msg_sender msg) < MAX_USERNAME \<Longrightarrow>
             ss_step readdir s s'"
| name_server: "nm_request readdir now msg s = (reply, s') \<Longrightarrow> ss_step readdir s s'"

inductive_cases ss_stepE: "ss_step readdir s s'"

inductive ss_reachable :: "(disk \<Rightarrow> string \<Rightarrow> string list option) \<Rightarrow> storage \<Rightarrow> storage \<Rightarrow> bool"
  for readdir s0 where
  start: "ss_reachable readdir s0 s0"
| more_steps: "ss_reachable readdir s0 s \<Longrightarrow> ss_step readdir s s' \<Longrightarrow> ss_reachable readdir s0 s'"

lemma nm_request_frame:
  assumes "nm_request readdir now msg s = (reply, s')"
  shows "session_keys s' = session_keys s" and "holder (ss_locks s') = holder (ss_locks s)"
proof -
  have "session_keys s' = session_keys s \<and> holder (ss_locks s') = holder (ss_locks s)"
    using assms
    by (auto simp: nm_request_def Let_def create_file_ss_def delete_file_ss_def create_folder_ss_def
        move_file_ss_def read_file_ss_def fun_eq_iff holder_init
        split: option.splits message_type.splits prod.splits if_splits)
  then show "session_keys s' = session_keys s" "holder (ss_locks s') = holder (ss_locks s)" by auto
qed

definition keys_locked :: "(string \<times> string \<times> int) list \<Rightarrow> (string \<Rightarrow> int \<Rightarrow> string option) \<Rightarrow> bool" where
  "keys_locked K H \<longleftrightarrow>
     (\<forall>(f, u, i) \<in> set K. H f i = Some u) \<and> distinct (map (\<lambda>(f, u, i). (f, i)) K)"

lemma sessions_locked_keys: "sessions_locked s \<longleftrightarrow> keys_locked (session_keys s) (holder (ss_locks s))"
  by (simp add: sessions_locked_def keys_locked_def)

lemma keys_locked_add:
  assumes "keys_locked K H" and "H f i = None \<or> H f i = Some u" and "H' = H(f := (H f)(i := Some u))"
  shows "keys_locked (if (f, u, i) \<in> set K then K else K @ [(f, u, i)]) H'"
proof (cases "(f, u, i) \<in> set K")
  case True
  with assms show ?thesis unfolding keys_locked_def by fastforce
next
  case False
  have "(f, i) \<notin> (\<lambda>(f, u, i). (f, i)) ` set K"
  proof
    assume "(f, i) \<in> (\<lambda>(f, u, i). (f, i)) ` set K"
    then obtain v where v: "(f, v, i) \<in> set K" by auto
    with assms(1) have "H f i = Some v" unfolding keys_locked_def by fastforce
    with assms(2) v False show False by auto
  qed
  with assms False show ?thesis unfolding keys_locked_def by fastforce
qed

lemma keys_locked_remove:
  assumes "keys_locked K H" and "H' = (if H f i = Some u then H(f := (H f)(i := None)) else H)"
  shows "keys_locked (remove1 (f, u, i) K) H'"
proof -
  have dk: "distinct K" using assms(1) by (simp add: keys_locked_def distinct_map)
  have "H' g j = Some v" if "(g, v, j) \<in> set (remove1 (f, u, i) K)" for g v j
  proof -
    have m: "(g, v, j) \<in> set K" "(g, v, j) \<noteq> (f, u, i)" using that dk by auto
    then have h: "H g j = Some v" using assms(1) by (auto simp: keys_locked_def)
    have "\<not> (g = f \<and> j = i \<and> H f i = Some u)" using m(2) h by auto
    with h assms(2) show ?thesis by auto
  qed
  moreover have "distinct (map (\<lambda>(f, u, i). (f, i)) (remove1 (f, u, i) K))"
    using assms(1) dk set_remove1_subset [of "(f, u, i)" K]
    unfolding keys_locked_def distinct_map by (meson distinct_remove1 inj_on_subset)
  ultimately show ?thesis by (auto simp: keys_locked_def)
qed

lemma lock_request_keeps:
  assumes "sessions_locked s" and "lock_request_ss now f i u s = (st, s')" and "length u < MAX_USERNAME"
  shows "sessions_locked s'"
proof (cases "lock_index_valid s f i")
  case False
  with assms show ?thesis by (simp add: lock_request_ss_def)
next
  case True
  then have i: "0 \<le> i" by (auto simp: lock_index_valid_def Let_def split: if_splits)
  let ?H = "holder (ss_locks s)"
  obtain st1 t where l: "lock_sentence_ss now f i u (ss_locks s) = (st1, t)" by fastforce
  note status = locks.acquire_status [OF i, of now f u "ss_locks s", unfolded l fst_conv]
  have held: "holder t = (if ?H f i = None \<or> ?H f i = Some u then ?H(f := (?H f)(i := Some u)) else ?H)"
    using locks.acquire_held [OF i assms(3), of now f "ss_locks s", unfolded l snd_conv]
    by (auto simp: fun_eq_iff)
  show ?thesis
  proof (cases "?H f i = None \<or> ?H f i = Some u")
    case False
    with status held l True assms(1,2) show ?thesis
      by (auto simp: lock_request_ss_def sessions_locked_keys)
  next
    case free: True
    with status have st1: "st1 = SUCCESS" by simp
    let ?s1 = "s\<lparr>ss_locks := t\<rparr>"
    obtain st2 s2 where s2: "start_write_session_ss now f u i ?s1 = (st2, s2)" by fastforce
    note k = start_session_keys [OF s2]
    note add = keys_locked_add [OF assms(1) [unfolded sessions_locked_keys] free held [unfolded if_P [OF free]]]
    show ?thesis
    proof (cases "st2 = SUCCESS")
      case True
      with assms(2) l s2 st1 \<open>lock_index_valid s f i\<close> have "s' = s2" by (simp add: lock_request_ss_def)
      with k add True show ?thesis by (auto simp: sessions_locked_keys split: if_splits)
    next
      case False
      with assms(2) l s2 st1 \<open>lock_index_valid s f i\<close>
      have s': "s' = s2\<lparr>ss_locks := snd (unlock_sentence_ss f i u (ss_locks s2))\<rparr>"
        by (simp add: lock_request_ss_def)
      have "holder (ss_locks s') = (if holder t f i = Some u then (holder t)(f := (holder t f)(i := None)) else holder t)"
        using k(1) by (auto simp: s' locks.release_held fun_eq_iff)
      from keys_locked_remove [OF add this] k False show ?thesis
        by (simp add: sessions_locked_keys s' remove1_append remove1_idem split: if_splits)
    qed
  qed
qed

lemma end_request_keeps:
  assumes "sessions_locked s" and "session_keys s1 = remove1 (f, u, i) (session_keys s)" "ss_locks s1 = ss_locks s"
  shows "sessions_locked (s1\<lparr>ss_locks := snd (unlock_sentence_ss f i u (ss_locks s1))\<rparr>)"
proof -
  have "holder (snd (unlock_sentence_ss f i u (ss_locks s))) =
      (if holder (ss_locks s) f i = Some u then (holder (ss_locks s))(f := (holder (ss_locks s) f)(i := None))
       else holder (ss_locks s))"
    by (auto simp: locks.release_held fun_eq_iff)
  from keys_locked_remove [OF assms(1) [unfolded sessions_locked_keys] this] assms(2,3)
  show ?thesis by (simp add: sessions_locked_keys)
qed

lemma client_request_keeps:
  assumes "sessions_locked s" and "client_request now msg s = Some (out, s')" and "length (msg_sender msg) < MAX_USERNAME"
  shows "sessions_locked s'"
proof -
  let ?f = "msg_filename msg" and ?u = "msg_sender msg" and ?i = "msg_sentence_index msg"
  have same: "sessions_locked s'" if "session_keys s' = session_keys s" "ss_locks s' = ss_locks s"
    using assms(1) that by (simp add: sessions_locked_keys)
  have unlock: "sessions_locked (snd (unlock_request_ss now ?f ?i ?u s))"
  proof -
    obtain st s1 where c: "commit_write_session_ss now ?f ?u ?i s = (st, s1)" by fastforce
    from end_request_keeps [OF assms(1) commit_session_keys [OF c]] c show ?thesis
      by (simp add: unlock_request_ss_def Let_def case_prod_beta)
  qed
  have cancel: "sessions_locked (snd (cancel_request_ss ?f ?i ?u s))"
    using end_request_keeps [OF assms(1) cancel_session_keys [of ?f ?u ?i s]]
    by (simp add: cancel_request_ss_def Let_def case_prod_beta)
  have lock: "sessions_locked (snd (lock_request_ss now ?f ?i ?u s))"
    using lock_request_keeps [OF assms(1) _ assms(3), of now ?f ?i] by (metis prod.collapse)
  have writing: "session_keys s'' = session_keys s \<and> ss_locks s'' = ss_locks s"
    if "write_file_ss now ?f ?u ?i w d s = Some (st, s'')" for w d st s''
    using that by (auto simp: write_file_ss_def Let_def bind_eq_Some_conv split: option.splits if_splits prod.splits)
  consider "type_of_code (msg_type msg) = Some MSG_LOCK_SENTENCE" | "type_of_code (msg_type msg) = Some MSG_UNLOCK_SENTENCE"
    | "type_of_code (msg_type msg) = Some MSG_CANCEL_WRITE" | "type_of_code (msg_type msg) = Some MSG_WRITE"
    | "type_of_code (msg_type msg) \<notin> Some ` {MSG_LOCK_SENTENCE, MSG_UNLOCK_SENTENCE, MSG_CANCEL_WRITE, MSG_WRITE}"
    by auto
  then show ?thesis
  proof cases
    case 1
    with assms(2) lock show ?thesis by (auto simp: client_request_def Let_def case_prod_beta)
  next
    case 2
    with assms(2) unlock show ?thesis by (auto simp: client_request_def Let_def case_prod_beta)
  next
    case 3
    with assms(2) cancel show ?thesis by (auto simp: client_request_def Let_def case_prod_beta)
  next
    case 4
    with assms(2) writing show ?thesis by (intro same) (auto simp: client_request_def Let_def)
  next
    case 5
    with assms(2) show ?thesis
      by (intro same) (auto simp: client_request_def Let_def read_file_ss_def undo_request_ss_def
          split: option.splits message_type.splits prod.splits if_splits)
  qed
qed

lemma ss_step_keeps: "ss_step readdir s s' \<Longrightarrow> sessions_locked s \<Longrightarrow> sessions_locked s'"
  by (erule ss_stepE) (use client_request_keeps nm_request_frame in \<open>auto simp: sessions_locked_keys\<close>)

lemma reachable_sessions_locked:
  "ss_reachable readdir s0 s \<Longrightarrow> sessions_locked s0 \<Longrightarrow> sessions_locked s"
  by (induction rule: ss_reachable.induct) (auto intro: ss_step_keeps)

section \<open>Streams\<close>

lemma stream_words_data: "map fst (stream_words b i j ws) = ws"
  by (induction b i j ws rule: stream_words.induct) simp_all

lemma stream_sentences_data: "map fst (stream_sentences i ss) = concat ss"
  by (induction ss arbitrary: i) (simp_all add: stream_words_data)

lemma chunk_tokens: "set (concat (chunk ts)) = set ts"
  using concat_chunk [of ts] by simp

section \<open>Properties\<close>

text \<open>
  C4. In every state the server can reach, each write session holds the lock of its sentence and no
  sentence has two sessions: whatever clients and the name server send, in any order, two users
  never edit the same sentence at once.
\<close>

theorem sessions_hold_locks:
  assumes "ss_reachable readdir s0 s" and "ss_sessions s0 = []"
  shows "(\<forall>w \<in> set (ss_sessions s). holder (ss_locks s) (ws_filename w) (ws_sentence_idx w) = Some (ws_username w))
       \<and> distinct (map (\<lambda>w. (ws_filename w, ws_sentence_idx w)) (ss_sessions s))"
proof -
  have "sessions_locked s0" using assms(2) by (simp add: sessions_locked_def session_keys_def)
  with reachable_sessions_locked [OF assms(1)] show ?thesis
    by (auto simp: sessions_locked_def session_keys_def session_key_def comp_def)
qed

definition demo_server :: "bytes \<Rightarrow> storage" where
  "demo_server bs =
     \<lparr>ss_id = 1, ss_ip = [], ss_nm_port = 0, ss_client_port = 0, ss_path = ''s'',
      ss_disk = \<lparr>dk_files = [''s/a'' \<mapsto> \<lparr>df_bytes = bs, df_mtime = 0, df_atime = 0\<rparr>], dk_dirs = {''s''}, dk_blocked = {}\<rparr>,
      ss_locks = [], ss_sessions = [], ss_queues = []\<rparr>"

definition request :: "message_type \<Rightarrow> string \<Rightarrow> int \<Rightarrow> message" where
  "request t u i = init_message\<lparr>msg_type := type_code t, msg_sender := u, msg_filename := ''a'', msg_sentence_index := i\<rparr>"

lemma demo_lock:
  "\<exists>out s. client_request 1 (request MSG_LOCK_SENTENCE ''ann'' 0) (demo_server ''x.'') = Some (out, s)
     \<and> map ws_username (ss_sessions s) = [''ann'']"
proof -
  let ?s = "demo_server ''x.''"
  have p: "file_path ?s ''a'' = ''s/a''" by (simp add: file_path_def demo_server_def snprintf_def)
  have c: "parse_content ''x.'' = \<lparr>sentences = [[''x'', ''.''], []], sentence_count = 1\<rparr>" by code_simp
  have f: "parse_file (ss_disk ?s) ''s/a'' = Some (parse_content ''x.'')"
    by (simp add: parse_file_def read_all_def content_def demo_server_def)
  have v: "lock_index_valid ?s ''a'' 0"
    by (simp add: lock_index_valid_def p file_sentences_def f c counted_def)
  have l: "lock_sentence_ss 1 ''a'' 0 ''ann'' (ss_locks ?s) =
      (SUCCESS, [\<lparr>fl_filename = ''a'', fl_locks = [\<lparr>sl_locked = True, sl_by = ''ann'', sl_time = 1\<rparr>]\<rparr>])"
    unfolding demo_server_def storage.simps by code_simp
  show ?thesis
    by (simp add: client_request_def request_def init_message_def lock_request_ss_def v l
        start_write_session_ss_def get_write_session_def find_session_def file_path_def)
      (simp add: demo_server_def Let_def temp_path_def dec_int_def dec_nat.simps digit_chars snprintf_def
        copy_file_def read_all_def content_def can_write_def dirname_def put_file_def)
qed

theorem sessions_hold_locks_witness:
  "\<exists>s w. ss_reachable (\<lambda>d p. None) (demo_server ''x.'') s \<and> w \<in> set (ss_sessions s)
     \<and> holder (ss_locks s) (ws_filename w) (ws_sentence_idx w) = Some ''ann''"
proof -
  obtain out s where c: "client_request 1 (request MSG_LOCK_SENTENCE ''ann'' 0) (demo_server ''x.'') = Some (out, s)"
    and u: "map ws_username (ss_sessions s) = [''ann'']" using demo_lock by metis
  have r: "ss_reachable (\<lambda>d p. None) (demo_server ''x.'') s"
    by (rule more_steps [OF start client [OF c]]) (simp add: request_def)
  from u obtain w where w: "ss_sessions s = [w]" "ws_username w = ''ann''" by (cases "ss_sessions s") auto
  have "ss_sessions (demo_server ''x.'') = []" by (simp add: demo_server_def)
  from sessions_hold_locks [OF r this] w r show ?thesis by (intro exI [of _ s] exI [of _ w]) simp
qed

text \<open>
  A stream carries the whole file: the data of the messages before the final \<open>MSG_STOP\<close> is the
  file's bytes token by token, for a file without NUL bytes and over-long tokens.
\<close>

lemma stream_complete:
  assumes "content (ss_disk s) (file_path s f) = Some bs" and "clean bs"
    and "file_path s f \<notin> dk_blocked (ss_disk s)"
  shows "\<exists>msgs stop. stream_file_ss f s = (SUCCESS, msgs @ [stop])
           \<and> map msg_data msgs = tokens bs \<and> concat (map msg_data msgs) = bs
           \<and> (\<forall>m \<in> set msgs. msg_type m = type_code MSG_DATA) \<and> msg_type stop = type_code MSG_STOP"
proof -
  let ?ts = "stream_sentences 0 (counted (parse_content bs))"
  have cp: "counted (parse_content bs) = chunk (tokens bs)" using counted_parse [OF assms(2)] .
  have p: "parse_file (ss_disk s) (file_path s f) = Some (parse_content bs)"
    using assms(1,3) by (simp add: parse_file_def read_all_def)
  have "map fst ?ts = tokens bs" by (simp add: stream_sentences_data cp concat_chunk)
  moreover have "msg_data (token_message t) = fst t" if "t \<in> set ?ts" for t
  proof -
    have "fst t \<in> set (map fst ?ts)" using that by simp
    then have "fst t \<in> set (tokens bs)" unfolding \<open>map fst ?ts = tokens bs\<close> .
    then have "length (fst t) \<le> MAX_BUFFER - 1" using assms(2) by (auto simp: clean_def list_all_iff)
    then show ?thesis by (cases t) (simp add: token_message_def strncpy_fits)
  qed
  ultimately have d: "map msg_data (map token_message ?ts) = tokens bs"
    by (metis (no_types, lifting) list.map_comp list.map_cong0 comp_apply)
  have t: "\<forall>m \<in> set (map token_message ?ts). msg_type m = type_code MSG_DATA"
    by (auto simp: token_message_def split: prod.splits)
  from d t concat_tokens [of bs] show ?thesis
    by (auto simp: stream_file_ss_def p Let_def)
qed

lemma rename_content:
  assumes "rename_file old new d = Some d'" and "old \<noteq> new"
  shows "content d' q = (if q = new then content d old else if q = old then None else content d q)"
  using assms by (auto simp: rename_file_def content_def split: option.splits if_splits)

text \<open>
  Moving a file moves its bytes and, if it can, its undo backup, and touches no other path; on
  failure nothing changes.
\<close>

lemma move_file_correct:
  assumes "move_file_ss f old new s = (st, s')" and "p = located s old f" and "p' = located s new f"
    and "distinct [p, p', undo_path p, undo_path p']"
  shows "(if st = SUCCESS
          then content (ss_disk s') p' = content (ss_disk s) p \<and> content (ss_disk s') p = None
             \<and> (\<forall>q. q \<in> {p, p', undo_path p, undo_path p'} \<or> content (ss_disk s') q = content (ss_disk s) q)
          else s' = s)"
proof (cases "rename_file p p' (ss_disk s)")
  case (Some d)
  note c1 = rename_content [OF Some]
  show ?thesis
  proof (cases "rename_file (undo_path p) (undo_path p') d")
    case None
    with Some assms c1 show ?thesis by (auto simp: move_file_ss_def Let_def)
  next
    case two: (Some d')
    note c2 = rename_content [OF two]
    from Some two assms have "st = SUCCESS" "ss_disk s' = d'" by (auto simp: move_file_ss_def Let_def)
    with c1 c2 assms(4) show ?thesis by auto
  qed
qed (use assms in \<open>auto simp: move_file_ss_def Let_def\<close>)

end
