(* ===== verification/EditSession.thy ===== *)
theory EditSession
  imports StorageServer
begin

text \<open>
  A whole editing session on the storage server: locking a sentence, writing to the copy, and
  unlocking, which commits the copy. The first part follows a text through the parser and the
  renderer, the second the file through the three requests.
\<close>

section \<open>The text of the first WRITE\<close>

definition stored_text :: "bytes \<Rightarrow> bytes" where
  "stored_text bs = normalise bs @
     (if list_ex is_delimiter bs \<and> \<not> is_blank (last bs) \<and> last bs \<noteq> NL then '' '' else [])"

lemma lexed_append:
  "lexed (xs @ ys) \<longleftrightarrow> lexed xs \<and> lexed ys \<and> (xs = [] \<or> ys = [] \<or>
     \<not> (blank_token (last xs) \<and> blank_token (hd ys)) \<and> \<not> (word_token (last xs) \<and> word_token (hd ys)))"
proof (induction xs rule: induct_list012)
  case (2 x)
  then show ?case by (cases ys) auto
qed auto

lemma blank_space_only [simp]: "\<not> word_token '' ''" "should_skip_for_indexing '' ''" "\<not> starts_with_delimiter '' ''"
  using token_tests(2) [OF blank_space] by (auto simp: word_token_def is_word_char_def is_blank_def)

lemma space_no_delimiter [simp]: "\<not> is_delimiter CHR '' ''"
  by (simp add: is_delimiter_def)

lemma spaced_tail: "xs \<noteq> [] \<Longrightarrow> spaced (xs @ ['' '']) = spaced xs @ ['' '']"
  by (induction xs rule: induct_list012) auto

lemma spaced_between:
  assumes "starts_with_delimiter t" and "\<not> should_skip_for_indexing u"
  shows "spaced (xs @ t # '' '' # u # us) = spaced (xs @ t # u # us)"
proof (induction xs rule: induct_list012)
  case 1
  show ?case using assms by simp
next
  case (2 x)
  show ?case using assms by simp
qed auto

lemma render_words_lexed: "lexed ts \<Longrightarrow> render_words ts = concat ts"
proof (induction ts rule: induct_list012)
  case (3 t u ts)
  have "word_gap t u = []"
    using word_gap_lexed [OF "3.prems"] by (cases "starts_with_delimiter t") (auto simp: word_gap_def)
  with "3.IH"(2) lexed_tl [OF "3.prems"] show ?case by simp
qed simp_all

lemma render_empty: "render_sentences (replicate n []) = []"
proof (induction n)
  case (Suc n)
  then show ?case by (cases n) (simp_all add: sentence_gap_def)
qed simp

lemma render_slots: "render_sentences (s # replicate n []) = render_words s @ (if n = 0 then [] else sentence_gap s [])"
  using render_empty [of n] by (cases n) simp_all

text \<open>The tokens written to the copy: one space more after the last delimiter, and one at the end.\<close>

definition gap_after :: "string \<Rightarrow> string list" where
  "gap_after t = (if should_skip_for_indexing t then [] else ['' ''])"

lemma sentence_gap_end: "ts \<noteq> [] \<Longrightarrow> sentence_gap ts [] = concat (gap_after (last ts))"
  by (auto simp: sentence_gap_def gap_after_def should_skip_for_indexing_def)

lemma render_first_write:
  assumes "lexed ts" and "ts \<noteq> []"
  shows "render_sentences (insert_tokens [[]] 0 0 ts) =
    (case last_delimiter_idx ts of
       None \<Rightarrow> concat ts
     | Some d \<Rightarrow> concat (take (Suc d) ts @ (if Suc d = length ts then [] else gap_after (ts ! Suc d))
                @ drop (Suc d) ts @ gap_after (last ts)))"
proof (cases "last_delimiter_idx ts")
  case None
  then have "filter starts_with_delimiter ts = []"
    by (auto simp: last_delimiter_idx_def filter_empty_conv list_ex_iff split: if_splits)
  with None show ?thesis
    by (simp add: insert_tokens_def count_new_sentences_def render_words_lexed [OF assms(1)])
next
  case (Some d)
  note d = last_delimiter_Some [OF Some]
  have m: "length (filter starts_with_delimiter ts) \<noteq> 0"
    using d(1,2) by (auto simp: filter_empty_conv)
  let ?a = "take (Suc d) ts" and ?b = "drop (Suc d) ts"
  have ab: "lexed ?a" "lexed ?b" using assms(1) lexed_append [of ?a ?b] by simp_all
  show ?thesis
  proof (cases "Suc d = length ts")
    case True
    with Some m show ?thesis
      by (simp add: insert_tokens_def count_new_sentences_def Let_def render_slots render_words_lexed [OF assms(1)]
          sentence_gap_end [OF assms(2)])
  next
    case False
    then have b: "?b \<noteq> []" "hd ?b = ts ! Suc d" "last ?b = last ts" "last ?a = ts ! d" "?a \<noteq> []"
      using d(1) by (simp_all add: hd_drop_conv_nth last_drop take_Suc_conv_app_nth)
    have "\<not> should_skip_for_indexing (ts ! d)" using d(2) token_tests(2) [of "ts ! d"]
      by (auto simp: should_skip_for_indexing_def token_tests(1) is_newline_token_def)
    then have g: "sentence_gap ?a ?b = concat (gap_after (ts ! Suc d))"
      using b by (cases ?b) (auto simp: sentence_gap_def gap_after_def should_skip_for_indexing_def)
    have "render_sentences (?a # ?b # replicate n []) = concat ?a @ sentence_gap ?a ?b @ concat ?b @ sentence_gap ?b []" if "n \<noteq> 0" for n
      using that render_slots [of ?b n] by (simp add: render_words_lexed ab)
    moreover have "d < length ts - 1" using False d(1) by simp
    ultimately show ?thesis using False Some m
      by (simp add: insert_tokens_def count_new_sentences_def Let_def g sentence_gap_end [OF b(1)] b(3))
  qed
qed

text \<open>The same tokens as a list, and what parsing and writing them again makes of them.\<close>

definition first_tokens :: "string list \<Rightarrow> string list" where
  "first_tokens ts =
     (case last_delimiter_idx ts of
        None \<Rightarrow> ts
      | Some d \<Rightarrow> take (Suc d) ts @ (if Suc d = length ts then [] else gap_after (ts ! Suc d))
                 @ drop (Suc d) ts @ gap_after (last ts))"

lemma lexed_gap:
  assumes "lexed (xs @ ys)" and "xs \<noteq> []" and "starts_with_delimiter (last xs)" and "ys \<noteq> []"
  shows "lexed (xs @ gap_after (hd ys) @ ys)"
proof -
  have "\<not> blank_token (last xs)" "\<not> word_token (last xs)" using assms(3) token_tests(2,3) by blast+
  moreover have "\<not> should_skip_for_indexing (hd ys) \<Longrightarrow> \<not> blank_token (hd ys)" using token_tests(2) by blast
  ultimately show ?thesis using assms(1,2,4) by (auto simp: lexed_append gap_after_def)
qed

lemma lexed_end: "lexed xs \<Longrightarrow> xs \<noteq> [] \<Longrightarrow> lexed (xs @ gap_after (last xs))"
  using token_tests(2) [of "last xs"] by (auto simp: lexed_append gap_after_def)

lemma first_tokens_lexed:
  assumes "lexed ts"
  shows "lexed (first_tokens ts)" and "set (first_tokens ts) \<subseteq> insert '' '' (set ts)"
    and "concat (spaced (first_tokens ts)) =
      concat (spaced ts) @ (if last_delimiter_idx ts = None then [] else concat (gap_after (last ts)))"
proof -
  have "lexed (first_tokens ts) \<and> concat (spaced (first_tokens ts)) =
      concat (spaced ts) @ (if last_delimiter_idx ts = None then [] else concat (gap_after (last ts)))"
  proof (cases "last_delimiter_idx ts")
    case (Some d)
    note d = last_delimiter_Some [OF Some]
    let ?a = "take d ts" and ?b = "drop (Suc d) ts" and ?g = "if Suc d = length ts then [] else gap_after (ts ! Suc d)"
    have ts: "ts = ?a @ ts ! d # ?b" using d(1) by (simp add: id_take_nth_drop)
    have f: "first_tokens ts = (?a @ ts ! d # ?g @ ?b) @ gap_after (last ts)"
      using Some d(1) by (simp add: first_tokens_def take_Suc_conv_app_nth)
    have "lexed (?a @ ts ! d # ?g @ ?b) \<and> spaced (?a @ ts ! d # ?g @ ?b) = spaced ts
      \<and> last (?a @ ts ! d # ?g @ ?b) = last ts"
    proof (cases ?b)
      case Nil
      with ts assms d(1) show ?thesis by auto
    next
      case (Cons u us)
      then have u: "ts ! Suc d = u" "Suc d \<noteq> length ts" using d(1) by (auto simp: nth_via_drop)
      have "lexed ((?a @ [ts ! d]) @ gap_after (hd ?b) @ ?b)"
        using assms ts Cons d(2) by (intro lexed_gap) auto
      moreover have "spaced (?a @ ts ! d # gap_after u @ u # us) = spaced (?a @ ts ! d # u # us)"
        using spaced_between [OF d(2), of u ?a us] by (simp add: gap_after_def)
      moreover have "last ts = last (u # us)" using ts Cons by (metis last_appendR last_ConsR list.distinct(1))
      ultimately show ?thesis using u Cons ts by simp
    qed
    then show ?thesis
      using Some lexed_end [of "?a @ ts ! d # ?g @ ?b"] spaced_tail [of "?a @ ts ! d # ?g @ ?b"]
      by (auto simp: f gap_after_def)
  qed (simp add: first_tokens_def assms)
  then show "lexed (first_tokens ts)" "concat (spaced (first_tokens ts)) =
      concat (spaced ts) @ (if last_delimiter_idx ts = None then [] else concat (gap_after (last ts)))" by auto
  show "set (first_tokens ts) \<subseteq> insert '' '' (set ts)"
    by (auto simp: first_tokens_def gap_after_def split: option.splits if_splits dest: in_set_takeD in_set_dropD)
qed

lemma word_token_chars:
  assumes "word_token t"
  shows "\<not> list_ex is_delimiter t" and "\<not> should_skip_for_indexing t" and "\<not> is_blank (last t)" and "last t \<noteq> NL"
proof -
  have c: "is_word_char c" if "c \<in> set t" for c using assms that by (simp add: word_token_def list_all_iff)
  have "t \<noteq> []" using assms by (simp add: word_token_def)
  then have "is_word_char (last t)" using c by simp
  then show "\<not> is_blank (last t)" "last t \<noteq> NL" using char_classes(6,7) by blast+
  show "\<not> list_ex is_delimiter t" using c char_classes(8) by (auto simp: list_ex_iff)
  show "\<not> should_skip_for_indexing t" using token_tests(3) [OF assms] by (simp add: should_skip_for_indexing_def)
qed

lemma blank_token_chars:
  assumes "blank_token t"
  shows "\<not> list_ex is_delimiter t" and "is_blank (last t)"
proof -
  have c: "is_blank c" if "c \<in> set t" for c using assms that by (simp add: blank_token_def list_all_iff)
  show "\<not> list_ex is_delimiter t" using c char_classes(2) by (auto simp: list_ex_iff)
  show "is_blank (last t)" using c assms by (simp add: blank_token_def)
qed

lemma delimiter_token:
  assumes "lexed ts" and "t \<in> set ts"
  shows "list_ex is_delimiter t \<longleftrightarrow> starts_with_delimiter t"
    and "should_skip_for_indexing t \<longleftrightarrow> is_blank (last t) \<or> last t = NL"
proof -
  consider "blank_token t" | "word_token t" | c where "t = [c]" "c = NL \<or> is_delimiter c"
    using lexed_token [OF assms] by (auto simp: mark_token_def)
  then have "(list_ex is_delimiter t \<longleftrightarrow> starts_with_delimiter t)
    \<and> (should_skip_for_indexing t \<longleftrightarrow> is_blank (last t) \<or> last t = NL)"
  proof cases
    case 1
    then show ?thesis using token_tests(2) blank_token_chars by blast
  next
    case 2
    then show ?thesis using token_tests(3) word_token_chars by blast
  next
    case 3
    then show ?thesis
      by (simp add: should_skip_for_indexing_def token_tests(1) blank_token_def is_newline_token_def)
  qed
  then show "list_ex is_delimiter t \<longleftrightarrow> starts_with_delimiter t"
    "should_skip_for_indexing t \<longleftrightarrow> is_blank (last t) \<or> last t = NL" by auto
qed

lemma stored_text_tokens:
  assumes "bs \<noteq> []"
  shows "stored_text bs = concat (spaced (first_tokens (tokens bs)))"
proof -
  let ?ts = "tokens bs"
  have ne: "?ts \<noteq> []" using assms by simp
  have c: "concat ?ts = bs" by (rule concat_tokens)
  have l: "last ?ts \<noteq> []" using lexed_token [OF lexed_tokens last_in_set [OF ne]]
    by (auto simp: blank_token_def word_token_def mark_token_def)
  have "bs = concat (butlast ?ts) @ last ?ts" using c append_butlast_last_id [OF ne] by (metis concat_append concat.simps append_Nil2)
  with l have last: "last bs = last (last ?ts)" by (metis last_appendR)
  have "list_ex is_delimiter (concat ?ts) \<longleftrightarrow> list_ex (list_ex is_delimiter) ?ts" by (auto simp: list_ex_iff)
  then have "list_ex is_delimiter bs \<longleftrightarrow> list_ex starts_with_delimiter ?ts"
    using delimiter_token(1) [OF lexed_tokens] c by (auto simp: list_ex_iff)
  then have "list_ex is_delimiter bs \<longleftrightarrow> last_delimiter_idx ?ts \<noteq> None"
    by (simp add: last_delimiter_idx_def)
  then show ?thesis
    using first_tokens_lexed(3) [OF lexed_tokens, of bs] delimiter_token(2) [OF lexed_tokens last_in_set [OF ne]]
      normalise_spaced [OF lexed_tokens, of bs] c
    by (auto simp: stored_text_def gap_after_def last)
qed

text \<open>Writing a text to an empty copy and committing the copy.\<close>

lemma first_copy:
  assumes "clean bs" and "bs \<noteq> []"
  shows "render (parse_content (render_sentences (insert_tokens [[]] 0 0 (tokens bs)))) = stored_text bs"
    and "counted (parse_content (render_sentences (insert_tokens [[]] 0 0 (tokens bs)))) \<noteq> []"
proof -
  let ?us = "first_tokens (tokens bs)"
  have r: "render_sentences (insert_tokens [[]] 0 0 (tokens bs)) = concat ?us"
    using render_first_write [OF lexed_tokens, of bs] assms(2) by (simp add: first_tokens_def split: option.split)
  note l = first_tokens_lexed(1) [OF lexed_tokens, of bs]
  have c: "clean (concat ?us)"
    by (rule clean_concat [OF assms(1) l first_tokens_lexed(2) [OF lexed_tokens]])
  show "render (parse_content (render_sentences (insert_tokens [[]] 0 0 (tokens bs)))) = stored_text bs"
    unfolding r
    by (simp add: render_parse_aux [OF c] normalise_spaced [OF l] stored_text_tokens [OF assms(2)])
  have "?us \<noteq> []" using assms(2) by (auto simp: first_tokens_def split: option.split)
  then show "counted (parse_content (render_sentences (insert_tokens [[]] 0 0 (tokens bs)))) \<noteq> []"
    unfolding r by (simp add: counted_parse [OF c] tokens_concat [OF l])
qed

section \<open>The three requests\<close>

text \<open>
  Nobody edits the first sentence of the file, the paths of the copy and of the backup are other
  paths, all can be written, and the tables of sessions and queues have room.
\<close>

definition edit_ready :: "storage \<Rightarrow> string \<Rightarrow> string \<Rightarrow> bool" where
  "edit_ready s f u \<longleftrightarrow>
     (let p = file_path s f; tp = temp_path s f u 0 in
      can_write (ss_disk s) p \<and> can_write (ss_disk s) tp \<and> distinct [p, tp, undo_path p]
      \<and> holder (ss_locks s) f 0 = None \<and> length u < MAX_USERNAME
      \<and> (f, u, 0) \<notin> set (session_keys s) \<and> length (ss_sessions s) < MAX_CLIENTS * 10
      \<and> (\<exists>i qs. get_commit_queue f (ss_queues s) = Some (i, qs) \<and> cq_entries (qs ! i) = []))"

definition first_write_ready :: "storage \<Rightarrow> string \<Rightarrow> string \<Rightarrow> bool" where
  "first_write_ready s f u \<longleftrightarrow> edit_ready s f u \<and> content (ss_disk s) (file_path s f) = Some []"

definition first_session :: "time \<Rightarrow> storage \<Rightarrow> string \<Rightarrow> string \<Rightarrow> write_session" where
  "first_session now s f u =
     \<lparr>ws_filename = f, ws_username = u, ws_sentence_idx = 0, ws_temp_filepath = temp_path s f u 0,
      ws_original_count = 0, ws_lock_time = now\<rparr>"

lemma parse_empty: "parse_content [] = \<lparr>sentences = [[]], sentence_count = 0\<rparr>"
  by code_simp

lemma writable_read: "can_write d p \<Longrightarrow> content d p = Some bs \<Longrightarrow> read_all d p = Some bs"
  by (simp add: can_write_def read_all_def)

lemma file_path_cong: "ss_path s' = ss_path s \<Longrightarrow> file_path s' f = file_path s f"
  by (simp add: file_path_def)

lemma can_write_cong: "dk_dirs d' = dk_dirs d \<Longrightarrow> dk_blocked d' = dk_blocked d \<Longrightarrow> can_write d' p = can_write d p"
  by (simp add: can_write_def)

lemma lock_empty_file:
  assumes "first_write_ready s f u"
  obtains t d where "lock_request_ss now f 0 u s =
        (SUCCESS, s\<lparr>ss_locks := t, ss_sessions := ss_sessions s @ [first_session now s f u], ss_disk := d\<rparr>)"
    and "holder t f 0 = Some u"
    and "\<And>q. content d q = (if q = temp_path s f u 0 then Some [] else content (ss_disk s) q)"
    and "dk_dirs d = dk_dirs (ss_disk s)" and "dk_blocked d = dk_blocked (ss_disk s)"
proof -
  let ?p = "file_path s f" and ?tp = "temp_path s f u 0"
  have h: "content (ss_disk s) ?p = Some []" "can_write (ss_disk s) ?p" "can_write (ss_disk s) ?tp" "?p \<noteq> ?tp"
    "holder (ss_locks s) f 0 = None" "length u < MAX_USERNAME" "(f, u, 0) \<notin> set (session_keys s)"
    "length (ss_sessions s) < MAX_CLIENTS * 10"
    using assms by (simp_all add: first_write_ready_def edit_ready_def Let_def)
  have pf: "parse_file (ss_disk s) ?p = Some (parse_content [])"
    using writable_read [OF h(2,1)] by (simp add: parse_file_def)
  have valid: "lock_index_valid s f 0"
    using pf by (simp add: lock_index_valid_def file_sentences_def parse_empty counted_def)
  obtain st t where l: "lock_sentence_ss now f 0 u (ss_locks s) = (st, t)" by (cases "lock_sentence_ss now f 0 u (ss_locks s)")
  have st: "st = 200" using locks.acquire_status [of 0 now f u "ss_locks s"] h(5) l by simp
  have held: "holder t f 0 = Some u" using locks.acquire_held [of 0 u now f "ss_locks s" f 0] h(5,6) l by simp
  obtain d where d: "copy_file now ?p ?tp (ss_disk s) = Copied d"
    using writable_read [OF h(2,1)] h(3) by (simp add: copy_file_def Let_def)
  have s1: "find_session f u 0 (s\<lparr>ss_locks := t\<rparr>) = None" using h(7) by (simp add: find_session_None)
  have paths: "file_path (s\<lparr>ss_locks := t\<rparr>) f = ?p" "temp_path (s\<lparr>ss_locks := t\<rparr>) f u 0 = ?tp"
    by (simp_all add: file_path_def temp_path_def)
  have "start_write_session_ss now f u 0 (s\<lparr>ss_locks := t\<rparr>) =
      (SUCCESS, s\<lparr>ss_locks := t, ss_sessions := ss_sessions s @ [first_session now s f u], ss_disk := d\<rparr>)"
    using s1 h(8) pf d
    by (simp add: start_write_session_ss_def get_write_session_def paths Let_def parse_empty first_session_def)
  then have "lock_request_ss now f 0 u s =
      (SUCCESS, s\<lparr>ss_locks := t, ss_sessions := ss_sessions s @ [first_session now s f u], ss_disk := d\<rparr>)"
    using valid l st by (simp add: lock_request_ss_def)
  then show ?thesis
    using that held copy_content [OF d h(1)] h(4) copy_frame(2,3) [OF d] by simp
qed

text \<open>The copy gets the text; the session is the last of the table.\<close>

lemma find_new_session:
  "(f, u, 0) \<notin> set (session_keys s) \<Longrightarrow> ss_sessions s' = ss_sessions s @ [first_session now s f u] \<Longrightarrow>
     find_session f u 0 s' = Some (length (ss_sessions s))"
  using find_session_None [of f u 0 s]
  by (simp add: find_session_def find_index_append session_is_def first_session_def)

lemma split_clean: "clean bs \<Longrightarrow> split_by_delimiters bs = Some (tokens bs)"
proof -
  assume c: "clean bs"
  have "map (take 127) (tokens bs) = tokens bs"
    using c by (intro map_idI) (auto simp: clean_def list_all_iff)
  then show ?thesis using c by (auto simp: split_by_delimiters_eq split_spec_def too_long_def clean_def list_all_iff list_ex_iff)
qed

lemma insert_first:
  assumes "clean bs" and "bs \<noteq> []"
  obtains fc' k where "insert_word_in_sentence empty_sentence_content 0 1 bs = Some (int k, fc')"
    and "render fc' = render_sentences (insert_tokens [[]] 0 0 (tokens bs))"
proof -
  let ?fc = empty_sentence_content
  have w: "wf_content ?fc" "sentence_count ?fc = 1" "sentences ?fc = [[]]"
    by (simp_all add: wf_content_def empty_sentence_content_def)
  have o: "counted (open_slot 0 ?fc) = [[]]" by (simp add: w open_slot_def counted_def)
  have "insert_position [] 1 = 0" by (simp add: insert_position_def)
  with insert_word_counted [OF w(1), of 0 "[]" 1 bs "tokens bs"] split_clean [OF assms(1)] assms(2)
  show ?thesis using that by (auto simp: w o render_def)
qed

lemma write_first:
  assumes "find_session f u 0 s = Some k" and "ws_temp_filepath (ss_sessions s ! k) = tp"
    and "content (ss_disk s) tp = Some []" and "can_write (ss_disk s) tp" and "clean bs" and "bs \<noteq> []"
  shows "write_file_ss now f u 0 1 bs s =
    Some (SUCCESS, s\<lparr>ss_disk := put_file now tp (render_sentences (insert_tokens [[]] 0 0 (tokens bs))) (ss_disk s)\<rparr>)"
proof -
  have "parse_file (ss_disk s) tp = Some (parse_content [])"
    using writable_read [OF assms(4,3)] by (simp add: parse_file_def)
  moreover obtain fc' k' where "insert_word_in_sentence empty_sentence_content 0 1 bs = Some (int k', fc')"
    "render fc' = render_sentences (insert_tokens [[]] 0 0 (tokens bs))"
    using insert_first [OF assms(5,6)] .
  ultimately show ?thesis
    using assms(1,2,4) by (simp add: write_file_ss_def Let_def parse_empty write_file_content_def empty_sentence_content_def)
qed

text \<open>Committing a copy to a file that is still empty replaces the file by the copy.\<close>

lemma set_times_blocked [simp]: "dk_blocked (set_times a m p d) = dk_blocked d"
  by (simp add: set_times_def)

lemma process_first:
  assumes "content d p = Some []" and "can_write d p" and "ce_temp_filepath e = tp" and "p \<noteq> tp"
    and "ce_sentence_idx e = 0" and "ce_original_count e = 0" and "read_all d tp = Some bs"
  obtains d' where "process_entry now p e d = Merged d'"
    and "\<And>q. content d' q = (if q = tp then None else if q = p then Some (render (parse_content bs)) else content d q)"
    and "dk_blocked d' = dk_blocked d"
proof -
  have "parse_file d p = Some (parse_content [])" using writable_read [OF assms(2,1)] by (simp add: parse_file_def)
  moreover have "parse_file d tp = Some (parse_content bs)" using assms(7) by (simp add: parse_file_def)
  ultimately show ?thesis
    using that assms
    by (simp add: process_entry_def Let_def parse_empty counted_def [of "\<lparr>sentences = [[]], sentence_count = 0\<rparr>"]
        write_file_content_def render_merged disk) (auto simp: render_def disk)
qed

lemma commit_first:
  assumes "find_session f u 0 s = Some k" and "ws_temp_filepath (ss_sessions s ! k) = tp"
    and "ws_original_count (ss_sessions s ! k) = 0"
    and "get_commit_queue f (ss_queues s) = Some (i, qs)" and "cq_entries (qs ! i) = []"
    and "p = file_path s f" and "content (ss_disk s) p = Some []" and "can_write (ss_disk s) p"
    and "can_write (ss_disk s) tp" and "distinct [p, tp, undo_path p]" and "content (ss_disk s) tp = Some bs"
  obtains s' where "commit_write_session_ss now f u 0 s = (SUCCESS, s')"
    and "\<And>q. q \<noteq> undo_path p \<Longrightarrow> content (ss_disk s') q =
      (if q = tp then None else if q = p then Some (render (parse_content bs)) else content (ss_disk s) q)"
    and "dk_blocked (ss_disk s') = dk_blocked (ss_disk s)"
proof -
  let ?w = "ss_sessions s ! k"
  let ?e = "\<lparr>ce_filename = f, ce_username = u, ce_sentence_idx = 0, ce_original_count = ws_original_count ?w,
      ce_temp_filepath = ws_temp_filepath ?w, ce_lock_time = ws_lock_time ?w\<rparr>"
  let ?qs = "qs[i := (qs ! i)\<lparr>cq_entries := [?e]\<rparr>]"
  let ?s1 = "s\<lparr>ss_queues := ?qs, ss_sessions := remove_nth k (ss_sessions s)\<rparr>"
  let ?d = "snd (create_undo_backup now p (ss_disk s))"
  note again = commit_queue_again [OF assms(4), of "[?e]"]
  have c: "content ?d p = Some []" "content ?d tp = Some bs"
    using assms(7,10,11) by (simp_all add: undo_backup_frame)
  have w: "can_write ?d p" "can_write ?d tp"
    using assms(8,9) by (simp_all add: can_write_def undo_backup_dirs)
  obtain d' where d': "process_entry now p ?e ?d = Merged d'"
    "\<And>q. content d' q = (if q = tp then None else if q = p then Some (render (parse_content bs)) else content ?d q)"
    "dk_blocked d' = dk_blocked ?d"
    by (rule process_first [of ?d p ?e tp bs now])
      (use c w assms(2,3,10) writable_read in simp_all)
  have f: "file_path ?s1 f = p" using assms(6) by (simp add: file_path_def)
  have "process_commit_queue now f ?s1 = (1, ?s1\<lparr>ss_queues := ?qs[i := (?qs ! i)\<lparr>cq_entries := []\<rparr>], ss_disk := d'\<rparr>)"
    using again d'(1) f by (simp add: process_commit_queue_def Let_def)
  moreover have "enqueue_commit f ?e (ss_queues s) = (0, ?qs)" using assms(4,5) by (simp add: enqueue_commit_def)
  ultimately have "commit_write_session_ss now f u 0 s =
      (SUCCESS, ?s1\<lparr>ss_queues := ?qs[i := (?qs ! i)\<lparr>cq_entries := []\<rparr>], ss_disk := d'\<rparr>)"
    using assms(1) by (simp add: commit_write_session_ss_def Let_def)
  then show ?thesis
    using that d'(2,3) by (simp add: undo_backup_frame undo_backup_dirs)
qed

lemma unlock_first:
  assumes "commit_write_session_ss now f u 0 s = (SUCCESS, s1)" and "holder (ss_locks s) f 0 = Some u"
  obtains t where "unlock_request_ss now f 0 u s = (SUCCESS, s1\<lparr>ss_locks := t\<rparr>)" and "holder t f 0 = None"
proof -
  have l: "ss_locks s1 = ss_locks s" by (rule commit_session_keys(2) [OF assms(1)])
  obtain st t where u: "unlock_sentence_ss f 0 u (ss_locks s1) = (st, t)" by (cases "unlock_sentence_ss f 0 u (ss_locks s1)")
  have "st = 200" using locks.release_status [of f 0 u "ss_locks s1"] assms(2) u l by simp
  moreover have "holder t f 0 = None" using locks.release_held [of f 0 u "ss_locks s1" f 0] assms(2) u l by simp
  ultimately show ?thesis using that assms(1) u by (simp add: unlock_request_ss_def)
qed

text \<open>The three requests one after the other.\<close>

lemma first_write_session:
  assumes "first_write_ready s f u" and "clean bs" and "bs \<noteq> []"
  shows "\<exists>s1 s2 s3. lock_request_ss t1 f 0 u s = (SUCCESS, s1)
       \<and> write_file_ss t2 f u 0 1 bs s1 = Some (SUCCESS, s2)
       \<and> unlock_request_ss t3 f 0 u s2 = (SUCCESS, s3)
       \<and> content (ss_disk s3) (file_path s f) = Some (stored_text bs) \<and> file_path s3 f = file_path s f
       \<and> dk_blocked (ss_disk s3) = dk_blocked (ss_disk s) \<and> content (ss_disk s3) (temp_path s f u 0) = None \<and> holder (ss_locks s3) f 0 = None"
proof -
  let ?p = "file_path s f" and ?tp = "temp_path s f u 0"
  have h: "content (ss_disk s) ?p = Some []" "can_write (ss_disk s) ?p" "can_write (ss_disk s) ?tp"
    "distinct [?p, ?tp, undo_path ?p]" "(f, u, 0) \<notin> set (session_keys s)"
    using assms(1) by (simp_all add: first_write_ready_def edit_ready_def Let_def)
  obtain i qs where q: "get_commit_queue f (ss_queues s) = Some (i, qs)" "cq_entries (qs ! i) = []"
    using assms(1) by (auto simp: first_write_ready_def edit_ready_def Let_def)
  obtain t d where l: "lock_request_ss t1 f 0 u s =
        (SUCCESS, s\<lparr>ss_locks := t, ss_sessions := ss_sessions s @ [first_session t1 s f u], ss_disk := d\<rparr>)"
    "holder t f 0 = Some u" "\<And>q. content d q = (if q = ?tp then Some [] else content (ss_disk s) q)"
    "dk_dirs d = dk_dirs (ss_disk s)" "dk_blocked d = dk_blocked (ss_disk s)"
    by (rule lock_empty_file [OF assms(1), of t1]) (rule that; assumption)
  define s1 where "s1 = s\<lparr>ss_locks := t, ss_sessions := ss_sessions s @ [first_session t1 s f u], ss_disk := d\<rparr>"
  let ?text = "render_sentences (insert_tokens [[]] 0 0 (tokens bs))"
  define s2 where "s2 = s1\<lparr>ss_disk := put_file t2 ?tp ?text d\<rparr>"
  have f1: "find_session f u 0 s1 = Some (length (ss_sessions s))"
    by (rule find_new_session [OF h(5), of _ t1]) (simp add: s1_def)
  have f2: "find_session f u 0 s2 = Some (length (ss_sessions s))"
    by (rule find_new_session [OF h(5), of _ t1]) (simp add: s1_def s2_def)
  have wd: "can_write d p = can_write (ss_disk s) p" for p by (rule can_write_cong [OF l(4,5)])
  have w1: "write_file_ss t2 f u 0 1 bs s1 = Some (SUCCESS, s2)"
    using write_first [OF f1, of ?tp bs t2] l(3) h(3) assms(2,3)
    by (simp add: s1_def s2_def first_session_def wd)
  have p: "?p = file_path s2 f" by (simp add: s1_def s2_def file_path_def)
  have c2: "content (ss_disk s2) ?p = Some []" "content (ss_disk s2) ?tp = Some ?text"
    using h(1,4) l(3) by (simp_all add: s2_def disk)
  have w2: "can_write (ss_disk s2) p = can_write (ss_disk s) p" for p
    using wd by (simp add: s2_def can_write_def disk)
  have ws: "ws_temp_filepath (ss_sessions s2 ! length (ss_sessions s)) = ?tp"
    "ws_original_count (ss_sessions s2 ! length (ss_sessions s)) = 0"
    by (simp_all add: s1_def s2_def first_session_def)
  have q2: "get_commit_queue f (ss_queues s2) = Some (i, qs)" using q(1) by (simp add: s1_def s2_def)
  obtain s' where c: "commit_write_session_ss t3 f u 0 s2 = (SUCCESS, s')"
    "\<And>q. q \<noteq> undo_path ?p \<Longrightarrow> content (ss_disk s') q =
      (if q = ?tp then None else if q = ?p then Some (render (parse_content ?text)) else content (ss_disk s2) q)"
    "dk_blocked (ss_disk s') = dk_blocked (ss_disk s2)"
    using commit_first [OF f2 ws q2 q(2) p c2(1) _ _ h(4) c2(2), of t3] h(2,3) w2 by auto
  have h2: "holder (ss_locks s2) f 0 = Some u" using l(2) by (simp add: s1_def s2_def)
  obtain t' where u: "unlock_request_ss t3 f 0 u s2 = (SUCCESS, s'\<lparr>ss_locks := t'\<rparr>)" "holder t' f 0 = None"
    using unlock_first [OF c(1) h2] .
  have "ss_path s' = ss_path s2"
    using c(1) by (auto simp: commit_write_session_ss_def process_commit_queue_def Let_def split_beta remove_write_session_def
        split: option.splits if_splits)
  then have "file_path (s'\<lparr>ss_locks := t'\<rparr>) f = ?p" unfolding p by (simp add: file_path_def)
  moreover have "dk_blocked (ss_disk s') = dk_blocked (ss_disk s)" using c(3) l(5) by (simp add: s2_def disk)
  ultimately show ?thesis using u c(2) h(4) first_copy(1) [OF assms(2,3)] l(1) w1
    by (intro exI [of _ s1] exI [of _ s2] exI [of _ "s'\<lparr>ss_locks := t'\<rparr>"]) (simp add: s1_def)
qed

text \<open>Before that, the file is created.\<close>

lemma create_then_ready:
  assumes "edit_ready s f u" and "content (ss_disk s) (file_path s f) = None"
  shows "\<exists>s'. create_file_ss now f s = (SUCCESS, s') \<and> first_write_ready s' f u"
proof -
  let ?p = "file_path s f"
  let ?s = "s\<lparr>ss_disk := put_file now ?p [] (ss_disk s), ss_locks := init_file_locks f 1 (ss_locks s)\<rparr>"
  have w: "can_write (ss_disk s) ?p" using assms(1) by (simp add: edit_ready_def Let_def)
  then have "create_file_ss now f s = (SUCCESS, ?s)"
    using assms(2) by (simp add: create_file_ss_def Let_def exists_content can_write_def)
  moreover have "file_path ?s f = ?p" "temp_path ?s f u 0 = temp_path s f u 0" by (simp_all add: file_path_def temp_path_def)
  then have "first_write_ready ?s f u"
    using assms(1) by (simp add: first_write_ready_def edit_ready_def Let_def disk holder_init can_write_def)
  ultimately show ?thesis by blast
qed

end
