(* ===== verification/NameServer.thy ===== *)
theory NameServer
  imports TrieIndex LruCache "HOL-Library.Monad_Syntax"
begin

text \<open>
  \<open>nm.c\<close>, first half: the state of the name server and what does not come from a client's
  request. The registry of users and their sessions, the list of connected clients, the storage
  servers with their registration and heartbeats, and the lookup of the server of a file through
  the cache. The mutexes make every operation one step; sockets are the numbers the code keeps.
\<close>

definition HEARTBEAT_TIMEOUT :: int where [simp]: "HEARTBEAT_TIMEOUT = 15"

section \<open>State\<close>

record storage_server_info =
  si_id :: int
  si_ip :: string
  si_nm_port :: int
  si_client_port :: int
  si_sock :: int
  si_hb_sock :: int
  si_active :: bool
  si_last_heartbeat :: time
  si_files :: "string list"

record client_info =
  ci_username :: string
  ci_ip :: string
  ci_sock :: int
  ci_connected :: time

record access_request =
  ar_username :: string
  ar_filename :: string
  ar_requested_access :: int
  ar_request_time :: time

record registered_user =
  ru_username :: string
  ru_first_registered :: time
  ru_last_seen :: time
  ru_active_session :: bool
  ru_client_sock :: int

text \<open>
  An array with its counter is a list, but for \<open>client_list\<close>: the code reads it beyond
  \<open>client_count\<close>, so it is the whole array.
\<close>

record name_server =
  nm_file_trie :: file_trie
  nm_folder_trie :: folder_trie
  nm_cache :: lru_cache
  nm_ss_list :: "storage_server_info list"
  nm_next_ss_id :: nat
  nm_registered_users :: "registered_user list"
  nm_client_list :: "client_info list"
  nm_client_count :: nat
  nm_access_requests :: "access_request list"

definition blank_client :: client_info where
  "blank_client = \<lparr>ci_username = [], ci_ip = [], ci_sock = 0, ci_connected = 0\<rparr>"

definition init_name_server :: name_server where
  "init_name_server =
     \<lparr>nm_file_trie = init_trie, nm_folder_trie = init_folder_trie, nm_cache = init_cache CACHE_SIZE,
      nm_ss_list = [], nm_next_ss_id = 0, nm_registered_users = [],
      nm_client_list = replicate MAX_CLIENTS blank_client, nm_client_count = 0,
      nm_access_requests = []\<rparr>"

section \<open>Users\<close>

definition find_user :: "string \<Rightarrow> name_server \<Rightarrow> nat option" where
  "find_user username nm = find_index (\<lambda>u. ru_username u = username) (nm_registered_users nm)"

text \<open>The first component is \<open>*is_duplicate\<close>.\<close>

definition register_user_persistent :: "time \<Rightarrow> string \<Rightarrow> int \<Rightarrow> name_server \<Rightarrow> bool \<times> name_server" where
  "register_user_persistent now username client_sock nm =
     (let users = nm_registered_users nm in
      case find_user username nm of
        Some i \<Rightarrow>
          if ru_active_session (users ! i) then (True, nm)
          else (False, nm\<lparr>nm_registered_users := users[i := (users ! i)
                  \<lparr>ru_last_seen := now, ru_active_session := True, ru_client_sock := client_sock\<rparr>]\<rparr>)
      | None \<Rightarrow>
          if length users < MAX_CLIENTS * 10 then
            (False, nm\<lparr>nm_registered_users := users @
               [\<lparr>ru_username = username, ru_first_registered = now, ru_last_seen = now,
                 ru_active_session = True, ru_client_sock = client_sock\<rparr>]\<rparr>)
          else (True, nm))"

definition deregister_active_session :: "time \<Rightarrow> string \<Rightarrow> int \<Rightarrow> name_server \<Rightarrow> name_server" where
  "deregister_active_session now username client_sock nm =
     (let users = nm_registered_users nm in
      case find_user username nm of
        Some i \<Rightarrow>
          if ru_client_sock (users ! i) = client_sock then
            nm\<lparr>nm_registered_users := users[i := (users ! i)
                 \<lparr>ru_active_session := False, ru_client_sock := -1, ru_last_seen := now\<rparr>]\<rparr>
          else nm
      | None \<Rightarrow> nm)"

definition user_exists :: "string \<Rightarrow> name_server \<Rightarrow> bool" where
  "user_exists username nm \<longleftrightarrow> find_user username nm \<noteq> None"

text \<open>
  A client's connection, from its first message to the loop that serves it: the index its thread
  remembers, or \<open>None\<close> when the connection is closed.
\<close>

definition client_connects :: "time \<Rightarrow> int \<Rightarrow> message \<Rightarrow> name_server \<Rightarrow> nat option \<times> name_server" where
  "client_connects now client_sock msg nm =
     (if msg_type msg \<noteq> type_code MSG_REG_CLIENT then (None, nm)
      else
        let (is_duplicate, nm1) = register_user_persistent now (msg_sender msg) client_sock nm in
        if is_duplicate then (None, nm1)
        else if nm_client_count nm1 \<ge> MAX_CLIENTS then
          (None, deregister_active_session now (msg_sender msg) client_sock nm1)
        else
          let idx = nm_client_count nm1 in
          (Some idx, nm1\<lparr>nm_client_list := (nm_client_list nm1)[idx :=
               \<lparr>ci_username = msg_sender msg, ci_ip = msg_data msg, ci_sock = client_sock,
                ci_connected = now\<rparr>],
             nm_client_count := idx + 1\<rparr>))"

text \<open>\<open>for (j = i; j < n - 1; j++) a[j] = a[j + 1]\<close>: the slot \<open>n - 1\<close> keeps its old value.\<close>

definition shift_down :: "nat \<Rightarrow> nat \<Rightarrow> 'a list \<Rightarrow> 'a list" where
  "shift_down i n a = take i a @ drop (Suc i) (take n a) @ drop (n - 1) a"

text \<open>The end of the connection: the name is read from the remembered index.\<close>

definition client_disconnects :: "time \<Rightarrow> int \<Rightarrow> nat \<Rightarrow> name_server \<Rightarrow> name_server" where
  "client_disconnects now client_sock idx nm =
     (let username = ci_username (nm_client_list nm ! idx);
          nm1 = (case find_index (\<lambda>c. ci_sock c = client_sock) (take (nm_client_count nm) (nm_client_list nm)) of
                   None \<Rightarrow> nm
                 | Some i \<Rightarrow> nm\<lparr>nm_client_list := shift_down i (nm_client_count nm) (nm_client_list nm),
                                nm_client_count := nm_client_count nm - 1\<rparr>)
      in deregister_active_session now username client_sock nm1)"

section \<open>Storage servers\<close>

definition server_index :: "int \<Rightarrow> name_server \<Rightarrow> nat option" where
  "server_index ss_id nm = find_index (\<lambda>i. si_id i = ss_id) (nm_ss_list nm)"

definition active_server_index :: "int \<Rightarrow> name_server \<Rightarrow> nat option" where
  "active_server_index ss_id nm = find_index (\<lambda>i. si_id i = ss_id \<and> si_active i) (nm_ss_list nm)"

definition get_next_ss_round_robin :: "name_server \<Rightarrow> int \<times> name_server" where
  "get_next_ss_round_robin nm =
     (let servers = nm_ss_list nm in
      if servers = [] then (-1, nm)
      else (si_id (servers ! (nm_next_ss_id nm mod length servers)),
            nm\<lparr>nm_next_ss_id := nm_next_ss_id nm + 1\<rparr>))"

text \<open>One turn of the loop over the names a storage server registers.\<close>

definition register_file :: "time \<Rightarrow> int \<Rightarrow> string \<Rightarrow> file_trie \<Rightarrow> file_trie" where
  "register_file now ss_id token t =
     (case trie_search t token of
        Some existing \<Rightarrow> snd (trie_update token (existing\<lparr>fm_ss_id := ss_id\<rparr>) t)
      | None \<Rightarrow> snd (trie_insert token
          (blank_metadata\<lparr>fm_filename := token, fm_ss_id := ss_id, fm_owner := ''system'',
             fm_created := now, fm_modified := now, fm_accessed := now\<rparr>) t))"

text \<open>The first half of \<open>handle_ss_connection\<close>; \<open>None\<close> when the connection is closed.\<close>

definition register_ss :: "time \<Rightarrow> int \<Rightarrow> message \<Rightarrow> name_server \<Rightarrow> name_server option" where
  "register_ss now ss_sock msg nm =
     (let existing = server_index (msg_ss_id msg) nm;
          servers = nm_ss_list nm;
          names = take MAX_FILES (strtok (CHR '','') (msg_data msg));
          entry = \<lparr>si_id = msg_ss_id msg, si_ip = msg_sender msg, si_nm_port = msg_nm_port msg,
                   si_client_port = msg_client_port msg, si_sock = ss_sock, si_hb_sock = -1,
                   si_active = True, si_last_heartbeat = now, si_files = names\<rparr>
      in if msg_type msg \<noteq> type_code MSG_REG_SS then None
         else if existing = None \<and> length servers \<ge> MAX_SS then None
         else Some (nm\<lparr>nm_ss_list := (case existing of Some i \<Rightarrow> servers[i := entry] | None \<Rightarrow> servers @ [entry]),
                       nm_file_trie := fold (register_file now (msg_ss_id msg)) names (nm_file_trie nm)\<rparr>))"

definition update_server :: "int \<Rightarrow> (storage_server_info \<Rightarrow> storage_server_info) \<Rightarrow> name_server \<Rightarrow> name_server" where
  "update_server ss_id f nm =
     (case server_index ss_id nm of
        None \<Rightarrow> nm
      | Some i \<Rightarrow> nm\<lparr>nm_ss_list := (nm_ss_list nm)[i := f (nm_ss_list nm ! i)]\<rparr>)"

text \<open>\<open>handle_ss_heartbeat\<close>: the first message, the later ones, and the end of the connection.\<close>

definition heartbeat_connects :: "time \<Rightarrow> int \<Rightarrow> message \<Rightarrow> name_server \<Rightarrow> name_server" where
  "heartbeat_connects now hb_sock msg nm =
     (if msg_type msg \<noteq> type_code MSG_ACK then nm
      else update_server (msg_ss_id msg) (\<lambda>i. i\<lparr>si_hb_sock := hb_sock, si_last_heartbeat := now\<rparr>) nm)"

definition heartbeat_received :: "time \<Rightarrow> int \<Rightarrow> message \<Rightarrow> name_server \<Rightarrow> name_server" where
  "heartbeat_received now my_ss_id msg nm =
     (if msg_type msg = type_code MSG_ACK \<and> msg_data msg = ''HEARTBEAT'' then
        update_server my_ss_id (\<lambda>i. i\<lparr>si_last_heartbeat := now\<rparr>) nm
      else nm)"

definition heartbeat_lost :: "int \<Rightarrow> name_server \<Rightarrow> name_server" where
  "heartbeat_lost my_ss_id nm = update_server my_ss_id (\<lambda>i. i\<lparr>si_hb_sock := -1, si_active := False\<rparr>) nm"

text \<open>One round of \<open>heartbeat_monitor\<close>.\<close>

definition monitor_server :: "time \<Rightarrow> storage_server_info \<Rightarrow> storage_server_info" where
  "monitor_server now i =
     (let idle = now - si_last_heartbeat i; timeout = (if idle < 60 then 60 else HEARTBEAT_TIMEOUT) in
      if si_active i \<and> idle > timeout then i\<lparr>si_active := False, si_hb_sock := (if si_hb_sock i \<ge> 0 then -1 else si_hb_sock i)\<rparr>
      else i)"

definition heartbeat_monitor :: "time \<Rightarrow> name_server \<Rightarrow> name_server" where
  "heartbeat_monitor now nm = nm\<lparr>nm_ss_list := map (monitor_server now) (nm_ss_list nm)\<rparr>"

section \<open>Lookup and permissions\<close>

text \<open>
  The storage server of a file, or -1. \<open>None\<close> means that the call does not return: the loops of
  the cache can run forever.
\<close>

definition find_ss_for_file :: "string \<Rightarrow> name_server \<Rightarrow> (int \<times> name_server) option" where
  "find_ss_for_file filename nm = do {
     (cached, cache1) \<leftarrow> cache_get (nm_cache nm) filename;
     case cached of
       Some meta \<Rightarrow> Some (fm_ss_id meta, nm\<lparr>nm_cache := cache1\<rparr>)
     | None \<Rightarrow>
         (case trie_search (nm_file_trie nm) filename of
            None \<Rightarrow> Some (-1, nm\<lparr>nm_cache := cache1\<rparr>)
          | Some meta \<Rightarrow> do {
              cache2 \<leftarrow> cache_put cache1 filename meta;
              Some (fm_ss_id meta, nm\<lparr>nm_cache := cache2\<rparr>) })
   }"

definition acl_grants :: "int \<Rightarrow> int \<Rightarrow> bool" where
  "acl_grants required access \<longleftrightarrow>
     required = ACCESS_READ \<and> (access = ACCESS_READ \<or> access = ACCESS_READWRITE)
     \<or> required = ACCESS_WRITE \<and> access = ACCESS_READWRITE"

definition check_access :: "string \<Rightarrow> string \<Rightarrow> int \<Rightarrow> name_server \<Rightarrow> bool" where
  "check_access filename username required nm =
     (case trie_search (nm_file_trie nm) filename of
        None \<Rightarrow> False
      | Some meta \<Rightarrow>
          fm_owner meta = username \<or>
          (case find_index (\<lambda>a. acl_username a = username) (fm_acl meta) of
             Some i \<Rightarrow> acl_grants required (acl_access (fm_acl meta ! i))
           | None \<Rightarrow> False))"

section \<open>The contract of the session registry\<close>

text \<open>The socket of the session a user has, if there is one.\<close>

definition session_of :: "string \<Rightarrow> name_server \<Rightarrow> int option" where
  "session_of u nm =
     (case find_user u nm of
        None \<Rightarrow> None
      | Some i \<Rightarrow> if ru_active_session (nm_registered_users nm ! i)
                  then Some (ru_client_sock (nm_registered_users nm ! i)) else None)"

lemma session_cong: "nm_registered_users nm' = nm_registered_users nm \<Longrightarrow> session_of v nm' = session_of v nm"
  by (simp add: session_of_def find_user_def split: option.split)

locale session_registry =
  fixes session :: "'u \<Rightarrow> 's \<Rightarrow> 'sock option"
    and login :: "'u \<Rightarrow> 'sock \<Rightarrow> 's \<Rightarrow> bool \<times> 's"
    and logout :: "'u \<Rightarrow> 'sock \<Rightarrow> 's \<Rightarrow> 's"
  assumes login_busy: "session u s \<noteq> None \<Longrightarrow> login u k s = (True, s)"
    and login_session: "login u k s = (refused, s') \<Longrightarrow>
          session v s' = (if v = u \<and> \<not> refused then Some k else session v s)"
    and logout_session: "session v (logout u k s) = (if v = u \<and> session u s = Some k then None else session v s)"
begin

text \<open>Whoever holds a session keeps it until its own socket logs out; meanwhile no login succeeds.\<close>

fun run :: "('u \<times> 'sock \<times> bool) list \<Rightarrow> 's \<Rightarrow> 's" where
  "run [] s = s"
| "run ((u, k, True) # es) s = run es (snd (login u k s))"
| "run ((u, k, False) # es) s = run es (logout u k s)"

lemma session_kept:
  "session u s = Some k \<Longrightarrow> (u, k, False) \<notin> set es \<Longrightarrow> session u (run es s) = Some k"
proof (induction es arbitrary: s)
  case (Cons e es)
  obtain v j l where e: "e = (v, j, l)" by (cases e)
  show ?case
  proof (cases l)
    case True
    obtain refused s' where r: "login v j s = (refused, s')" by force
    have "session u s' = Some k"
      using login_session [OF r, of u] login_busy [of v s j] r Cons.prems(1) by (auto split: if_splits)
    with Cons e True r show ?thesis by simp
  next
    case False
    then have "session u (logout v j s) = Some k"
      using Cons.prems e logout_session [of u v j s] by auto
    with Cons e False show ?thesis by simp
  qed
qed simp

lemma second_login_refused:
  "session u s = Some k \<Longrightarrow> (u, k, False) \<notin> set es \<Longrightarrow> fst (login u j (run es s))"
  using session_kept [of u s k es] login_busy [of u "run es s" j] by simp

end

lemma find_index_update:
  assumes "find_index P xs = Some i" and "P y"
  shows "find_index P (xs[i := y]) = Some i"
  using assms by (auto simp: find_index_Some nth_list_update)

lemma find_index_update_other:
  assumes "i < length xs" and "\<not> P (xs ! i)" and "\<not> P y"
  shows "find_index P (xs[i := y]) = find_index P xs"
  using assms
proof (induction xs arbitrary: i)
  case (Cons x xs)
  then show ?case by (cases i) auto
qed simp

lemma user_updated:
  assumes "find_user u nm = Some i" and "ru_username new = u"
  shows "session_of v (nm\<lparr>nm_registered_users := (nm_registered_users nm)[i := new]\<rparr>) =
    (if v = u then if ru_active_session new then Some (ru_client_sock new) else None else session_of v nm)"
proof -
  let ?us = "nm_registered_users nm" and ?P = "\<lambda>v x. ru_username x = v"
  have i: "i < length ?us" "ru_username (?us ! i) = u"
    using assms(1) by (simp_all add: find_user_def find_index_Some)
  show ?thesis
  proof (cases "v = u")
    case True
    have "find_index (?P u) (?us[i := new]) = Some i"
      using find_index_update [of "?P u" ?us i new] assms by (simp add: find_user_def)
    with True i show ?thesis by (simp add: session_of_def find_user_def)
  next
    case False
    have f: "find_index (?P v) (?us[i := new]) = find_index (?P v) ?us"
      using find_index_update_other [of i ?us "?P v" new] i assms(2) False by auto
    have "?us[i := new] ! j = ?us ! j" if "find_index (?P v) ?us = Some j" for j
      using that i(2) False by (cases "j = i") (auto simp: find_index_Some)
    with False show ?thesis by (auto simp: session_of_def find_user_def f split: option.splits)
  qed
qed

lemma user_added:
  assumes "find_user u nm = None" and "ru_username new = u"
  shows "session_of v (nm\<lparr>nm_registered_users := nm_registered_users nm @ [new]\<rparr>) =
    (if v = u then if ru_active_session new then Some (ru_client_sock new) else None else session_of v nm)"
  using assms
  by (auto simp: session_of_def find_user_def find_index_append nth_append find_index_bound split: option.splits)

lemma register_busy:
  "session_of u nm \<noteq> None \<Longrightarrow> register_user_persistent now u k nm = (True, nm)"
  by (auto simp: session_of_def register_user_persistent_def split: option.splits if_splits)

lemma find_user_name: "find_user u nm = Some i \<Longrightarrow> ru_username (nm_registered_users nm ! i) = u"
  by (simp add: find_user_def find_index_Some)

lemma register_session:
  assumes "register_user_persistent now u k nm = (refused, nm')"
  shows "session_of v nm' = (if v = u \<and> \<not> refused then Some k else session_of v nm)"
  using assms user_updated [of u nm _ _ v] user_added [of u nm _ v]
  by (auto simp: register_user_persistent_def Let_def find_user_name split: option.splits if_splits)

lemma deregister_session:
  "session_of v (deregister_active_session now u k nm) =
    (if v = u \<and> session_of u nm = Some k then None else session_of v nm)"
proof (cases "find_user u nm")
  case None
  then show ?thesis by (simp add: deregister_active_session_def session_of_def)
next
  case (Some i)
  with user_updated [OF Some, of _ v] find_user_name [OF Some] show ?thesis
    by (auto simp: deregister_active_session_def Let_def session_of_def)
qed

interpretation sessions: session_registry session_of "register_user_persistent now" "deregister_active_session now" for now
  by unfold_locales (use register_busy register_session deregister_session in \<open>auto split: if_splits\<close>)

section \<open>Properties\<close>

text \<open>\<open>k\<close> calls of \<open>get_next_ss_round_robin\<close>, one after the other.\<close>

fun next_servers :: "nat \<Rightarrow> name_server \<Rightarrow> int list" where
  "next_servers 0 nm = []"
| "next_servers (Suc k) nm = (let (ss_id, nm') = get_next_ss_round_robin nm in ss_id # next_servers k nm')"

lemma next_servers_nth:
  assumes "nm_ss_list nm \<noteq> []"
  shows "next_servers k nm = map (\<lambda>i. si_id (nm_ss_list nm ! ((nm_next_ss_id nm + i) mod length (nm_ss_list nm)))) [0..<k]"
  using assms
proof (induction k arbitrary: nm)
  case (Suc k)
  let ?nm = "nm\<lparr>nm_next_ss_id := nm_next_ss_id nm + 1\<rparr>"
  have "next_servers (Suc k) nm = si_id (nm_ss_list nm ! (nm_next_ss_id nm mod length (nm_ss_list nm))) # next_servers k ?nm"
    using Suc.prems by (simp add: get_next_ss_round_robin_def Let_def)
  with Suc.IH [of ?nm] Suc.prems show ?case by (simp add: map_upt_Suc del: upt_Suc)
qed simp

text \<open>
  Round robin is fair: as many calls as there are storage servers return every server once, in
  the order of registration from the server whose turn it is, whatever came before.
\<close>

lemma round_robin_fair:
  "next_servers (length (nm_ss_list nm)) nm = rotate (nm_next_ss_id nm) (map si_id (nm_ss_list nm))"
proof (cases "nm_ss_list nm = []")
  case False
  note eq = next_servers_nth [OF False]
  show ?thesis
  proof (rule nth_equalityI)
    show "length (next_servers (length (nm_ss_list nm)) nm) = length (rotate (nm_next_ss_id nm) (map si_id (nm_ss_list nm)))"
      by (simp add: eq)
  next
    fix i
    assume "i < length (next_servers (length (nm_ss_list nm)) nm)"
    then have i: "i < length (nm_ss_list nm)" by (simp add: eq)
    then have "(nm_next_ss_id nm + i) mod length (nm_ss_list nm) < length (nm_ss_list nm)"
      using False by (intro mod_less_divisor) simp
    with i show "next_servers (length (nm_ss_list nm)) nm ! i = rotate (nm_next_ss_id nm) (map si_id (nm_ss_list nm)) ! i"
      unfolding eq by (subst nth_rotate) (simp_all add: add.commute)
  qed
qed simp

text \<open>
  A round of the monitor takes out of service exactly the servers whose last heartbeat is 60
  seconds old or older: the grace period hides the constant \<open>HEARTBEAT_TIMEOUT\<close>.
\<close>

lemma monitor_timeout:
  "map si_id (filter si_active (nm_ss_list (heartbeat_monitor now nm))) =
     map si_id (filter (\<lambda>i. si_active i \<and> now - si_last_heartbeat i < 60) (nm_ss_list nm))"
proof -
  have "si_active (monitor_server now i) \<longleftrightarrow> si_active i \<and> now - si_last_heartbeat i < 60"
    "si_id (monitor_server now i) = si_id i" for i
    by (auto simp: monitor_server_def Let_def)
  then show ?thesis by (simp add: heartbeat_monitor_def filter_map comp_def)
qed

lemma search_update:
  "trie_search (snd (trie_update k m t)) k' = (if k' = k \<and> trie_search t k \<noteq> None then Some m else trie_search t k')"
proof (cases "trie_search t k = None")
  case False
  then have "ascii k" by (metis search_not_ascii)
  with False show ?thesis by (simp add: update_present search_insert)
qed (simp add: update_absent)

definition coherent :: "(string \<times> file_metadata) list \<Rightarrow> file_trie \<Rightarrow> bool" where
  "coherent es t \<longleftrightarrow> (\<forall>(k, m) \<in> set es. \<exists>m'. trie_search t k = Some m' \<and> fm_ss_id m' = fm_ss_id m)"

definition home :: "string \<Rightarrow> file_trie \<Rightarrow> int" where
  "home f t = (case trie_search t f of None \<Rightarrow> -1 | Some m \<Rightarrow> fm_ss_id m)"

lemma coherent_store:
  "coherent es t \<Longrightarrow> trie_search t k = Some m \<Longrightarrow> coherent (lru_store k m es) t"
  by (auto simp: coherent_def lru_store_def drop_key_def)

lemma coherent_update:
  "coherent es t \<Longrightarrow> trie_search t k = Some m \<Longrightarrow> fm_ss_id m' = fm_ss_id m \<Longrightarrow>
     coherent (lru_store k m' es) (snd (trie_update k m' t))"
  by (auto simp: coherent_def lru_store_def drop_key_def search_update)

lemma coherent_touch: "coherent es t \<Longrightarrow> coherent (lru_touch k es) t"
  by (auto simp: coherent_def lru_touch_def drop_key_def split: option.splits dest: map_of_SomeD)

lemma cache_get_capacity: "cache_get c key = Some (r, c') \<Longrightarrow> lc_capacity c' = lc_capacity c"
  by (auto simp: cache_get_def bind_eq_Some_conv Let_def split: option.splits)

lemma find_ss_lookup:
  assumes "cache_rel (nm_cache nm) es" and "coherent es (nm_file_trie nm)" and "length f < MAX_FILENAME"
  shows "(if f \<in> fst ` set es \<or> length es < lc_capacity (nm_cache nm)
          then \<exists>nm' es'. find_ss_for_file f nm = Some (home f (nm_file_trie nm), nm')
                 \<and> nm_file_trie nm' = nm_file_trie nm
                 \<and> cache_rel (nm_cache nm') es' \<and> coherent es' (nm_file_trie nm')
                 \<and> (trie_search (nm_file_trie nm) f \<noteq> None \<longrightarrow> f \<in> fst ` set es')
          else find_ss_for_file f nm = None)"
proof (cases "f \<in> fst ` set es \<or> length es < lc_capacity (nm_cache nm)")
  case False
  with get_lru [OF assms(1), of f] show ?thesis by (simp add: find_ss_for_file_def)
next
  case True
  with get_lru [OF assms(1), of f] obtain c1 where
    g: "cache_get (nm_cache nm) f = Some (map_of es f, c1)" "cache_rel c1 (lru_touch f es)" by auto
  show ?thesis
  proof (cases "map_of es f")
    case (Some m)
    then have "home f (nm_file_trie nm) = fm_ss_id m"
      using assms(2) by (auto simp: coherent_def home_def dest!: map_of_SomeD)
    moreover have "f \<in> fst ` set (lru_touch f es)" using Some by (simp add: lru_touch_def)
    ultimately show ?thesis using True g Some coherent_touch [OF assms(2)]
      by (auto simp: find_ss_for_file_def intro!: exI [of _ "lru_touch f es"])
  next
    case None
    then have touch: "lru_touch f es = es" by (simp add: lru_touch_def)
    from None have absent: "f \<notin> fst ` set es" by (simp add: map_of_eq_None_iff)
    show ?thesis
    proof (cases "trie_search (nm_file_trie nm) f")
      case None
      with True g \<open>map_of es f = None\<close> touch assms(2) show ?thesis
        by (auto simp: find_ss_for_file_def home_def)
    next
      case (Some m)
      have "length es < lc_capacity c1" using True absent cache_get_capacity [OF g(1)] by simp
      with put_lru [OF g(2) [unfolded touch] assms(3), of m] obtain c2 where
        "cache_put c1 f m = Some c2" "cache_rel c2 (lru_store f m es)" by auto
      with True g Some \<open>map_of es f = None\<close> coherent_store [OF assms(2) Some] show ?thesis
        by (auto simp: find_ss_for_file_def home_def lru_store_def intro!: exI [of _ "lru_store f m es"])
    qed
  qed
qed

text \<open>
  C28. The lookup of a file's storage server, on a cache that holds the entries \<open>es\<close> and nothing
  but copies of the index: with room in the cache it returns what the index says (-1 for a file
  that does not exist) and the cache still holds copies only. When the cache is full and the file is
  not in it, the lookup never returns.
\<close>

theorem find_ss_correct:
  assumes "cache_rel (nm_cache nm) es" and "coherent es (nm_file_trie nm)" and "length f < MAX_FILENAME"
  shows "(if f \<in> fst ` set es \<or> length es < lc_capacity (nm_cache nm)
          then \<exists>nm' es'. find_ss_for_file f nm = Some (home f (nm_file_trie nm), nm')
                 \<and> nm_file_trie nm' = nm_file_trie nm
                 \<and> cache_rel (nm_cache nm') es' \<and> coherent es' (nm_file_trie nm')
          else find_ss_for_file f nm = None)"
  using find_ss_lookup [OF assms] by (auto split: if_splits)

theorem find_ss_correct_witness:
  "\<exists>nm'. find_ss_for_file ''a'' (init_name_server\<lparr>nm_file_trie := register_file 0 7 ''a'' init_trie\<rparr>) = Some (7, nm')"
proof -
  let ?t = "register_file 0 7 ''a'' init_trie" and ?nm = "init_name_server\<lparr>nm_file_trie := register_file 0 7 ''a'' init_trie\<rparr>"
  have r: "cache_rel (nm_cache ?nm) []" by (simp add: init_name_server_def init_cache_rel)
  have c: "coherent [] (nm_file_trie ?nm)" by (simp add: coherent_def)
  have l: "length ''a'' < MAX_FILENAME" by simp
  have k: "length ([] :: (string \<times> file_metadata) list) < lc_capacity (nm_cache ?nm)"
    by (simp add: init_name_server_def init_cache_def)
  have "byte_index CHR ''a'' < 128" by (simp add: byte_index_def)
  then have "home ''a'' ?t = 7"
    by (simp add: home_def register_file_def init_trie_def search_insert)
  with find_ss_correct [OF r c l] k show ?thesis by auto
qed

lemma search_register:
  "trie_search (register_file now ss_id token t) f =
    (if f = token \<and> ascii token
     then Some ((case trie_search t token of Some m \<Rightarrow> m
         | None \<Rightarrow> blank_metadata\<lparr>fm_filename := token, fm_owner := ''system'', fm_created := now, fm_modified := now, fm_accessed := now\<rparr>)
         \<lparr>fm_ss_id := ss_id\<rparr>)
     else trie_search t f)"
  using search_not_ascii [of token t]
  by (auto simp: register_file_def search_insert search_update split: option.splits)

lemma home_register: "home f (register_file now ss_id token t) = (if f = token \<and> ascii token then ss_id else home f t)"
  by (simp add: home_def search_register)

lemma home_register_all:
  "home f (fold (register_file now ss_id) names t) = (if f \<in> set names \<and> ascii f then ss_id else home f t)"
  by (induction names arbitrary: t) (auto simp: home_register)

text \<open>
  C38. A storage server that registers a file the cache holds changes the index but not the cache:
  the index names the new server, and lookups keep answering with the old one.
\<close>

theorem find_ss_stale:
  assumes "cache_rel (nm_cache nm) es" and "map_of es f = Some m"
    and "register_ss now sock msg nm = Some nm'"
    and "f \<in> set (take MAX_FILES (strtok (CHR '','') (msg_data msg)))" and "ascii f"
  shows "home f (nm_file_trie nm') = msg_ss_id msg \<and> (\<exists>nm2. find_ss_for_file f nm' = Some (fm_ss_id m, nm2))"
proof -
  have t: "nm_file_trie nm' = fold (register_file now (msg_ss_id msg)) (take MAX_FILES (strtok (CHR '','') (msg_data msg))) (nm_file_trie nm)"
    and c: "nm_cache nm' = nm_cache nm"
    using assms(3) by (auto simp: register_ss_def Let_def split: if_splits)
  have "f \<in> fst ` set es" using assms(2) by (force dest: map_of_SomeD)
  with get_lru [OF assms(1), of f] assms(2) obtain c1 where
    "cache_get (nm_cache nm) f = Some (Some m, c1)" by auto
  then have "find_ss_for_file f nm' = Some (fm_ss_id m, nm'\<lparr>nm_cache := c1\<rparr>)"
    by (simp add: find_ss_for_file_def c)
  moreover have "home f (nm_file_trie nm') = msg_ss_id msg"
    using assms(4,5) unfolding t home_register_all by simp
  ultimately show ?thesis by blast
qed

definition ss_message :: "int \<Rightarrow> string \<Rightarrow> message" where
  "ss_message ss_id files = init_message\<lparr>msg_type := type_code MSG_REG_SS, msg_ss_id := ss_id, msg_data := files\<rparr>"

theorem find_ss_stale_witness:
  "\<exists>nm nm' nm2. cache_put (init_cache CACHE_SIZE) ''az'' ((sample ''ann'')\<lparr>fm_ss_id := 1\<rparr>) = Some (nm_cache nm)
     \<and> register_ss 0 5 (ss_message 2 ''az'') nm = Some nm'
     \<and> home ''az'' (nm_file_trie nm') = 2 \<and> find_ss_for_file ''az'' nm' = Some (1, nm2)"
proof -
  let ?m = "(sample ''ann'')\<lparr>fm_ss_id := 1\<rparr>"
  obtain c where c: "cache_put (init_cache CACHE_SIZE) ''az'' ?m = Some c" and r: "cache_rel c [(''az'', ?m)]"
    using singleton_cache [of CACHE_SIZE ?m] by auto
  let ?nm = "init_name_server\<lparr>nm_cache := c\<rparr>"
  have toks: "strtok (CHR '','') ''az'' = [''az'']"
    unfolding strtok_def by (subst split_fields.simps, simp, subst split_fields.simps, simp)
  obtain nm' where reg: "register_ss 0 5 (ss_message 2 ''az'') ?nm = Some nm'"
    by (simp add: register_ss_def ss_message_def Let_def init_name_server_def server_index_def)
  have rel: "cache_rel (nm_cache ?nm) [(''az'', ?m)]" using r by simp
  have mem: "''az'' \<in> set (take MAX_FILES (strtok (CHR '','') (msg_data (ss_message 2 ''az''))))"
    by (simp add: ss_message_def toks)
  have asc: "ascii ''az''" by (simp add: byte_index_def)
  have "map_of [(''az'', ?m)] ''az'' = Some ?m" by simp
  from find_ss_stale [OF rel this reg mem asc] obtain nm2 where
    "home ''az'' (nm_file_trie nm') = 2" "find_ss_for_file ''az'' nm' = Some (1, nm2)"
    by (auto simp: ss_message_def)
  with c reg show ?thesis
    by - (rule exI [of _ ?nm], rule exI [of _ nm'], rule exI [of _ nm2], simp)
qed

section \<open>The end of a connection\<close>

lemma connect_Some:
  assumes "client_connects now k msg nm = (Some idx, nm')"
  shows "idx = nm_client_count nm" and "idx < MAX_CLIENTS" and "nm_client_count nm' = idx + 1"
    and "nm_client_list nm' = (nm_client_list nm)[idx :=
      \<lparr>ci_username = msg_sender msg, ci_ip = msg_data msg, ci_sock = k, ci_connected = now\<rparr>]"
    and "session_of (msg_sender msg) nm = None"
    and "session_of v nm' = (if v = msg_sender msg then Some k else session_of v nm)"
proof -
  obtain refused nm1 where r: "register_user_persistent now (msg_sender msg) k nm = (refused, nm1)" by force
  have frame: "nm_client_list nm1 = nm_client_list nm" "nm_client_count nm1 = nm_client_count nm"
    using r by (auto simp: register_user_persistent_def Let_def split: option.splits if_splits)
  from assms r have ok: "\<not> refused" "nm' = nm1\<lparr>nm_client_list := (nm_client_list nm1)[idx :=
      \<lparr>ci_username = msg_sender msg, ci_ip = msg_data msg, ci_sock = k, ci_connected = now\<rparr>], nm_client_count := idx + 1\<rparr>"
    "idx = nm_client_count nm1" "idx < MAX_CLIENTS"
    by (auto simp: client_connects_def Let_def split: if_splits)
  then show "idx = nm_client_count nm" "idx < MAX_CLIENTS" "nm_client_count nm' = idx + 1"
    "nm_client_list nm' = (nm_client_list nm)[idx :=
      \<lparr>ci_username = msg_sender msg, ci_ip = msg_data msg, ci_sock = k, ci_connected = now\<rparr>]"
    using frame by simp_all
  show "session_of (msg_sender msg) nm = None"
    using ok(1) r sessions.login_busy [of "msg_sender msg" nm now k]
    by (cases "session_of (msg_sender msg) nm") auto
  have "session_of v nm' = session_of v nm1" by (rule session_cong) (simp add: ok(2))
  with sessions.login_session [OF r, of v] ok(1)
  show "session_of v nm' = (if v = msg_sender msg then Some k else session_of v nm)" by auto
qed

lemma connect_busy: "session_of (msg_sender msg) nm \<noteq> None \<Longrightarrow> fst (client_connects now k msg nm) = None"
  using sessions.login_busy [of "msg_sender msg" nm now k] by (simp add: client_connects_def)

lemma disconnect_session:
  "session_of v (client_disconnects now k idx nm) =
    (let u = ci_username (nm_client_list nm ! idx)
     in if v = u \<and> session_of u nm = Some k then None else session_of v nm)"
proof -
  have s: "session_of w (nm\<lparr>nm_client_list := l, nm_client_count := n\<rparr>) = session_of w nm" for w l n
    by (rule session_cong) simp
  show ?thesis
    by (auto simp: client_disconnects_def Let_def sessions.logout_session s split: option.splits)
qed

lemma disconnect_list:
  assumes "find_index (\<lambda>c. ci_sock c = k) (take (nm_client_count nm) (nm_client_list nm)) = Some i"
  shows "nm_client_list (client_disconnects now k idx nm) = shift_down i (nm_client_count nm) (nm_client_list nm)"
  using assms by (auto simp: client_disconnects_def deregister_active_session_def Let_def split: option.splits)


definition login_message :: "string \<Rightarrow> message" where
  "login_message u = init_message\<lparr>msg_type := type_code MSG_REG_CLIENT, msg_sender := u\<rparr>"


end
