(* ===== verification/NameRequests.thy ===== *)
theory NameRequests
  imports NameServer
begin

text \<open>
  \<open>nm.c\<close>, second half: the handlers of a client's requests and the loop that dispatches them. A
  handler takes the clock, the request and the state, and gives the one message it sends back and
  the new state. Handlers that use the cache may not return (\<open>None\<close>). One request is one step here;
  the theory \<open>NameThreads\<close> cuts requests into the steps of a thread.
\<close>

section \<open>Outside the name server\<close>

text \<open>
  What the handlers use and the sources do not define: the storage servers behind their sockets
  (the result of \<open>recv_message\<close> after \<open>send_message\<close>, and what the response structure then
  holds), the shell behind \<open>popen\<close> (the bytes it prints, or that it cannot be started) and the
  local time. \<open>'w\<close> is the state of the world they act on.
\<close>

record 'w environment =
  env_rpc :: "int \<Rightarrow> message \<Rightarrow> 'w \<Rightarrow> int \<times> message \<times> 'w"
  env_shell :: "string \<Rightarrow> 'w \<Rightarrow> bytes option \<times> 'w"
  env_strftime :: "time \<Rightarrow> string"

definition server_rpc :: "'w environment \<Rightarrow> name_server \<Rightarrow> nat \<Rightarrow> message \<Rightarrow> 'w \<Rightarrow> int \<times> message \<times> 'w" where
  "server_rpc env nm i msg w = env_rpc env (si_sock (nm_ss_list nm ! i)) msg w"

definition reply :: "int \<Rightarrow> message" where
  "reply status = init_message\<lparr>msg_status := status\<rparr>"

text \<open>\<open>trie_update\<close> and \<open>cache_put\<close> of a changed entry.\<close>

definition store_metadata :: "string \<Rightarrow> file_metadata \<Rightarrow> name_server \<Rightarrow> name_server option" where
  "store_metadata filename meta nm = do {
     cache \<leftarrow> cache_put (nm_cache nm) filename meta;
     Some (nm\<lparr>nm_file_trie := snd (trie_update filename meta (nm_file_trie nm)), nm_cache := cache\<rparr>)
   }"

section \<open>Folders and moves\<close>

definition handle_createfolder ::
    "'w environment \<Rightarrow> time \<Rightarrow> message \<Rightarrow> name_server \<Rightarrow> 'w \<Rightarrow> message \<times> name_server \<times> 'w" where
  "handle_createfolder env now msg nm w =
     (let full_path = snprintf MAX_PATH (if msg_target_path msg \<noteq> [] then msg_target_path msg @ ''/'' @ msg_foldername msg
                                         else ''/'' @ msg_foldername msg)
      in if folder_trie_search (nm_folder_trie nm) full_path \<noteq> None then (reply ERR_FILE_EXISTS, nm, w)
         else
           let (ss_id, nm1) = get_next_ss_round_robin nm in
           if ss_id < 0 then (reply ERR_SS_UNAVAILABLE, nm1, w)
           else case active_server_index ss_id nm1 of
               None \<Rightarrow> (reply ERR_SS_UNAVAILABLE, nm1, w)
             | Some i \<Rightarrow>
                 let (_, ss_response, w1) = server_rpc env nm1 i
                       (init_message\<lparr>msg_type := type_code MSG_CREATEFOLDER, msg_foldername := msg_foldername msg,
                                     msg_target_path := full_path\<rparr>) w
                 in if msg_status ss_response = SUCCESS then
                      (reply SUCCESS,
                       nm1\<lparr>nm_folder_trie := snd (folder_trie_insert full_path
                         \<lparr>fd_foldername = msg_foldername msg, fd_parent_path = msg_target_path msg,
                          fd_owner = msg_sender msg, fd_created = now, fd_ss_id = ss_id, fd_acl = []\<rparr>
                         (nm_folder_trie nm1))\<rparr>, w1)
                    else (reply (msg_status ss_response), nm1, w1))"

definition is_root :: "string \<Rightarrow> bool" where
  "is_root path \<longleftrightarrow> path = [] \<or> path = ''/''"

definition handle_move ::
    "'w environment \<Rightarrow> message \<Rightarrow> name_server \<Rightarrow> 'w \<Rightarrow> (message \<times> name_server \<times> 'w) option" where
  "handle_move env msg nm w =
     (case trie_search (nm_file_trie nm) (msg_filename msg) of
        None \<Rightarrow> Some (reply ERR_FILE_NOT_FOUND, nm, w)
      | Some meta \<Rightarrow>
          if fm_owner meta \<noteq> msg_sender msg \<and> \<not> check_access (msg_filename msg) (msg_sender msg) ACCESS_WRITE nm
          then Some (reply ERR_ACCESS_DENIED, nm, w)
          else if \<not> is_root (msg_target_path msg) \<and> folder_trie_search (nm_folder_trie nm) (msg_target_path msg) = None
          then Some (reply ERR_FILE_NOT_FOUND, nm, w)
          else case active_server_index (fm_ss_id meta) nm of
              None \<Rightarrow> Some (reply ERR_SS_UNAVAILABLE, nm, w)
            | Some i \<Rightarrow>
                let (_, ss_response, w1) = server_rpc env nm i
                      (init_message\<lparr>msg_type := type_code MSG_MOVE, msg_filename := msg_filename msg,
                                    msg_target_path := msg_target_path msg, msg_data := fm_folder_path meta\<rparr>) w
                in if msg_status ss_response = SUCCESS then do {
                     nm1 \<leftarrow> store_metadata (msg_filename msg) (meta\<lparr>fm_folder_path := msg_target_path msg\<rparr>) nm;
                     Some (reply SUCCESS, nm1, w1) }
                   else Some (reply (msg_status ss_response), nm, w1))"

text \<open>
  The buffers the listings are printed to have 8192 bytes and the reply takes the first 8191 of
  them, so the reply is the text cut there. A longer text overruns the buffer in the code (every
  listing but \<open>handle_list\<close>); what that does to other memory is not modelled.
\<close>

definition reply_data :: "string \<Rightarrow> string" where
  "reply_data buffer = strncpy (MAX_BUFFER - 1) buffer"

definition handle_viewfolder :: "message \<Rightarrow> name_server \<Rightarrow> message" where
  "handle_viewfolder msg nm =
     (let viewing_root = is_root (msg_target_path msg); response = (reply SUCCESS)\<lparr>msg_type := type_code MSG_DATA\<rparr> in
      if \<not> viewing_root \<and> folder_trie_search (nm_folder_trie nm) (msg_target_path msg) = None
      then response\<lparr>msg_status := ERR_FILE_NOT_FOUND\<rparr>
      else
        let files = trie_get_all_files (nm_file_trie nm) MAX_FILES;
            shown = filter (\<lambda>f. (if viewing_root then fm_folder_path f = [] else fm_folder_path f = msg_target_path msg)
                        \<and> check_access (fm_filename f) (msg_sender msg) ACCESS_READ nm) files;
            buffer = concat (map (\<lambda>f. fm_filename f @ [CHR 0x0A]) shown)
        in response\<lparr>msg_data := reply_data (if buffer = [] then ''(empty folder)'' @ [CHR 0x0A] else buffer)\<rparr>)"

section \<open>Requests for access\<close>

definition handle_requestaccess :: "time \<Rightarrow> message \<Rightarrow> name_server \<Rightarrow> message \<times> name_server" where
  "handle_requestaccess now msg nm =
     (let f = msg_filename msg; u = msg_sender msg; reqs = nm_access_requests nm in
      if trie_search (nm_file_trie nm) f = None then (reply ERR_FILE_NOT_FOUND, nm)
      else if check_access f u (msg_access msg) nm then
        ((reply SUCCESS)\<lparr>msg_data := ''You already have this access''\<rparr>, nm)
      else if list_ex (\<lambda>r. ar_username r = u \<and> ar_filename r = f \<and> ar_requested_access r = msg_access msg) reqs then
        ((reply SUCCESS)\<lparr>msg_data := ''Request already pending''\<rparr>, nm)
      else if length reqs < MAX_FILES * 10 then
        (reply SUCCESS, nm\<lparr>nm_access_requests := reqs @
           [\<lparr>ar_username = u, ar_filename = f, ar_requested_access = msg_access msg, ar_request_time = now\<rparr>]\<rparr>)
      else ((reply ERR_SERVER_ERROR)\<lparr>msg_data := ''Request queue full''\<rparr>, nm))"

definition owned_by :: "string \<Rightarrow> string \<Rightarrow> name_server \<Rightarrow> bool" where
  "owned_by filename username nm =
     (case trie_search (nm_file_trie nm) filename of None \<Rightarrow> False | Some meta \<Rightarrow> fm_owner meta = username)"

definition request_line :: "'w environment \<Rightarrow> nat \<times> access_request \<Rightarrow> string" where
  "request_line env p =
     (case p of (i, r) \<Rightarrow>
        ''['' @ dec_int (int i) @ ''] User: '' @ ar_username r @ '', File: '' @ ar_filename r @ '', Access: '' @
        (if ar_requested_access r = ACCESS_READ then ''READ'' else ''WRITE'') @ '', Time: '' @
        env_strftime env (ar_request_time r) @ [CHR 0x0A])"

definition handle_viewrequests :: "'w environment \<Rightarrow> message \<Rightarrow> name_server \<Rightarrow> message" where
  "handle_viewrequests env msg nm =
     (let mine = filter (\<lambda>(i, r). owned_by (ar_filename r) (msg_sender msg) nm)
                   (enumerate 0 (nm_access_requests nm));
          buffer = (if mine = [] then ''No pending access requests for your files.'' @ [CHR 0x0A]
                    else concat (map (request_line env) mine))
      in (reply SUCCESS)\<lparr>msg_type := type_code MSG_DATA, msg_data := reply_data buffer\<rparr>)"

text \<open>The loop over the entries that \<open>handle_approverequest\<close> and \<open>handle_access\<close> share.\<close>

definition grant :: "string \<Rightarrow> int \<Rightarrow> acl_entry list \<Rightarrow> acl_entry list" where
  "grant username access acl =
     (case find_index (\<lambda>a. acl_username a = username) acl of
        Some i \<Rightarrow> acl[i := (acl ! i)\<lparr>acl_access := access\<rparr>]
      | None \<Rightarrow> if length acl < MAX_ACL_ENTRIES then acl @ [\<lparr>acl_username = username, acl_access = access\<rparr>] else acl)"

definition revoke :: "string \<Rightarrow> acl_entry list \<Rightarrow> acl_entry list" where
  "revoke username acl =
     (case find_index (\<lambda>a. acl_username a = username) acl of Some i \<Rightarrow> remove_nth i acl | None \<Rightarrow> acl)"

definition handle_approverequest :: "message \<Rightarrow> name_server \<Rightarrow> (message \<times> name_server) option" where
  "handle_approverequest msg nm =
     (let request_id = msg_sentence_index msg; reqs = nm_access_requests nm in
      if request_id < 0 \<or> request_id \<ge> int (length reqs) then Some (reply ERR_INVALID_INDEX, nm)
      else
        let req = reqs ! nat request_id in
        case trie_search (nm_file_trie nm) (ar_filename req) of
          None \<Rightarrow> Some (reply ERR_NOT_OWNER, nm)
        | Some meta \<Rightarrow>
            if fm_owner meta \<noteq> msg_sender msg then Some (reply ERR_NOT_OWNER, nm)
            else do {
              nm1 \<leftarrow> store_metadata (ar_filename req)
                 (meta\<lparr>fm_acl := grant (ar_username req) (ar_requested_access req) (fm_acl meta)\<rparr>) nm;
              Some (reply SUCCESS, nm1\<lparr>nm_access_requests := remove_nth (nat request_id) reqs\<rparr>) })"

definition handle_denyrequest :: "message \<Rightarrow> name_server \<Rightarrow> message \<times> name_server" where
  "handle_denyrequest msg nm =
     (let request_id = msg_sentence_index msg; reqs = nm_access_requests nm in
      if request_id < 0 \<or> request_id \<ge> int (length reqs) then (reply ERR_INVALID_INDEX, nm)
      else if \<not> owned_by (ar_filename (reqs ! nat request_id)) (msg_sender msg) nm then (reply ERR_NOT_OWNER, nm)
      else (reply SUCCESS, nm\<lparr>nm_access_requests := remove_nth (nat request_id) reqs\<rparr>))"

section \<open>Listings\<close>

definition handle_checkpoint_request ::
    "'w environment \<Rightarrow> message \<Rightarrow> name_server \<Rightarrow> 'w \<Rightarrow> (message \<times> name_server \<times> 'w) option" where
  "handle_checkpoint_request env msg nm w =
     (if \<not> check_access (msg_filename msg) (msg_sender msg) ACCESS_WRITE nm then Some (reply ERR_ACCESS_DENIED, nm, w)
      else do {
        (ss_id, nm1) \<leftarrow> find_ss_for_file (msg_filename msg) nm;
        if ss_id < 0 then Some (reply ERR_FILE_NOT_FOUND, nm1, w)
        else case active_server_index ss_id nm1 of
            None \<Rightarrow> Some (reply ERR_SS_UNAVAILABLE, nm1, w)
          | Some i \<Rightarrow> let (_, response, w1) = server_rpc env nm1 i msg w in Some (response, nm1, w1) })"

text \<open>
  \<open>sscanf(data, "%zu|%d|%d|%ld|%ld", ...)\<close>: the values converted before a failure are stored.
\<close>

definition to_size_t :: "int \<Rightarrow> int" where
  "to_size_t v = (if \<bar>v\<bar> \<ge> 2 ^ 64 then 2 ^ 64 - 1 else v mod 2 ^ 64)"

fun scan_fields :: "(int \<Rightarrow> file_metadata \<Rightarrow> file_metadata) list \<Rightarrow> string \<Rightarrow> file_metadata \<Rightarrow> file_metadata" where
  "scan_fields [] s meta = meta"
| "scan_fields (conv # convs) s meta =
     (case scan_number s of
        None \<Rightarrow> meta
      | Some (v, rest) \<Rightarrow>
          (case rest of
             c # rest' \<Rightarrow> if c = BAR then scan_fields convs rest' (conv v meta) else conv v meta
           | [] \<Rightarrow> conv v meta))"

definition scan_info :: "string \<Rightarrow> file_metadata \<Rightarrow> file_metadata" where
  "scan_info data meta =
     scan_fields
       [\<lambda>v m. m\<lparr>fm_size := to_size_t v\<rparr>, \<lambda>v m. m\<lparr>fm_word_count := to_int32 (clamp64 v)\<rparr>,
        \<lambda>v m. m\<lparr>fm_char_count := to_int32 (clamp64 v)\<rparr>, \<lambda>v m. m\<lparr>fm_modified := clamp64 v\<rparr>,
        \<lambda>v m. m\<lparr>fm_accessed := clamp64 v\<rparr>] data meta"

definition info_request :: "string \<Rightarrow> message" where
  "info_request filename = init_message\<lparr>msg_type := type_code MSG_SS_INFO, msg_filename := filename\<rparr>"

text \<open>The first loop of \<open>handle_view\<close>, with \<open>-l\<close>: each file is refreshed from its storage server.\<close>

fun refresh_files :: "'w environment \<Rightarrow> file_metadata list \<Rightarrow> name_server \<Rightarrow> 'w
    \<Rightarrow> (file_metadata list \<times> name_server \<times> 'w) option" where
  "refresh_files env [] nm w = Some ([], nm, w)"
| "refresh_files env (m # ms) nm w = do {
     (m1, nm1, w1) \<leftarrow>
       (case active_server_index (fm_ss_id m) nm of
          None \<Rightarrow> Some (m, nm, w)
        | Some i \<Rightarrow>
            let (ret, resp, w1) = server_rpc env nm i (info_request (fm_filename m)) w in
            if ret = 0 \<and> msg_status resp = SUCCESS then
              map_option (\<lambda>nm1. (scan_info (msg_data resp) m, nm1, w1))
                (store_metadata (fm_filename m) (scan_info (msg_data resp) m) nm)
            else Some (m, nm, w1));
     (ms1, nm2, w2) \<leftarrow> refresh_files env ms nm1 w1;
     Some (m1 # ms1, nm2, w2)
   }"

text \<open>A flag character in any token of the arguments that starts with \<open>-\<close>.\<close>

definition has_flag :: "char \<Rightarrow> string \<Rightarrow> bool" where
  "has_flag c data = list_ex (\<lambda>tok. hd tok = CHR ''-'' \<and> List.member (tl tok) c) (split_fields is_c_space data)"

text \<open>\<open>%-20s\<close>.\<close>

definition pad :: "nat \<Rightarrow> string \<Rightarrow> string" where
  "pad n s = s @ replicate (n - length s) CHR '' ''"

definition view_row :: "string \<Rightarrow> string \<Rightarrow> string \<Rightarrow> string \<Rightarrow> string \<Rightarrow> string" where
  "view_row a b c d e =
     pad 20 a @ '' '' @ pad 8 b @ '' '' @ pad 8 c @ '' '' @ pad 20 d @ '' '' @ pad 10 e @ [CHR 0x0A]"

definition view_line :: "'w environment \<Rightarrow> bool \<Rightarrow> file_metadata \<Rightarrow> string" where
  "view_line env show_details m =
     (if show_details then
        view_row (fm_filename m) (dec_int (fm_word_count m)) (dec_int (fm_char_count m))
          (env_strftime env (fm_accessed m)) (fm_owner m)
      else fm_filename m @ [CHR 0x0A])"

definition view_header :: string where
  "view_header = view_row ''Filename'' ''Words'' ''Chars'' ''Last Access'' ''Owner''
     @ replicate 80 CHR ''-'' @ [CHR 0x0A]"

definition handle_view ::
    "'w environment \<Rightarrow> message \<Rightarrow> name_server \<Rightarrow> 'w \<Rightarrow> (message \<times> name_server \<times> 'w) option" where
  "handle_view env msg nm w =
     (let show_all = has_flag CHR ''a'' (msg_data msg); show_details = has_flag CHR ''l'' (msg_data msg);
          files = trie_get_all_files (nm_file_trie nm) MAX_FILES
      in do {
        (files1, nm1, w1) \<leftarrow> (if show_details then refresh_files env files nm w else Some (files, nm, w));
        let shown = filter (\<lambda>m. show_all \<or> check_access (fm_filename m) (msg_sender msg) ACCESS_READ nm1) files1;
        let buffer = (if show_details then view_header else []) @ concat (map (view_line env show_details) shown);
        Some ((reply SUCCESS)\<lparr>msg_type := type_code MSG_DATA, msg_data := reply_data buffer\<rparr>, nm1, w1) })"

definition access_string :: "int \<Rightarrow> string" where
  "access_string a =
     (if a = ACCESS_READ then ''R'' else if a = ACCESS_WRITE then ''W''
      else if a = ACCESS_READWRITE then ''RW'' else ''NONE'')"

definition info_text :: "'w environment \<Rightarrow> file_metadata \<Rightarrow> string" where
  "info_text env m =
     (let nl = [CHR 0x0A]; t = env_strftime env in
      ''File: '' @ fm_filename m @ nl @ ''Owner: '' @ fm_owner m @ nl @ ''Created: '' @ t (fm_created m) @ nl @
      ''Last Modified: '' @ t (fm_modified m) @ nl @
      ''Last Accessed: '' @ t (fm_accessed m) @ '' by '' @ fm_last_accessed_by m @ nl @
      ''Size: '' @ dec_int (fm_size m) @ '' bytes'' @ nl @ ''Words: '' @ dec_int (fm_word_count m) @ nl @
      ''Chars: '' @ dec_int (fm_char_count m) @ nl @ ''Storage Server: '' @ dec_int (fm_ss_id m) @ nl @
      ''Access Control:'' @ nl @
      concat (map (\<lambda>a. ''  '' @ acl_username a @ '': '' @ access_string (acl_access a) @ nl) (fm_acl m)))"

definition handle_info ::
    "'w environment \<Rightarrow> message \<Rightarrow> name_server \<Rightarrow> 'w \<Rightarrow> (message \<times> name_server \<times> 'w) option" where
  "handle_info env msg nm w =
     (let response = (reply SUCCESS)\<lparr>msg_type := type_code MSG_DATA\<rparr> in
      case trie_search (nm_file_trie nm) (msg_filename msg) of
        None \<Rightarrow> Some (response\<lparr>msg_status := ERR_FILE_NOT_FOUND\<rparr>, nm, w)
      | Some meta \<Rightarrow> do {
          (ss_id, nm1) \<leftarrow> find_ss_for_file (msg_filename msg) nm;
          let (meta1, w1) =
            (case (if ss_id \<ge> 0 then server_index ss_id nm1 else None) of
               None \<Rightarrow> (meta, w)
             | Some i \<Rightarrow>
                 let (ret, resp, w1) = server_rpc env nm1 i (info_request (msg_filename msg)) w in
                 (if ret = 0 \<and> msg_status resp = SUCCESS then scan_info (msg_data resp) meta else meta, w1));
          Some (response\<lparr>msg_data := reply_data (info_text env meta1)\<rparr>, nm1, w1) })"

text \<open>The loops of \<open>handle_list\<close>: they stop when less than 100 bytes are left in the buffer.\<close>

fun list_users :: "string \<Rightarrow> string list \<Rightarrow> string \<Rightarrow> string" where
  "list_users suffix [] buffer = buffer"
| "list_users suffix (u # us) buffer =
     (let buffer' = buffer @ u @ suffix in
      if length buffer' \<ge> MAX_BUFFER - 100 then buffer' else list_users suffix us buffer')"

definition list_text :: "name_server \<Rightarrow> string" where
  "list_text nm =
     (let nl = [CHR 0x0A];
          online = list_users ('' (online)'' @ nl)
            (map ci_username (take (nm_client_count nm) (nm_client_list nm))) (''=== Connected Users ==='' @ nl)
      in list_users nl (map ru_username (nm_registered_users nm)) (online @ nl @ ''=== All Registered Users ==='' @ nl))"

definition handle_list :: "name_server \<Rightarrow> message" where
  "handle_list nm = (reply SUCCESS)\<lparr>msg_type := type_code MSG_DATA, msg_data := reply_data (list_text nm)\<rparr>"

section \<open>Files\<close>

definition handle_create ::
    "'w environment \<Rightarrow> time \<Rightarrow> message \<Rightarrow> name_server \<Rightarrow> 'w \<Rightarrow> (message \<times> name_server \<times> 'w) option" where
  "handle_create env now msg nm w =
     (let f = msg_filename msg in
      if trie_search (nm_file_trie nm) f \<noteq> None then Some (reply ERR_FILE_EXISTS, nm, w)
      else
        let (ss_id, nm1) = get_next_ss_round_robin nm in
        if ss_id < 0 then Some (reply ERR_SS_UNAVAILABLE, nm1, w)
        else case server_index ss_id nm1 of
            None \<Rightarrow> Some (reply ERR_SS_UNAVAILABLE, nm1, w)
          | Some i \<Rightarrow>
              let (_, ss_response, w1) = server_rpc env nm1 i
                    (init_message\<lparr>msg_type := type_code MSG_CREATE, msg_filename := f\<rparr>) w;
                  meta = blank_metadata\<lparr>fm_filename := f, fm_owner := msg_sender msg, fm_ss_id := ss_id,
                    fm_created := now, fm_modified := now, fm_accessed := now, fm_last_accessed_by := msg_sender msg\<rparr>
              in if msg_status ss_response = SUCCESS then do {
                   cache \<leftarrow> cache_put (nm_cache nm1) f meta;
                   Some (reply SUCCESS,
                     nm1\<lparr>nm_file_trie := snd (trie_insert f meta (nm_file_trie nm1)), nm_cache := cache\<rparr>, w1) }
                 else Some (reply (msg_status ss_response), nm1, w1))"

definition handle_delete ::
    "'w environment \<Rightarrow> message \<Rightarrow> name_server \<Rightarrow> 'w \<Rightarrow> (message \<times> name_server \<times> 'w) option" where
  "handle_delete env msg nm w =
     (let f = msg_filename msg in
      case trie_search (nm_file_trie nm) f of
        None \<Rightarrow> Some (reply ERR_FILE_NOT_FOUND, nm, w)
      | Some meta \<Rightarrow>
          if fm_owner meta \<noteq> msg_sender msg then Some (reply ERR_NOT_OWNER, nm, w)
          else case server_index (fm_ss_id meta) nm of
              None \<Rightarrow> Some (reply ERR_SS_UNAVAILABLE, nm, w)
            | Some i \<Rightarrow>
                let (_, lock_response, w1) = server_rpc env nm i
                      (init_message\<lparr>msg_type := type_code MSG_CHECK_LOCKS, msg_filename := f\<rparr>) w
                in if msg_status lock_response = ERR_FILE_LOCKED then Some (reply ERR_FILE_LOCKED, nm, w1)
                   else
                     let (_, ss_response, w2) = server_rpc env nm i
                           (init_message\<lparr>msg_type := type_code MSG_DELETE, msg_filename := f\<rparr>) w1
                     in if msg_status ss_response = SUCCESS then do {
                          cache \<leftarrow> cache_remove (nm_cache nm) f;
                          Some (reply SUCCESS,
                            nm\<lparr>nm_file_trie := trie_delete f (nm_file_trie nm), nm_cache := cache\<rparr>, w2) }
                        else Some (reply (msg_status ss_response), nm, w2))"

text \<open>\<open>handle_access\<close> is called for \<open>MSG_ADDACCESS\<close> and \<open>MSG_REMACCESS\<close>.\<close>

definition handle_access :: "message \<Rightarrow> name_server \<Rightarrow> (message \<times> name_server) option" where
  "handle_access msg nm =
     (let f = msg_filename msg; target = msg_target_user msg in
      case trie_search (nm_file_trie nm) f of
        None \<Rightarrow> Some (reply ERR_FILE_NOT_FOUND, nm)
      | Some meta \<Rightarrow>
          if fm_owner meta \<noteq> msg_sender msg then Some (reply ERR_NOT_OWNER, nm)
          else if msg_type msg = type_code MSG_ADDACCESS then
            if \<not> user_exists target nm then Some (reply ERR_USER_NOT_FOUND, nm)
            else if target = msg_sender msg then Some (reply ERR_INVALID_OPERATION, nm)
            else map_option (Pair (reply SUCCESS))
                   (store_metadata f (meta\<lparr>fm_acl := grant target (msg_access msg) (fm_acl meta)\<rparr>) nm)
          else if msg_type msg = type_code MSG_REMACCESS then
            map_option (Pair (reply SUCCESS)) (store_metadata f (meta\<lparr>fm_acl := revoke target (fm_acl meta)\<rparr>) nm)
          else Some (init_message, nm))"

definition handle_exec ::
    "'w environment \<Rightarrow> message \<Rightarrow> name_server \<Rightarrow> 'w \<Rightarrow> (message \<times> name_server \<times> 'w) option" where
  "handle_exec env msg nm w =
     (if \<not> check_access (msg_filename msg) (msg_sender msg) ACCESS_READ nm then Some (reply ERR_ACCESS_DENIED, nm, w)
      else do {
        (ss_id, nm1) \<leftarrow> find_ss_for_file (msg_filename msg) nm;
        if ss_id < 0 then Some (reply ERR_FILE_NOT_FOUND, nm1, w)
        else case server_index ss_id nm1 of
            None \<Rightarrow> Some (reply ERR_SS_UNAVAILABLE, nm1, w)
          | Some i \<Rightarrow>
              let (_, ss_response, w1) = server_rpc env nm1 i
                    ((info_request (msg_filename msg))\<lparr>msg_data := ''READ_CONTENT''\<rparr>) w
              in if msg_status ss_response \<noteq> SUCCESS then Some (reply (msg_status ss_response), nm1, w1)
                 else (case env_shell env (msg_data ss_response) w1 of
                     (None, w2) \<Rightarrow> Some (reply ERR_SERVER_ERROR, nm1, w2)
                   | (Some out, w2) \<Rightarrow>
                       Some ((reply SUCCESS)\<lparr>msg_data := reply_data (cstr (take (MAX_BUFFER - 1) out))\<rparr>, nm1, w2)) })"

section \<open>The loop of a connection\<close>

text \<open>
  \<open>MSG_READ\<close>, \<open>MSG_WRITE\<close>, \<open>MSG_STREAM\<close> and \<open>MSG_UNDO\<close>: the address of the storage server. The
  response structure belongs to the connection and is not cleared between requests.
\<close>

definition handle_redirect :: "time \<Rightarrow> message \<Rightarrow> message \<Rightarrow> name_server \<Rightarrow> (message \<times> name_server) option" where
  "handle_redirect now response msg nm =
     (let f = msg_filename msg; response0 = response\<lparr>msg_type := type_code MSG_DATA\<rparr>;
          required = (if msg_type msg = type_code MSG_WRITE \<or> msg_type msg = type_code MSG_UNDO
                      then ACCESS_WRITE else ACCESS_READ)
      in if \<not> check_access f (msg_sender msg) required nm then Some (response0\<lparr>msg_status := ERR_ACCESS_DENIED\<rparr>, nm)
         else do {
           (ss_id, nm1) \<leftarrow> find_ss_for_file f nm;
           if ss_id < 0 then Some (response0\<lparr>msg_status := ERR_FILE_NOT_FOUND\<rparr>, nm1)
           else
             let response1 = (case server_index ss_id nm1 of
                   None \<Rightarrow> response0
                 | Some i \<Rightarrow> response0\<lparr>msg_data := si_ip (nm_ss_list nm1 ! i) @ '':'' @ dec_int (si_client_port (nm_ss_list nm1 ! i)),
                                      msg_status := SUCCESS\<rparr>)
             in (case trie_search (nm_file_trie nm1) f of
                   None \<Rightarrow> Some (response1, nm1)
                 | Some meta \<Rightarrow> map_option (Pair response1)
                     (store_metadata f (meta\<lparr>fm_accessed := now, fm_last_accessed_by := msg_sender msg\<rparr>) nm1)) })"

text \<open>One turn of the loop: what is sent, the connection's response structure, and the new state.\<close>

definition dispatch ::
    "'w environment \<Rightarrow> time \<Rightarrow> message \<Rightarrow> message \<Rightarrow> name_server \<Rightarrow> 'w
     \<Rightarrow> (message \<times> message \<times> name_server \<times> 'w) option" where
  "dispatch env now response msg nm w =
     (let keep = map_option (\<lambda>(r, nm', w'). (r, response, nm', w'));
          keep1 = map_option (\<lambda>(r, nm'). (r, response, nm', w));
          show = (\<lambda>r. Some (r, response, nm, w))
      in case type_of_code (msg_type msg) of
          Some MSG_REQUESTACCESS \<Rightarrow> keep1 (Some (handle_requestaccess now msg nm))
        | Some MSG_VIEWREQUESTS \<Rightarrow> show (handle_viewrequests env msg nm)
        | Some MSG_APPROVEREQUEST \<Rightarrow> keep1 (handle_approverequest msg nm)
        | Some MSG_DENYREQUEST \<Rightarrow> keep1 (Some (handle_denyrequest msg nm))
        | Some MSG_CHECKPOINT \<Rightarrow> keep (handle_checkpoint_request env msg nm w)
        | Some MSG_VIEWCHECKPOINT \<Rightarrow> keep (handle_checkpoint_request env msg nm w)
        | Some MSG_REVERT \<Rightarrow> keep (handle_checkpoint_request env msg nm w)
        | Some MSG_LISTCHECKPOINTS \<Rightarrow> keep (handle_checkpoint_request env msg nm w)
        | Some MSG_CREATEFOLDER \<Rightarrow> keep (Some (handle_createfolder env now msg nm w))
        | Some MSG_MOVE \<Rightarrow> keep (handle_move env msg nm w)
        | Some MSG_VIEWFOLDER \<Rightarrow> show (handle_viewfolder msg nm)
        | Some MSG_VIEW \<Rightarrow> keep (handle_view env msg nm w)
        | Some MSG_INFO \<Rightarrow> keep (handle_info env msg nm w)
        | Some MSG_LIST \<Rightarrow> show (handle_list nm)
        | Some MSG_CREATE \<Rightarrow> keep (handle_create env now msg nm w)
        | Some MSG_DELETE \<Rightarrow> keep (handle_delete env msg nm w)
        | Some MSG_ADDACCESS \<Rightarrow> keep1 (handle_access msg nm)
        | Some MSG_REMACCESS \<Rightarrow> keep1 (handle_access msg nm)
        | Some MSG_EXEC \<Rightarrow> keep (handle_exec env msg nm w)
        | Some t \<Rightarrow>
            if t = MSG_READ \<or> t = MSG_WRITE \<or> t = MSG_STREAM \<or> t = MSG_UNDO then
              map_option (\<lambda>(r, nm'). (r, r, nm', w)) (handle_redirect now response msg nm)
            else
              let r = response\<lparr>msg_status := ERR_INVALID_OPERATION\<rparr> in Some (r, r, nm, w)
        | None \<Rightarrow> let r = response\<lparr>msg_status := ERR_INVALID_OPERATION\<rparr> in Some (r, r, nm, w))"

end
