(* ===== verification/AccessControl.thy ===== *)
theory AccessControl
  imports NameRequests
begin

text \<open>
  Who may change what on the name server. The events of \<open>nm.c\<close> as steps of one state, the
  invariant of the index, and the contract the permissions rest on as the locale
  \<open>owner_controlled\<close>: the rights on a file change only in a request of its owner. Then what the
  handlers do to permissions, and what listings show.
\<close>

section \<open>Events\<close>

datatype nm_event =
    Client_request time message message
  | Client_connects time int message
  | Client_disconnects time int nat
  | Server_registers time int message
  | Heartbeat_connects time int message
  | Heartbeat time int message
  | Heartbeat_lost int
  | Monitor_round time

text \<open>
  \<open>None\<close> is a step that does not end. The first message of a request is what the response
  structure of its connection holds: any message.
\<close>

fun nm_step :: "'w environment \<Rightarrow> nm_event \<Rightarrow> name_server \<times> 'w \<Rightarrow> (name_server \<times> 'w) option" where
  "nm_step env (Client_request now response msg) (nm, w) =
     map_option (\<lambda>(_, _, nm', w'). (nm', w')) (dispatch env now response msg nm w)"
| "nm_step env (Client_connects now sock msg) (nm, w) = Some (snd (client_connects now sock msg nm), w)"
| "nm_step env (Client_disconnects now sock idx) (nm, w) = Some (client_disconnects now sock idx nm, w)"
| "nm_step env (Server_registers now sock msg) (nm, w) =
     Some (case register_ss now sock msg nm of None \<Rightarrow> nm | Some nm' \<Rightarrow> nm', w)"
| "nm_step env (Heartbeat_connects now sock msg) (nm, w) = Some (heartbeat_connects now sock msg nm, w)"
| "nm_step env (Heartbeat now ss_id msg) (nm, w) = Some (heartbeat_received now ss_id msg nm, w)"
| "nm_step env (Heartbeat_lost ss_id) (nm, w) = Some (heartbeat_lost ss_id nm, w)"
| "nm_step env (Monitor_round now) (nm, w) = Some (heartbeat_monitor now nm, w)"

fun_cases nm_step_requestE: "nm_step env (Client_request now response msg) (nm, w) = Some s'"

fun actor :: "nm_event \<Rightarrow> string option" where
  "actor (Client_request _ _ msg) = Some (msg_sender msg)"
| "actor _ = None"

section \<open>The contract\<close>

locale owner_controlled =
  fixes rights :: "'s \<Rightarrow> 'k \<Rightarrow> ('u \<times> 'r) option"
    and ok :: "'s \<Rightarrow> bool"
    and step :: "'e \<Rightarrow> 's \<Rightarrow> 's option"
    and actor :: "'e \<Rightarrow> 'u option"
  assumes ok_step: "ok s \<Longrightarrow> step e s = Some s' \<Longrightarrow> ok s'"
    and owner_only: "ok s \<Longrightarrow> step e s = Some s' \<Longrightarrow> rights s k = Some (u, r) \<Longrightarrow> actor e \<noteq> Some u
          \<Longrightarrow> rights s' k = Some (u, r)"
    and owner_fixed: "ok s \<Longrightarrow> step e s = Some s' \<Longrightarrow> rights s k = Some (u, r) \<Longrightarrow> rights s' k = Some (u', r')
          \<Longrightarrow> u' = u"
begin

fun steps :: "'e list \<Rightarrow> 's \<Rightarrow> 's option" where
  "steps [] s = Some s"
| "steps (e # es) s = Option.bind (step e s) (steps es)"

lemma ok_steps: "ok s \<Longrightarrow> steps es s = Some s' \<Longrightarrow> ok s'"
  by (induction es arbitrary: s) (auto simp: bind_eq_Some_conv intro: ok_step)

lemma rights_stable:
  "ok s \<Longrightarrow> steps es s = Some s' \<Longrightarrow> rights s k = Some (u, r) \<Longrightarrow> Some u \<notin> actor ` set es
    \<Longrightarrow> rights s' k = Some (u, r)"
proof (induction es arbitrary: s)
  case (Cons e es)
  from Cons.prems(2) obtain s1 where s1: "step e s = Some s1" "steps es s1 = Some s'"
    by (auto simp: bind_eq_Some_conv)
  have "rights s1 k = Some (u, r)"
    using owner_only [OF Cons.prems(1) s1(1) Cons.prems(3)] Cons.prems(4) by auto
  with Cons.IH [OF ok_step [OF Cons.prems(1) s1(1)] s1(2)] Cons.prems(4) show ?case by simp
qed simp

end

section \<open>The index\<close>

definition rights :: "name_server \<Rightarrow> string \<Rightarrow> (string \<times> acl_entry list) option" where
  "rights nm f = map_option (\<lambda>m. (fm_owner m, fm_acl m)) (trie_search (nm_file_trie nm) f)"

text \<open>An entry carries its own name, and its access list fits its array with one entry per user.\<close>

definition acl_ok :: "acl_entry list \<Rightarrow> bool" where
  "acl_ok acl \<longleftrightarrow> distinct (map acl_username acl) \<and> length acl \<le> MAX_ACL_ENTRIES"

definition index_ok :: "name_server \<Rightarrow> bool" where
  "index_ok nm \<longleftrightarrow> (\<forall>k m. trie_search (nm_file_trie nm) k = Some m \<longrightarrow> fm_filename m = k \<and> acl_ok (fm_acl m))"

definition same_rights :: "name_server \<Rightarrow> name_server \<Rightarrow> bool" where
  "same_rights nm nm' \<longleftrightarrow> (index_ok nm \<longrightarrow> index_ok nm' \<and> rights nm' = rights nm)"

definition honours :: "string option \<Rightarrow> name_server \<Rightarrow> name_server \<Rightarrow> bool" where
  "honours u nm nm' \<longleftrightarrow> (index_ok nm \<longrightarrow> index_ok nm' \<and>
     (\<forall>k own acl. rights nm k = Some (own, acl) \<longrightarrow>
        (u \<noteq> Some own \<longrightarrow> rights nm' k = Some (own, acl)) \<and>
        (\<forall>own' acl'. rights nm' k = Some (own', acl') \<longrightarrow> own' = own)))"

named_theorems frame \<open>steps that leave the rights alone\<close>

lemma same_rights_refl [frame]: "same_rights nm nm"
  by (simp add: same_rights_def)

lemma same_rights_trans: "same_rights a b \<Longrightarrow> same_rights b c \<Longrightarrow> same_rights a c"
  by (simp add: same_rights_def)

lemma same_honours: "same_rights nm nm' \<Longrightarrow> honours u nm nm'"
  by (auto simp: same_rights_def honours_def)

lemma same_trie: "nm_file_trie nm' = nm_file_trie nm \<Longrightarrow> same_rights nm nm'"
  by (simp add: same_rights_def index_ok_def rights_def fun_eq_iff)

lemma acl_ok_grant: "acl_ok acl \<Longrightarrow> acl_ok (grant u a acl)"
proof -
  assume ok: "acl_ok acl"
  show ?thesis
  proof (cases "find_index (\<lambda>e. acl_username e = u) acl")
    case None
    moreover from None have "u \<notin> acl_username ` set acl" by (auto simp: find_index_None)
    ultimately show ?thesis using ok by (simp add: acl_ok_def grant_def)
  next
    case (Some i)
    then have "map acl_username (acl[i := (acl ! i)\<lparr>acl_access := a\<rparr>]) = map acl_username acl"
      by (auto simp: map_update find_index_Some list_update_same_conv)
    with ok Some show ?thesis by (simp add: acl_ok_def grant_def)
  qed
qed

lemma map_remove_nth: "map f (remove_nth i xs) = remove_nth i (map f xs)"
  by (simp add: remove_nth_def take_map drop_map)

lemma distinct_remove_nth: "distinct xs \<Longrightarrow> distinct (remove_nth i xs)"
  using set_take_disj_set_drop_if_distinct [of xs i "Suc i"] by (auto simp: remove_nth_def)

lemma acl_ok_revoke: "acl_ok acl \<Longrightarrow> acl_ok (revoke u acl)"
  by (auto simp: acl_ok_def revoke_def map_remove_nth distinct_remove_nth length_remove_nth find_index_Some split: option.split)

section \<open>Steps that keep the rights\<close>

lemma same_store:
  assumes "store_metadata f m' nm = Some nm'" and "trie_search (nm_file_trie nm) f = Some m"
    and "fm_owner m' = fm_owner m" and "fm_acl m' = fm_acl m" and "fm_filename m' = fm_filename m"
  shows "same_rights nm nm'"
  using assms
  by (auto simp: same_rights_def store_metadata_def bind_eq_Some_conv index_ok_def rights_def fun_eq_iff search_update
      split: if_splits)

lemma round_robin_trie [simp]: "nm_file_trie (snd (get_next_ss_round_robin nm)) = nm_file_trie nm"
  by (auto simp: get_next_ss_round_robin_def Let_def)

lemma find_ss_trie: "find_ss_for_file f nm = Some (i, nm') \<Longrightarrow> nm_file_trie nm' = nm_file_trie nm"
  by (auto simp: find_ss_for_file_def bind_eq_Some_conv split: option.splits)

lemma same_createfolder: "handle_createfolder env now msg nm w = (r, nm', w') \<Longrightarrow> same_rights nm nm'"
  by (rule same_trie)
    (auto simp: handle_createfolder_def Let_def split_beta split: option.splits if_splits)

lemma same_checkpoint: "handle_checkpoint_request env msg nm w = Some (r, nm', w') \<Longrightarrow> same_rights nm nm'"
  by (rule same_trie)
    (auto simp: handle_checkpoint_request_def bind_eq_Some_conv split_beta dest: find_ss_trie split: option.splits if_splits)

lemma same_exec:
  assumes "handle_exec env msg nm w = Some (r, nm', w')"
  shows "same_rights nm nm'"
proof (cases "check_access (msg_filename msg) (msg_sender msg) ACCESS_READ nm")
  case True
  with assms obtain a nm1 where f: "find_ss_for_file (msg_filename msg) nm = Some (a, nm1)"
    by (auto simp: handle_exec_def bind_eq_Some_conv)
  have "nm' = nm1"
    using assms True f by (cases "server_index a nm1") (auto simp: handle_exec_def Let_def split_beta split: option.splits if_splits)
  with same_trie [OF find_ss_trie [OF f]] show ?thesis by simp
qed (use assms in \<open>simp add: handle_exec_def frame\<close>)

lemma same_info: "handle_info env msg nm w = Some (r, nm', w') \<Longrightarrow> same_rights nm nm'"
  by (rule same_trie, cases "trie_search (nm_file_trie nm) (msg_filename msg)")
    (auto simp: handle_info_def Let_def bind_eq_Some_conv split_beta dest: find_ss_trie)

lemma same_requestaccess: "handle_requestaccess now msg nm = (r, nm') \<Longrightarrow> same_rights nm nm'"
  by (rule same_trie) (auto simp: handle_requestaccess_def Let_def split: if_splits)

lemma same_denyrequest: "handle_denyrequest msg nm = (r, nm') \<Longrightarrow> same_rights nm nm'"
  by (rule same_trie) (auto simp: handle_denyrequest_def Let_def split: if_splits)

lemma same_move: "handle_move env msg nm w = Some (r, nm', w') \<Longrightarrow> same_rights nm nm'"
  by (auto simp: handle_move_def Let_def bind_eq_Some_conv split_beta frame
      split: option.splits if_splits elim!: same_store)

lemma same_find: "find_ss_for_file f nm = Some (i, nm') \<Longrightarrow> same_rights nm nm'"
  by (rule same_trie) (rule find_ss_trie)

lemma same_find_touch:
  assumes "find_ss_for_file f nm = Some (i, nm1)" and "trie_search (nm_file_trie nm1) f = Some m"
    and "store_metadata f (m\<lparr>fm_accessed := now, fm_last_accessed_by := u\<rparr>) nm1 = Some nm'"
  shows "same_rights nm nm'"
  using same_find [OF assms(1)] same_store [OF assms(3,2)] by (auto intro: same_rights_trans)

lemma same_redirect: "handle_redirect now resp msg nm = Some (r, nm') \<Longrightarrow> same_rights nm nm'"
  by (auto simp: handle_redirect_def Let_def bind_eq_Some_conv split_beta frame
      split: option.splits if_splits intro: same_find same_find_touch)

lemma scan_fields_keeps:
  assumes "\<And>conv v m. conv \<in> set convs \<Longrightarrow> fm_owner (conv v m) = fm_owner m \<and> fm_acl (conv v m) = fm_acl m
      \<and> fm_filename (conv v m) = fm_filename m \<and> fm_ss_id (conv v m) = fm_ss_id m"
  shows "fm_owner (scan_fields convs s m) = fm_owner m \<and> fm_acl (scan_fields convs s m) = fm_acl m
    \<and> fm_filename (scan_fields convs s m) = fm_filename m \<and> fm_ss_id (scan_fields convs s m) = fm_ss_id m"
  using assms by (induction convs s m rule: scan_fields.induct) (auto split: option.splits list.splits)

lemma scan_info_keeps [simp]:
  "fm_owner (scan_info s m) = fm_owner m" "fm_acl (scan_info s m) = fm_acl m"
  "fm_filename (scan_info s m) = fm_filename m" "fm_ss_id (scan_info s m) = fm_ss_id m"
  unfolding scan_info_def by (rule scan_fields_keeps [THEN conjunct1] scan_fields_keeps [THEN conjunct2, THEN conjunct1]
      scan_fields_keeps [THEN conjunct2, THEN conjunct2, THEN conjunct1]
      scan_fields_keeps [THEN conjunct2, THEN conjunct2, THEN conjunct2]; auto)+

lemma refresh_store:
  assumes "store_metadata (fm_filename m) (scan_info d m) nm = Some nm'"
    and "rights nm (fm_filename m) = Some (fm_owner m, fm_acl m)"
  shows "same_rights nm nm'"
proof -
  from assms(2) obtain m0 where m0: "trie_search (nm_file_trie nm) (fm_filename m) = Some m0"
    "fm_owner m0 = fm_owner m" "fm_acl m0 = fm_acl m" by (auto simp: rights_def)
  show ?thesis
  proof (cases "index_ok nm")
    case True
    with m0(1) have "fm_filename m0 = fm_filename m" by (auto simp: index_ok_def)
    with same_store [OF assms(1) m0(1)] m0 show ?thesis by simp
  qed (simp add: same_rights_def)
qed

lemma same_refresh:
  "refresh_files env ms nm w = Some (ms', nm', w') \<Longrightarrow> index_ok nm
    \<Longrightarrow> \<forall>m \<in> set ms. rights nm (fm_filename m) = Some (fm_owner m, fm_acl m)
    \<Longrightarrow> same_rights nm nm' \<and> map fm_filename ms' = map fm_filename ms"
proof (induction env ms nm w arbitrary: ms' rule: refresh_files.induct)
  case (2 env m ms nm w)
  from "2.prems"(1) obtain m1 nm1 w1 ms1 where one: "(case active_server_index (fm_ss_id m) nm of
          None \<Rightarrow> Some (m, nm, w)
        | Some i \<Rightarrow>
            let (ret, resp, w1) = server_rpc env nm i (info_request (fm_filename m)) w in
            if ret = 0 \<and> msg_status resp = SUCCESS then
              map_option (\<lambda>nm1. (scan_info (msg_data resp) m, nm1, w1))
                (store_metadata (fm_filename m) (scan_info (msg_data resp) m) nm)
            else Some (m, nm, w1)) = Some (m1, nm1, w1)"
    and rest: "refresh_files env ms nm1 w1 = Some (ms1, nm', w')" "ms' = m1 # ms1"
    by (auto simp: bind_eq_Some_conv)
  have r: "rights nm (fm_filename m) = Some (fm_owner m, fm_acl m)" using "2.prems"(3) by simp
  from one have s: "same_rights nm nm1" "fm_filename m1 = fm_filename m"
    by (auto simp: frame split_beta Let_def split: option.splits if_splits intro: refresh_store [OF _ r])
  with "2.prems"(2) have eq: "index_ok nm1" "rights nm1 = rights nm" by (simp_all add: same_rights_def)
  from "2.IH" [OF one refl refl rest(1) eq(1)] "2.prems"(3) eq(2)
  have "same_rights nm1 nm' \<and> map fm_filename ms1 = map fm_filename ms" by simp
  with s rest(2) show ?case by (auto intro: same_rights_trans)
qed (simp add: frame)

lemma files_rights:
  assumes "index_ok nm" and "m \<in> set (trie_get_all_files (nm_file_trie nm) n)"
  shows "rights nm (fm_filename m) = Some (fm_owner m, fm_acl m)"
proof -
  have "m \<in> snd ` set (trie_entries (nm_file_trie nm))"
    using assms(2) by (auto simp: trie_get_all_files_def collect_entries dest: in_set_takeD)
  then obtain k where k: "trie_search (nm_file_trie nm) k = Some m" by (force simp: entries_search)
  with assms(1) show ?thesis by (auto simp: index_ok_def rights_def)
qed

lemma same_view: 
  assumes "handle_view env msg nm w = Some (r, nm', w')"
  shows "same_rights nm nm'"
proof (cases "index_ok nm \<and> has_flag CHR ''l'' (msg_data msg)")
  case True
  with assms obtain ms where "refresh_files env (trie_get_all_files (nm_file_trie nm) MAX_FILES) nm w = Some (ms, nm', w')"
    by (auto simp: handle_view_def Let_def bind_eq_Some_conv)
  with same_refresh [of env _ nm w ms nm' w'] True files_rights [of nm] show ?thesis by blast
next
  case False
  with assms show ?thesis
    by (auto simp: handle_view_def Let_def bind_eq_Some_conv frame same_rights_def)
qed

section \<open>Steps that change the rights\<close>

lemma honours_upd:
  assumes "\<And>k. trie_search (nm_file_trie nm') k = (if k = f then Some m' else trie_search (nm_file_trie nm) k)"
    and "trie_search (nm_file_trie nm) f = Some m" and "fm_owner m' = fm_owner m" and "fm_filename m' = fm_filename m"
    and "acl_ok (fm_acl m) \<Longrightarrow> acl_ok (fm_acl m')" and "u = Some (fm_owner m)"
  shows "honours u nm nm'"
  using assms by (auto simp: honours_def index_ok_def rights_def split: if_splits)

lemma honours_store:
  assumes "store_metadata f m' nm = Some nm'" and "trie_search (nm_file_trie nm) f = Some m"
    and "fm_owner m' = fm_owner m" and "fm_filename m' = fm_filename m"
    and "acl_ok (fm_acl m) \<Longrightarrow> acl_ok (fm_acl m')"
  shows "honours (Some (fm_owner m)) nm nm'"
proof -
  from assms(1,2) have "trie_search (nm_file_trie nm') k = (if k = f then Some m' else trie_search (nm_file_trie nm) k)" for k
    by (auto simp: store_metadata_def bind_eq_Some_conv search_update)
  from honours_upd [OF this assms(2-5) refl] show ?thesis by simp
qed

lemma honours_requests: "honours u nm (nm'\<lparr>nm_access_requests := r\<rparr>) = honours u nm nm'"
  by (simp add: honours_def index_ok_def rights_def)

lemma honours_grant:
  "store_metadata f (m\<lparr>fm_acl := grant v a (fm_acl m)\<rparr>) nm = Some nm' \<Longrightarrow> trie_search (nm_file_trie nm) f = Some m
    \<Longrightarrow> honours (Some (fm_owner m)) nm nm'"
  by (erule honours_store) (simp_all add: acl_ok_grant)

lemma honours_revoke:
  "store_metadata f (m\<lparr>fm_acl := revoke v (fm_acl m)\<rparr>) nm = Some nm' \<Longrightarrow> trie_search (nm_file_trie nm) f = Some m
    \<Longrightarrow> honours (Some (fm_owner m)) nm nm'"
  by (erule honours_store) (simp_all add: acl_ok_revoke)

lemma honours_same: "honours u nm nm"
  by (rule same_honours) (rule same_rights_refl)

lemma honours_approve: "handle_approverequest msg nm = Some (r, nm') \<Longrightarrow> honours (Some (msg_sender msg)) nm nm'"
  by (auto simp: handle_approverequest_def Let_def bind_eq_Some_conv honours_same honours_requests
      split: option.splits if_splits dest: honours_grant)

lemma honours_access: "handle_access msg nm = Some (r, nm') \<Longrightarrow> honours (Some (msg_sender msg)) nm nm'"
  by (auto simp: handle_access_def Let_def honours_same
      split: option.splits if_splits dest: honours_grant honours_revoke)

lemma honours_insert:
  assumes "\<And>k. trie_search (nm_file_trie nm') k = (if k = f \<and> ascii f then Some m else trie_search (nm_file_trie nm) k)"
    and "trie_search (nm_file_trie nm) f = None" and "fm_filename m = f" and "acl_ok (fm_acl m)"
  shows "honours u nm nm'"
  using assms by (auto simp: honours_def index_ok_def rights_def split: if_splits)

lemma honours_create:
  assumes "handle_create env now msg nm w = Some (r, nm', w')"
  shows "honours (Some (msg_sender msg)) nm nm'"
proof (cases "nm_file_trie nm' = nm_file_trie nm")
  case True
  then show ?thesis by (intro same_honours same_trie)
next
  case False
  with assms have f: "trie_search (nm_file_trie nm) (msg_filename msg) = None"
    and t: "\<exists>i. nm_file_trie nm' = snd (trie_insert (msg_filename msg)
      (blank_metadata\<lparr>fm_filename := msg_filename msg, fm_owner := msg_sender msg, fm_ss_id := i,
        fm_created := now, fm_modified := now, fm_accessed := now, fm_last_accessed_by := msg_sender msg\<rparr>) (nm_file_trie nm))"
    by (auto simp: handle_create_def Let_def split_beta bind_eq_Some_conv split: option.splits if_splits)
  from t obtain i where i: "nm_file_trie nm' = snd (trie_insert (msg_filename msg)
      (blank_metadata\<lparr>fm_filename := msg_filename msg, fm_owner := msg_sender msg, fm_ss_id := i,
        fm_created := now, fm_modified := now, fm_accessed := now, fm_last_accessed_by := msg_sender msg\<rparr>) (nm_file_trie nm))" ..
  show ?thesis
    by (rule honours_insert [OF _ f]) (auto simp: i search_insert acl_ok_def blank_metadata_def)
qed

lemma honours_delete:
  assumes "handle_delete env msg nm w = Some (r, nm', w')"
  shows "honours (Some (msg_sender msg)) nm nm'"
proof (cases "nm_file_trie nm' = nm_file_trie nm")
  case True
  then show ?thesis by (intro same_honours same_trie)
next
  case False
  with assms obtain m where "trie_search (nm_file_trie nm) (msg_filename msg) = Some m" "fm_owner m = msg_sender msg"
    "nm_file_trie nm' = trie_delete (msg_filename msg) (nm_file_trie nm)"
    by (auto simp: handle_delete_def Let_def split_beta bind_eq_Some_conv split: option.splits if_splits)
  then show ?thesis
    by (auto simp: honours_def index_ok_def rights_def trie_delete_def search_delete)
qed

lemma register_files_rights:
  "index_ok nm \<Longrightarrow> index_ok (nm\<lparr>nm_file_trie := fold (register_file now i) names (nm_file_trie nm)\<rparr>)
     \<and> (\<forall>k p. rights nm k = Some p \<longrightarrow>
         rights (nm\<lparr>nm_file_trie := fold (register_file now i) names (nm_file_trie nm)\<rparr>) k = Some p)"
proof (induction names arbitrary: nm)
  case (Cons n names)
  let ?nm = "nm\<lparr>nm_file_trie := register_file now i n (nm_file_trie nm)\<rparr>"
  have "index_ok ?nm" "\<And>k p. rights nm k = Some p \<Longrightarrow> rights ?nm k = Some p"
    using Cons.prems
    by (auto simp: index_ok_def rights_def search_register acl_ok_def blank_metadata_def split: if_splits option.splits)
  with Cons.IH [of ?nm] show ?case by simp
qed simp

lemma honours_grow:
  assumes "index_ok nm \<Longrightarrow> index_ok nm' \<and> (\<forall>k p. rights nm k = Some p \<longrightarrow> rights nm' k = Some p)"
  shows "honours u nm nm'"
  using assms by (auto simp: honours_def)

lemma honours_cong:
  assumes "honours u nm nm1" and "nm_file_trie nm' = nm_file_trie nm1"
  shows "honours u nm nm'"
proof -
  from assms(2) have "index_ok nm' = index_ok nm1" "rights nm' = rights nm1"
    by (simp_all add: index_ok_def rights_def fun_eq_iff)
  with assms(1) show ?thesis by (simp only: honours_def)
qed

lemma honours_register:
  assumes "register_ss now sock msg nm = Some nm'"
  shows "honours u nm nm'"
proof (rule honours_cong)
  let ?names = "take MAX_FILES (strtok (CHR '','') (msg_data msg))"
  let ?nm = "nm\<lparr>nm_file_trie := fold (register_file now (msg_ss_id msg)) ?names (nm_file_trie nm)\<rparr>"
  show "nm_file_trie nm' = nm_file_trie ?nm"
    using assms by (auto simp: register_ss_def Let_def split: if_splits)
  show "honours u nm ?nm"
    by (rule honours_grow) (rule register_files_rights)
qed

lemma honours_dispatch:
  assumes "dispatch env now resp msg nm w = Some (r, resp', nm', w')"
  shows "honours (Some (msg_sender msg)) nm nm'"
  using assms
  by (auto simp: dispatch_def Let_def frame
      intro: honours_approve honours_access honours_create honours_delete same_honours same_createfolder
        same_checkpoint same_exec same_info same_requestaccess same_denyrequest same_move same_redirect same_view
      split: option.splits message_type.splits if_splits prod.splits)

lemma user_trie [simp]:
  "nm_file_trie (snd (register_user_persistent now u k nm)) = nm_file_trie nm"
  "nm_file_trie (deregister_active_session now u k nm) = nm_file_trie nm"
  by (auto simp: register_user_persistent_def deregister_active_session_def Let_def split: option.splits)

lemma server_trie [simp]:
  "nm_file_trie (update_server i f nm) = nm_file_trie nm"
  "nm_file_trie (heartbeat_connects now k msg nm) = nm_file_trie nm"
  "nm_file_trie (heartbeat_received now i msg nm) = nm_file_trie nm"
  "nm_file_trie (heartbeat_lost i nm) = nm_file_trie nm"
  "nm_file_trie (heartbeat_monitor now nm) = nm_file_trie nm"
  by (auto simp: update_server_def heartbeat_connects_def heartbeat_received_def heartbeat_lost_def
      heartbeat_monitor_def split: option.splits)

lemma connection_trie [simp]:
  "nm_file_trie (snd (client_connects now k msg nm)) = nm_file_trie nm"
  "nm_file_trie (client_disconnects now k i nm) = nm_file_trie nm"
  by (auto simp: client_connects_def client_disconnects_def Let_def split_beta split: option.splits)

lemma honours_step: "nm_step env e s = Some s' \<Longrightarrow> honours (actor e) (fst s) (fst s')"
proof (cases e)
  case (Client_request now resp msg)
  assume "nm_step env e s = Some s'"
  with Client_request show ?thesis
    by (cases s) (auto dest: honours_dispatch)
next
  case (Server_registers now sock msg)
  assume "nm_step env e s = Some s'"
  with Server_registers show ?thesis
    by (cases s) (auto intro: honours_same honours_register split: option.splits)
qed (cases s; auto intro!: same_honours same_trie)+

interpretation permissions: owner_controlled "\<lambda>s. rights (fst s)" "\<lambda>s. index_ok (fst s)" "nm_step env" actor for env
proof unfold_locales
  fix e and s s' :: "name_server \<times> 'a" and k u r u' r'
  assume ok: "index_ok (fst s)" and st: "nm_step env e s = Some s'"
  note h = honours_step [OF st]
  show "index_ok (fst s')" using h ok by (simp add: honours_def)
  assume r: "rights (fst s) k = Some (u, r)"
  show "rights (fst s') k = Some (u, r)" if "actor e \<noteq> Some u"
    using h ok r that by (simp add: honours_def)
  show "u' = u" if "rights (fst s') k = Some (u', r')"
    using h ok r that by (simp add: honours_def)
qed

section \<open>Access checks\<close>

definition acl_check :: "string \<Rightarrow> int \<Rightarrow> acl_entry list \<Rightarrow> bool" where
  "acl_check u required acl =
     (case find_index (\<lambda>a. acl_username a = u) acl of
        Some i \<Rightarrow> acl_grants required (acl_access (acl ! i)) | None \<Rightarrow> False)"

definition has_room :: "string \<Rightarrow> acl_entry list \<Rightarrow> bool" where
  "has_room u acl \<longleftrightarrow> u \<in> acl_username ` set acl \<or> length acl < MAX_ACL_ENTRIES"

lemma check_access_rights:
  "check_access f u required nm =
    (case rights nm f of None \<Rightarrow> False | Some (own, acl) \<Rightarrow> own = u \<or> acl_check u required acl)"
  by (simp add: check_access_def rights_def acl_check_def split: option.split)

lemma acl_check_grant:
  "acl_check u required (grant v a acl) =
    (if u = v \<and> has_room v acl then acl_grants required a else acl_check u required acl)"
proof (cases "find_index (\<lambda>e. acl_username e = v) acl")
  case None
  then have n: "v \<notin> acl_username ` set acl" by (auto simp: find_index_None)
  have nt: "(acl @ [e]) ! i = acl ! i" if "find_index P acl = Some i" for P e and i
    using that by (simp add: nth_append find_index_bound)
  from None n show ?thesis
    by (auto simp: acl_check_def grant_def has_room_def find_index_append nth_append find_index_bound split: option.split)
next
  case (Some i)
  then have i: "i < length acl" "acl_username (acl ! i) = v" by (simp_all add: find_index_Some)
  then have room: "has_room v acl" by (auto simp: has_room_def)
  let ?e = "(acl ! i)\<lparr>acl_access := a\<rparr>"
  have g: "grant v a acl = acl[i := ?e]" by (simp add: grant_def Some)
  show ?thesis
  proof (cases "u = v")
    case True
    have "find_index (\<lambda>x. acl_username x = v) (acl[i := ?e]) = Some i"
      by (rule find_index_update [OF Some]) (simp add: i)
    with True i room show ?thesis by (simp add: acl_check_def g)
  next
    case False
    have f: "find_index (\<lambda>x. acl_username x = u) (acl[i := ?e]) = find_index (\<lambda>x. acl_username x = u) acl"
      by (rule find_index_update_other) (use i False in auto)
    have "acl[i := ?e] ! j = acl ! j" if "find_index (\<lambda>x. acl_username x = u) acl = Some j" for j
      using that False i(2) by (cases "j = i") (auto simp: find_index_Some)
    with False show ?thesis by (simp add: acl_check_def g f split: option.split)
  qed
qed

lemma acl_check_map_of:
  "acl_check u required acl =
    (case map_of (map (\<lambda>a. (acl_username a, acl_access a)) acl) u of None \<Rightarrow> False | Some a \<Rightarrow> acl_grants required a)"
  by (induction acl) (auto simp: acl_check_def split: option.splits)

lemma remove_nth_Cons: "remove_nth 0 (x # xs) = xs" "remove_nth (Suc j) (x # xs) = x # remove_nth j xs"
  by (simp_all add: remove_nth_def)

lemma map_of_remove_nth:
  assumes "distinct (map fst xs)" and "i < length xs"
  shows "map_of (remove_nth i xs) u = (if u = fst (xs ! i) then None else map_of xs u)"
  using assms
proof (induction xs arbitrary: i)
  case (Cons x xs)
  show ?case
  proof (cases i)
    case 0
    have "map_of xs (fst x) = None" using Cons.prems(1) by (simp add: map_of_eq_None_iff)
    with 0 show ?thesis by (cases x) (simp add: remove_nth_Cons)
  next
    case (Suc j)
    with Cons.prems have "fst x \<noteq> fst (xs ! j)" by auto
    with Cons.IH [of j] Cons.prems Suc show ?thesis by (cases x) (auto simp: remove_nth_Cons)
  qed
qed simp

lemma acl_check_revoke:
  assumes "acl_ok acl"
  shows "acl_check u required (revoke v acl) = (u \<noteq> v \<and> acl_check u required acl)"
proof (cases "find_index (\<lambda>e. acl_username e = v) acl")
  case None
  then have "\<not> acl_check v required acl" by (simp add: acl_check_def)
  with None show ?thesis by (auto simp: revoke_def)
next
  case (Some i)
  then have i: "i < length acl" "acl_username (acl ! i) = v" by (simp_all add: find_index_Some)
  let ?p = "\<lambda>a. (acl_username a, acl_access a)"
  have "distinct (map fst (map ?p acl))" using assms by (simp add: acl_ok_def comp_def)
  from map_of_remove_nth [OF this, of i u] i Some show ?thesis
    by (simp add: acl_check_map_of revoke_def map_remove_nth split: option.split)
qed

lemma store_rights:
  "store_metadata f m' nm = Some nm' \<Longrightarrow> trie_search (nm_file_trie nm) f = Some m
    \<Longrightarrow> rights nm' = (rights nm)(f \<mapsto> (fm_owner m', fm_acl m'))"
  by (auto simp: store_metadata_def bind_eq_Some_conv rights_def search_update fun_eq_iff)

section \<open>Properties\<close>

fun nm_run :: "'w environment \<Rightarrow> nm_event list \<Rightarrow> name_server \<times> 'w \<Rightarrow> (name_server \<times> 'w) option" where
  "nm_run env [] s = Some s"
| "nm_run env (e # es) s = Option.bind (nm_step env e s) (nm_run env es)"

lemma nm_run_steps: "nm_run env es s = permissions.steps env es s"
proof (induction es arbitrary: s)
  case (Cons e es)
  then have "nm_run env es = permissions.steps env es" by (simp add: fun_eq_iff)
  then show ?case by simp
qed simp

lemma init_index_ok: "index_ok init_name_server"
  by (simp add: index_ok_def init_name_server_def init_trie_def)


definition quiet_world :: "unit environment" where
  "quiet_world = \<lparr>env_rpc = \<lambda>_ _ w. (0, reply SUCCESS, w), env_shell = \<lambda>_ w. (None, w), env_strftime = \<lambda>_. []\<rparr>"

lemma az_field: "strtok (CHR '','') ''az'' = [''az'']"
  unfolding strtok_def by (subst split_fields.simps, simp, subst split_fields.simps, simp)

definition user_request :: "message_type \<Rightarrow> string \<Rightarrow> string \<Rightarrow> message" where
  "user_request t u f = init_message\<lparr>msg_type := type_code t, msg_sender := u, msg_filename := f\<rparr>"

lemma user_request_simps [simp]:
  "msg_type (user_request t u f) = type_code t" "msg_sender (user_request t u f) = u"
  "msg_filename (user_request t u f) = f"
  by (simp_all add: user_request_def)

definition small_server :: "acl_entry list \<Rightarrow> name_server" where
  "small_server acl = init_name_server
     \<lparr>nm_file_trie := snd (trie_insert ''az'' (blank_metadata\<lparr>fm_filename := ''az'', fm_owner := ''ann'', fm_acl := acl\<rparr>) init_trie)\<rparr>"


text \<open>
  C22. The owner's ADDACCESS for a registered user changes exactly that user's access to exactly
  that file, to the access in the request; in a full list without an entry for the user it changes
  nothing, and answers \<open>SUCCESS\<close> all the same.
\<close>

theorem addaccess_correct:
  assumes "handle_access msg nm = Some (r, nm')" and "msg_type msg = type_code MSG_ADDACCESS"
    and "rights nm (msg_filename msg) = Some (msg_sender msg, acl)"
    and "user_exists (msg_target_user msg) nm" and "msg_target_user msg \<noteq> msg_sender msg"
  shows "msg_status r = SUCCESS \<and>
    (\<forall>f u required. check_access f u required nm' =
       (if f = msg_filename msg \<and> u = msg_target_user msg \<and> has_room u acl
        then acl_grants required (msg_access msg) else check_access f u required nm))"
proof -
  obtain m where m: "trie_search (nm_file_trie nm) (msg_filename msg) = Some m" "fm_owner m = msg_sender msg" "fm_acl m = acl"
    using assms(3) by (auto simp: rights_def)
  with assms have st: "store_metadata (msg_filename msg)
        (m\<lparr>fm_acl := grant (msg_target_user msg) (msg_access msg) acl\<rparr>) nm = Some nm'" "r = reply SUCCESS"
    by (auto simp: handle_access_def Let_def)
  from store_rights [OF st(1) m(1)] have
    "rights nm' = (rights nm)(msg_filename msg \<mapsto> (msg_sender msg, grant (msg_target_user msg) (msg_access msg) acl))"
    using m(2) by simp
  with assms(3,5) st(2) show ?thesis by (auto simp: check_access_rights acl_check_grant reply_def)
qed

lemma small_server_simps:
  "rights (small_server acl) ''az'' = Some (''ann'', acl)"
  "trie_search (nm_file_trie (small_server acl)) ''az'' = Some (blank_metadata\<lparr>fm_filename := ''az'', fm_owner := ''ann'', fm_acl := acl\<rparr>)"
  by (simp_all add: rights_def small_server_def init_trie_def search_insert byte_index_def)

lemma small_server_index:
  assumes "acl_ok acl"
  shows "index_ok (small_server acl)"
  using assms by (auto simp: index_ok_def small_server_def init_trie_def search_insert split: if_splits)

lemma small_server_store: "\<exists>nm'. store_metadata ''az'' m (small_server acl) = Some nm'"
proof -
  have "length ([] :: (string \<times> file_metadata) list) < lc_capacity (init_cache CACHE_SIZE)"
    by (simp add: init_cache_def)
  then obtain c where "cache_put (init_cache CACHE_SIZE) ''az'' m = Some c"
    using singleton_cache [of CACHE_SIZE m] by auto
  then show ?thesis by (simp add: store_metadata_def small_server_def init_name_server_def)
qed

definition bob_known :: "name_server \<Rightarrow> name_server" where
  "bob_known nm = snd (register_user_persistent 0 ''bob'' 9 nm)"

lemma bob_known_simps [simp]:
  "nm_file_trie (bob_known nm) = nm_file_trie nm" "rights (bob_known nm) = rights nm"
  by (simp_all add: bob_known_def rights_def fun_eq_iff)

lemma bob_known_cache: "nm_cache (bob_known nm) = nm_cache nm"
  by (auto simp: bob_known_def register_user_persistent_def Let_def split: option.split)

lemma bob_exists: "user_exists ''bob'' (bob_known (small_server acl))"
  by (simp add: user_exists_def bob_known_def register_user_persistent_def find_user_def small_server_def
      init_name_server_def find_index_append)

theorem addaccess_correct_witness:
  "\<exists>r nm'. handle_access ((user_request MSG_ADDACCESS ''ann'' ''az'')\<lparr>msg_target_user := ''bob'', msg_access := ACCESS_READ\<rparr>)
        (bob_known (small_server [])) = Some (r, nm')
     \<and> check_access ''az'' ''bob'' ACCESS_READ nm' \<and> \<not> check_access ''az'' ''bob'' ACCESS_WRITE nm'"
proof -
  let ?m = "(user_request MSG_ADDACCESS ''ann'' ''az'')\<lparr>msg_target_user := ''bob'', msg_access := ACCESS_READ\<rparr>"
  let ?nm = "bob_known (small_server [])"
  obtain nm1 where "store_metadata ''az'' (blank_metadata\<lparr>fm_filename := ''az'', fm_owner := ''ann'', fm_acl := grant ''bob'' 1 []\<rparr>)
      (small_server []) = Some nm1"
    using small_server_store by blast
  then obtain nm' where h: "handle_access ?m ?nm = Some (reply SUCCESS, nm')"
    by (auto simp: handle_access_def Let_def small_server_simps bob_exists store_metadata_def bob_known_cache bind_eq_Some_conv)
  have t: "msg_type ?m = type_code MSG_ADDACCESS" by simp
  have rt: "rights ?nm (msg_filename ?m) = Some (msg_sender ?m, [])" by (simp add: small_server_simps)
  have e: "user_exists (msg_target_user ?m) ?nm" by (simp add: bob_exists)
  have d: "msg_target_user ?m \<noteq> msg_sender ?m" by simp
  from addaccess_correct [OF h t rt e d] h show ?thesis
    by (auto simp: has_room_def acl_grants_def)
qed

text \<open>
  C23. After the owner's REMACCESS the user has no access to the file, and nothing else changes.
\<close>

theorem remaccess_correct:
  assumes "handle_access msg nm = Some (r, nm')" and "msg_type msg = type_code MSG_REMACCESS" and "index_ok nm"
    and "rights nm (msg_filename msg) = Some (msg_sender msg, acl)"
  shows "msg_status r = SUCCESS \<and>
    (\<forall>f u required. check_access f u required nm' =
       (check_access f u required nm \<and> \<not> (f = msg_filename msg \<and> u = msg_target_user msg \<and> u \<noteq> msg_sender msg)))"
proof -
  obtain m where m: "trie_search (nm_file_trie nm) (msg_filename msg) = Some m" "fm_owner m = msg_sender msg" "fm_acl m = acl"
    using assms(4) by (auto simp: rights_def)
  have "type_code MSG_REMACCESS \<noteq> type_code MSG_ADDACCESS" by (simp add: type_code_def message_types_def)
  with assms m have st: "store_metadata (msg_filename msg) (m\<lparr>fm_acl := revoke (msg_target_user msg) acl\<rparr>) nm = Some nm'" "r = reply SUCCESS"
    by (auto simp: handle_access_def Let_def)
  from assms(3) m have ok: "acl_ok acl" by (auto simp: index_ok_def)
  from store_rights [OF st(1) m(1)] have
    "rights nm' = (rights nm)(msg_filename msg \<mapsto> (msg_sender msg, revoke (msg_target_user msg) acl))"
    using m(2) by simp
  with assms(4) st(2) show ?thesis by (auto simp: check_access_rights acl_check_revoke [OF ok] reply_def)
qed

theorem remaccess_correct_witness:
  "\<exists>r nm'. handle_access ((user_request MSG_REMACCESS ''ann'' ''az'')\<lparr>msg_target_user := ''bob''\<rparr>)
        (small_server [\<lparr>acl_username = ''bob'', acl_access = ACCESS_READ\<rparr>]) = Some (r, nm')
     \<and> \<not> check_access ''az'' ''bob'' ACCESS_READ nm' \<and> check_access ''az'' ''ann'' ACCESS_READ nm'"
proof -
  let ?acl = "[\<lparr>acl_username = ''bob'', acl_access = ACCESS_READ\<rparr>]"
  let ?m = "(user_request MSG_REMACCESS ''ann'' ''az'')\<lparr>msg_target_user := ''bob''\<rparr>"
  have ne: "type_code MSG_REMACCESS \<noteq> type_code MSG_ADDACCESS" by (simp add: type_code_def message_types_def)
  obtain nm' where "store_metadata ''az'' (blank_metadata\<lparr>fm_filename := ''az'', fm_owner := ''ann'', fm_acl := revoke ''bob'' ?acl\<rparr>)
      (small_server ?acl) = Some nm'"
    using small_server_store by blast
  then have h: "handle_access ?m (small_server ?acl) = Some (reply SUCCESS, nm')"
    using ne by (simp add: handle_access_def Let_def small_server_simps)
  have t: "msg_type ?m = type_code MSG_REMACCESS" by simp
  have ok: "index_ok (small_server ?acl)" by (rule small_server_index) (simp add: acl_ok_def)
  have rt: "rights (small_server ?acl) (msg_filename ?m) = Some (msg_sender ?m, ?acl)" by (simp add: small_server_simps)
  have own: "check_access ''az'' ''ann'' ACCESS_READ (small_server ?acl)"
    by (simp add: check_access_rights small_server_simps)
  from remaccess_correct [OF h t ok rt] h own show ?thesis by auto
qed

text \<open>The outcomes of an approval within the queue.\<close>

lemma approve_cases:
  assumes "handle_approverequest msg nm = Some (r, nm')"
    and "0 \<le> msg_sentence_index msg" and "nat (msg_sentence_index msg) < length (nm_access_requests nm)"
    and "req = nm_access_requests nm ! nat (msg_sentence_index msg)"
  shows "(case trie_search (nm_file_trie nm) (ar_filename req) of
      None \<Rightarrow> r = reply ERR_NOT_OWNER \<and> nm' = nm
    | Some m \<Rightarrow>
        if fm_owner m \<noteq> msg_sender msg then r = reply ERR_NOT_OWNER \<and> nm' = nm
        else \<exists>nm1. store_metadata (ar_filename req)
               (m\<lparr>fm_acl := grant (ar_username req) (ar_requested_access req) (fm_acl m)\<rparr>) nm = Some nm1
             \<and> r = reply SUCCESS
             \<and> nm' = nm1\<lparr>nm_access_requests := remove_nth (nat (msg_sentence_index msg)) (nm_access_requests nm)\<rparr>)"
proof -
  have b: "\<not> msg_sentence_index msg < 0" "\<not> int (length (nm_access_requests nm)) \<le> msg_sentence_index msg"
    using assms(2,3) by linarith+
  have h: "(case trie_search (nm_file_trie nm) (ar_filename req) of
        None \<Rightarrow> Some (reply ERR_NOT_OWNER, nm)
      | Some meta \<Rightarrow>
          if fm_owner meta \<noteq> msg_sender msg then Some (reply ERR_NOT_OWNER, nm)
          else Option.bind (store_metadata (ar_filename req)
               (meta\<lparr>fm_acl := grant (ar_username req) (ar_requested_access req) (fm_acl meta)\<rparr>) nm)
             (\<lambda>nm1. Some (reply SUCCESS,
                nm1\<lparr>nm_access_requests := remove_nth (nat (msg_sentence_index msg)) (nm_access_requests nm)\<rparr>)))
      = Some (r, nm')"
    using assms(1) b unfolding handle_approverequest_def Let_def assms(4) by (simp only: simp_thms if_False)
  then show ?thesis
    by (cases "trie_search (nm_file_trie nm) (ar_filename req)") (auto simp: bind_eq_Some_conv)
qed

text \<open>
  C24. Approving a pending request gives its user the requested access to its file, takes the request
  out of the queue, and changes nothing else; when the sender does not own the file, nothing
  changes at all.
\<close>

lemma store_requests: "store_metadata f m nm = Some nm' \<Longrightarrow> nm_access_requests nm' = nm_access_requests nm"
  by (auto simp: store_metadata_def bind_eq_Some_conv)


definition bob_waits :: "name_server \<Rightarrow> name_server" where
  "bob_waits nm = nm\<lparr>nm_access_requests :=
     [\<lparr>ar_username = ''bob'', ar_filename = ''az'', ar_requested_access = ACCESS_READWRITE, ar_request_time = 0\<rparr>]\<rparr>"


lemma entry_keys: "fst ` set (trie_entries t) = {k. trie_search t k \<noteq> None}"
proof (rule set_eqI)
  fix k
  have "k \<in> fst ` set (trie_entries t) \<longleftrightarrow> (\<exists>m. (k, m) \<in> set (trie_entries t))" by force
  then show "k \<in> fst ` set (trie_entries t) \<longleftrightarrow> k \<in> {k. trie_search t k \<noteq> None}"
    by (simp add: entries_search)
qed

text \<open>
  VIEW without flags answers with the names of exactly the files the user may read, in byte
  order, one per line, cut to the reply's buffer, as long as the index has at most \<open>MAX_FILES\<close> files.
\<close>

lemma view_shows_readable:
  assumes "index_ok nm" and "length (trie_entries (nm_file_trie nm)) \<le> MAX_FILES" and "msg_data msg = []"
  shows "\<exists>names r. handle_view env msg nm w = Some (r, nm, w)
     \<and> sorted_wrt (<) names \<and> set names = {f. check_access f (msg_sender msg) ACCESS_READ nm}
     \<and> msg_data r = reply_data (concat (map (\<lambda>f. f @ [CHR 0x0A]) names))"
proof -
  let ?es = "trie_entries (nm_file_trie nm)"
  let ?ok = "\<lambda>f. check_access f (msg_sender msg) ACCESS_READ nm"
  have "split_fields is_c_space [] = []" by (simp add: split_fields.simps)
  then have flags: "has_flag c (msg_data msg) = False" for c using assms(3) by (simp add: has_flag_def)
  have key: "fm_filename m = k" if "(k, m) \<in> set ?es" for k m
    using that assms(1) by (auto simp: entries_search index_ok_def)
  have files: "trie_get_all_files (nm_file_trie nm) MAX_FILES = map snd ?es"
    using assms(2) by (simp add: trie_get_all_files_def collect_entries)
  have names: "map fm_filename (map snd ?es) = map fst ?es" using key by force
  let ?names = "filter ?ok (map fst ?es)"
  have lines: "map (view_line env False) (filter (\<lambda>m. ?ok (fm_filename m)) (map snd ?es)) = map (\<lambda>f. f @ [CHR 0x0A]) ?names"
  proof -
    have "map fm_filename (filter (\<lambda>m. ?ok (fm_filename m)) (map snd ?es)) = ?names"
      by (simp only: names [symmetric] filter_map comp_def)
    then have "map (\<lambda>f. f @ [CHR 0x0A]) ?names = map ((\<lambda>f. f @ [CHR 0x0A]) \<circ> fm_filename) (filter (\<lambda>m. ?ok (fm_filename m)) (map snd ?es))"
      by (metis map_map)
    then show ?thesis by (simp add: view_line_def comp_def)
  qed
  let ?r = "(reply SUCCESS)\<lparr>msg_type := type_code MSG_DATA, msg_data := reply_data (concat (map (\<lambda>f. f @ [CHR 0x0A]) ?names))\<rparr>"
  have "handle_view env msg nm w = Some (?r, nm, w)"
    unfolding handle_view_def flags files by (simp del: map_map ACCESS_READ_def add: lines)
  moreover have "sorted_wrt (<) ?names" using sorted_entries by (rule sorted_wrt_filter)
  moreover have "set ?names = {f. ?ok f}"
  proof -
    have "trie_search (nm_file_trie nm) f \<noteq> None" if "?ok f" for f
      using that by (auto simp: check_access_def split: option.splits)
    then show ?thesis unfolding set_filter set_map entry_keys by blast
  qed
  ultimately show ?thesis by (intro exI [of _ ?names] exI [of _ ?r]) simp
qed

text \<open>
  The text of LIST fits the 8192 bytes it is printed to, whoever is connected or registered:
  the loops stop in time for the names the name server accepts.
\<close>

lemma list_users_fits:
  assumes "\<And>u. u \<in> set us \<Longrightarrow> length (u @ suffix) \<le> 73" and "length buffer \<le> 8091"
  shows "length (list_users suffix us buffer) \<le> 8164"
  using assms
proof (induction suffix us buffer rule: list_users.induct)
  case (2 suffix u us buffer)
  have u: "length u + length suffix \<le> 73" using "2.prems"(1) [of u] by simp
  show ?case
  proof (cases "length (buffer @ u @ suffix) \<ge> MAX_BUFFER - 100")
    case True
    with u "2.prems"(2) show ?thesis by simp
  next
    case False
    then have "length (buffer @ u @ suffix) \<le> 8091" by simp
    with "2.IH" [OF refl] "2.prems"(1) False show ?thesis by simp
  qed
qed simp

lemma list_users_length:
  assumes "\<And>u. u \<in> set us \<Longrightarrow> length (u @ suffix) \<le> n"
  shows "length (list_users suffix us buffer) \<le> length buffer + n * length us"
  using assms
proof (induction suffix us buffer rule: list_users.induct)
  case (2 suffix u us buffer)
  have u: "length u + length suffix \<le> n" using "2.prems"(1) [of u] by simp
  show ?case
  proof (cases "length (buffer @ u @ suffix) \<ge> MAX_BUFFER - 100")
    case True
    with u show ?thesis by simp
  next
    case False
    with "2.IH" [OF refl] "2.prems" u show ?thesis by (fastforce simp: algebra_simps)
  qed
qed simp

lemma list_fits:
  assumes "nm_client_count nm \<le> MAX_CLIENTS"
    and "\<forall>c \<in> set (nm_client_list nm). length (ci_username c) < MAX_USERNAME"
    and "\<forall>u \<in> set (nm_registered_users nm). length (ru_username u) < MAX_USERNAME"
  shows "length (list_text nm) < MAX_BUFFER"
proof -
  let ?online = "list_users ('' (online)'' @ [CHR 0x0A]) (map ci_username (take (nm_client_count nm) (nm_client_list nm)))
    (''=== Connected Users ==='' @ [CHR 0x0A])"
  have "length ?online \<le> length (''=== Connected Users ==='' @ [CHR 0x0A])
      + 73 * length (map ci_username (take (nm_client_count nm) (nm_client_list nm)))"
    by (rule list_users_length) (use assms(2) in \<open>auto dest!: in_set_takeD\<close>)
  also have "\<dots> \<le> 24 + 73 * 100" using assms(1) by (simp add: min_def)
  finally have "length (?online @ [CHR 0x0A] @ ''=== All Registered Users ==='' @ [CHR 0x0A]) \<le> 8091" by simp
  then have "length (list_users [CHR 0x0A] (map ru_username (nm_registered_users nm))
      (?online @ [CHR 0x0A] @ ''=== All Registered Users ==='' @ [CHR 0x0A])) \<le> 8164"
    by (intro list_users_fits) (use assms(3) in auto)
  then show ?thesis unfolding list_text_def Let_def by simp
qed

end
