(* ===== verification/Client.thy ===== *)
theory Client
  imports Common "HOL-Library.Monad_Syntax"
begin

text \<open>
  \<open>client.c\<close>: the commands of a user. A handler builds a message, exchanges it with the name server
  (and, for reading and writing, with a storage server) and prints what comes back. The network
  and the standard input are parameters: the functions below give the text printed and the state
  the network is left in.
\<close>

section \<open>The network and the state of the client\<close>

text \<open>
  \<open>send_message\<close> and \<open>recv_message\<close> on a socket with their result codes, opening a connection to a
  parsed address (\<open>None\<close> when the address was not parsed and its variables hold anything), and
  \<open>close\<close>. When \<open>recv_message\<close> fails it leaves the structure alone: the message given then is what
  an uninitialised structure holds. \<open>'w\<close> is the state of the programs at the other end.
\<close>

record 'w network =
  net_send :: "int \<Rightarrow> message \<Rightarrow> 'w \<Rightarrow> int \<times> 'w"
  net_recv :: "int \<Rightarrow> 'w \<Rightarrow> int \<times> message \<times> 'w"
  net_connect :: "(string \<times> int) option \<Rightarrow> 'w \<Rightarrow> int \<times> 'w"
  net_close :: "int \<Rightarrow> 'w \<Rightarrow> 'w"

text \<open>The globals of the signal handling are fields of the client.\<close>

record client =
  cl_username :: string
  cl_nm_sock :: int
  cl_ss_sock :: int
  cl_locked_sentence :: int
  cl_locked_filename :: string

abbreviation (input) nl :: string where
  "nl \<equiv> [CHR 0x0A]"

definition request_message :: "client \<Rightarrow> message_type \<Rightarrow> message" where
  "request_message c t = init_message\<lparr>msg_type := type_code t, msg_sender := cl_username c\<rparr>"

text \<open>\<open>send_message(client.nm_sock, &msg); recv_message(client.nm_sock, &response);\<close>\<close>

definition ask :: "'w network \<Rightarrow> int \<Rightarrow> message \<Rightarrow> 'w \<Rightarrow> message \<times> 'w" where
  "ask net sock msg w =
     (let (_, w1) = net_send net sock msg w; (_, response, w2) = net_recv net sock w1 in (response, w2))"

definition ask_nm :: "'w network \<Rightarrow> client \<Rightarrow> message \<Rightarrow> 'w \<Rightarrow> message \<times> 'w" where
  "ask_nm net c msg w = ask net (cl_nm_sock c) msg w"

definition print_error :: "int \<Rightarrow> string" where
  "print_error status =
     (if status = ERR_FILE_NOT_FOUND then ''Error: File not found''
      else if status = ERR_ACCESS_DENIED then ''Error: Access denied''
      else if status = ERR_SENTENCE_LOCKED then ''Error: Sentence is locked by another user''
      else if status = ERR_FILE_LOCKED then
        ''Error: Cannot delete file - one or more sentences are currently locked by other users''
      else if status = ERR_INVALID_INDEX then ''Error: Invalid sentence or word index''
      else if status = ERR_FILE_EXISTS then ''Error: File already exists''
      else if status = ERR_SS_UNAVAILABLE then ''Error: Storage server unavailable''
      else if status = ERR_INVALID_OPERATION then ''Error: Invalid operation''
      else if status = ERR_NOT_OWNER then ''Error: You are not the owner of this file''
      else if status = ERR_USER_NOT_FOUND then ''Error: User not found''
      else ''Error: Unknown error (code '' @ dec_int status @ '')'') @ nl"

definition report :: "(message \<Rightarrow> string) \<Rightarrow> message \<times> 'w \<Rightarrow> string \<times> 'w" where
  "report shown p =
     (case p of (response, w) \<Rightarrow>
        (if msg_status response = SUCCESS then shown response else print_error (msg_status response), w))"

text \<open>\<open>sscanf(ss_info, "%[^:]:%d", ip, &port)\<close>.\<close>

definition parse_address :: "string \<Rightarrow> (string \<times> int) option" where
  "parse_address ss_info =
     (let ip = takeWhile (\<lambda>c. c \<noteq> CHR '':'') ss_info in
      if ip = [] then None
      else case dropWhile (\<lambda>c. c \<noteq> CHR '':'') ss_info of
          [] \<Rightarrow> None
        | _ # rest \<Rightarrow> map_option (\<lambda>(v, _). (ip, to_int32 (clamp64 v))) (scan_number rest))"

definition connect_to_ss :: "'w network \<Rightarrow> string \<Rightarrow> 'w \<Rightarrow> int \<times> 'w" where
  "connect_to_ss net ss_info w = net_connect net (parse_address ss_info) w"

definition perform_pending_unlock :: "'w network \<Rightarrow> client \<Rightarrow> 'w \<Rightarrow> string \<times> client \<times> 'w" where
  "perform_pending_unlock net c w =
     (if cl_ss_sock c > 0 \<and> cl_locked_sentence c \<ge> 0 then
        let msg = (request_message c MSG_CANCEL_WRITE)\<lparr>msg_filename := strncpy (MAX_FILENAME - 1) (cl_locked_filename c),
              msg_sentence_index := cl_locked_sentence c\<rparr>;
            c1 = c\<lparr>cl_locked_sentence := -1, cl_locked_filename := []\<rparr>;
            (ret, w1) = net_send net (cl_ss_sock c) msg w
        in if ret < 0 then (''Error sending cancel message'' @ nl, c1, w1)
           else let (ret2, resp, w2) = net_recv net (cl_ss_sock c) w1 in
             (if ret2 \<ge> 0 then
                if msg_status resp = SUCCESS then
                  nl @ ''[INFO] Write session cancelled and sentence '' @ dec_int (cl_locked_sentence c) @ '' in file '' @
                  cl_locked_filename c @ '' unlocked due to interrupt signal.'' @ nl
                else nl @ ''[WARN] Cancel returned status '' @ dec_int (msg_status resp) @ nl
              else ''[WARN] No response received for cancel message'' @ nl, c1, w2)
      else ([], c, w))"

section \<open>Commands answered by the name server\<close>

definition handle_createfolder_cmd :: "'w network \<Rightarrow> client \<Rightarrow> string \<Rightarrow> string option \<Rightarrow> 'w \<Rightarrow> string \<times> 'w" where
  "handle_createfolder_cmd net c foldername parent_path w =
     report (\<lambda>_. ''Folder created successfully!'' @ nl)
       (ask_nm net c ((request_message c MSG_CREATEFOLDER)\<lparr>msg_foldername := foldername,
          msg_target_path := (case parent_path of None \<Rightarrow> [] | Some p \<Rightarrow> p)\<rparr>) w)"

definition handle_move_file :: "'w network \<Rightarrow> client \<Rightarrow> string \<Rightarrow> string \<Rightarrow> 'w \<Rightarrow> string \<times> 'w" where
  "handle_move_file net c filename foldername w =
     report (\<lambda>_. ''File moved successfully!'' @ nl)
       (ask_nm net c ((request_message c MSG_MOVE)\<lparr>msg_filename := filename, msg_target_path := foldername\<rparr>) w)"

definition handle_viewfolder_cmd :: "'w network \<Rightarrow> client \<Rightarrow> string \<Rightarrow> 'w \<Rightarrow> string \<times> 'w" where
  "handle_viewfolder_cmd net c foldername w =
     report msg_data (ask_nm net c ((request_message c MSG_VIEWFOLDER)\<lparr>msg_target_path := foldername\<rparr>) w)"

definition handle_view_cmd :: "'w network \<Rightarrow> client \<Rightarrow> string option \<Rightarrow> 'w \<Rightarrow> string \<times> 'w" where
  "handle_view_cmd net c args w =
     report msg_data (ask_nm net c ((request_message c MSG_VIEW)\<lparr>msg_data :=
        (case args of None \<Rightarrow> [] | Some a \<Rightarrow> strncpy (MAX_BUFFER - 1) a)\<rparr>) w)"

text \<open>The four commands on checkpoints differ in the type, the tag and the text.\<close>

definition checkpoint_cmd ::
    "'w network \<Rightarrow> client \<Rightarrow> message_type \<Rightarrow> string \<Rightarrow> string \<Rightarrow> (message \<Rightarrow> string) \<Rightarrow> 'w \<Rightarrow> string \<times> 'w" where
  "checkpoint_cmd net c t filename tag shown w =
     report shown (ask_nm net c ((request_message c t)\<lparr>msg_filename := filename, msg_checkpoint_tag := tag\<rparr>) w)"

definition handle_checkpoint :: "'w network \<Rightarrow> client \<Rightarrow> string \<Rightarrow> string \<Rightarrow> 'w \<Rightarrow> string \<times> 'w" where
  "handle_checkpoint net c filename tag =
     checkpoint_cmd net c MSG_CHECKPOINT filename tag (\<lambda>_. ''Checkpoint '' @ [CHR 0x27] @ tag @ [CHR 0x27] @ '' created successfully!'' @ nl)"

definition handle_viewcheckpoint :: "'w network \<Rightarrow> client \<Rightarrow> string \<Rightarrow> string \<Rightarrow> 'w \<Rightarrow> string \<times> 'w" where
  "handle_viewcheckpoint net c filename tag =
     checkpoint_cmd net c MSG_VIEWCHECKPOINT filename tag (\<lambda>r. msg_data r @ nl)"

definition handle_revert :: "'w network \<Rightarrow> client \<Rightarrow> string \<Rightarrow> string \<Rightarrow> 'w \<Rightarrow> string \<times> 'w" where
  "handle_revert net c filename tag =
     checkpoint_cmd net c MSG_REVERT filename tag
       (\<lambda>_. ''File reverted to checkpoint '' @ [CHR 0x27] @ tag @ [CHR 0x27] @ '' successfully!'' @ nl)"

definition handle_listcheckpoints :: "'w network \<Rightarrow> client \<Rightarrow> string \<Rightarrow> 'w \<Rightarrow> string \<times> 'w" where
  "handle_listcheckpoints net c filename =
     checkpoint_cmd net c MSG_LISTCHECKPOINTS filename [] (\<lambda>r. ''Checkpoints for '' @ filename @ '':'' @ nl @ msg_data r)"

text \<open>CREATE alone looks at the result codes of the exchange, and prints nothing when it fails.\<close>

definition handle_create_cmd :: "'w network \<Rightarrow> client \<Rightarrow> string \<Rightarrow> 'w \<Rightarrow> string \<times> 'w" where
  "handle_create_cmd net c filename w =
     (let (ret, w1) = net_send net (cl_nm_sock c) ((request_message c MSG_CREATE)\<lparr>msg_filename := filename\<rparr>) w in
      if ret < 0 then ([], w1)
      else let (ret2, response, w2) = net_recv net (cl_nm_sock c) w1 in
        if ret2 < 0 then ([], w2)
        else report (\<lambda>_. ''File created successfully!'' @ nl) (response, w2))"

definition handle_delete_cmd :: "'w network \<Rightarrow> client \<Rightarrow> string \<Rightarrow> 'w \<Rightarrow> string \<times> 'w" where
  "handle_delete_cmd net c filename w =
     report (\<lambda>_. ''File deleted successfully!'' @ nl)
       (ask_nm net c ((request_message c MSG_DELETE)\<lparr>msg_filename := filename\<rparr>) w)"

definition handle_info_cmd :: "'w network \<Rightarrow> client \<Rightarrow> string \<Rightarrow> 'w \<Rightarrow> string \<times> 'w" where
  "handle_info_cmd net c filename w =
     report msg_data (ask_nm net c ((request_message c MSG_INFO)\<lparr>msg_filename := filename\<rparr>) w)"

definition handle_list_cmd :: "'w network \<Rightarrow> client \<Rightarrow> 'w \<Rightarrow> string \<times> 'w" where
  "handle_list_cmd net c w = report msg_data (ask_nm net c (request_message c MSG_LIST) w)"

definition access_of_flag :: "string \<Rightarrow> int option" where
  "access_of_flag flag =
     (if flag = ''-R'' then Some ACCESS_READ else if flag = ''-W'' then Some ACCESS_READWRITE else None)"

definition bad_flag :: string where
  "bad_flag = ''Invalid flag. Use -R for read or -W for write'' @ nl"

definition handle_addaccess :: "'w network \<Rightarrow> client \<Rightarrow> string \<Rightarrow> string \<Rightarrow> string \<Rightarrow> 'w \<Rightarrow> string \<times> 'w" where
  "handle_addaccess net c flag filename username w =
     (case access_of_flag flag of
        None \<Rightarrow> (bad_flag, w)
      | Some a \<Rightarrow> report (\<lambda>_. ''Access granted successfully!'' @ nl)
          (ask_nm net c ((request_message c MSG_ADDACCESS)
             \<lparr>msg_filename := filename, msg_target_user := username, msg_access := a\<rparr>) w))"

definition handle_remaccess :: "'w network \<Rightarrow> client \<Rightarrow> string \<Rightarrow> string \<Rightarrow> 'w \<Rightarrow> string \<times> 'w" where
  "handle_remaccess net c filename username w =
     report (\<lambda>_. ''Access removed successfully!'' @ nl)
       (ask_nm net c ((request_message c MSG_REMACCESS)\<lparr>msg_filename := filename, msg_target_user := username\<rparr>) w)"

definition handle_exec_cmd :: "'w network \<Rightarrow> client \<Rightarrow> string \<Rightarrow> 'w \<Rightarrow> string \<times> 'w" where
  "handle_exec_cmd net c filename w =
     report msg_data (ask_nm net c ((request_message c MSG_EXEC)\<lparr>msg_filename := filename\<rparr>) w)"

definition handle_requestaccess_cmd :: "'w network \<Rightarrow> client \<Rightarrow> string \<Rightarrow> string \<Rightarrow> 'w \<Rightarrow> string \<times> 'w" where
  "handle_requestaccess_cmd net c flag filename w =
     (case access_of_flag flag of
        None \<Rightarrow> (bad_flag, w)
      | Some a \<Rightarrow> report (\<lambda>r. ''Access request sent successfully!'' @ nl @ (if msg_data r \<noteq> [] then msg_data r @ nl else []))
          (ask_nm net c ((request_message c MSG_REQUESTACCESS)\<lparr>msg_filename := filename, msg_access := a\<rparr>) w))"

definition handle_viewrequests_cmd :: "'w network \<Rightarrow> client \<Rightarrow> 'w \<Rightarrow> string \<times> 'w" where
  "handle_viewrequests_cmd net c w =
     report (\<lambda>r. ''Pending Access Requests:'' @ nl @ msg_data r) (ask_nm net c (request_message c MSG_VIEWREQUESTS) w)"

definition handle_approverequest_cmd :: "'w network \<Rightarrow> client \<Rightarrow> string \<Rightarrow> 'w \<Rightarrow> string \<times> 'w" where
  "handle_approverequest_cmd net c request_id_str w =
     report (\<lambda>_. ''Access request approved successfully!'' @ nl)
       (ask_nm net c ((request_message c MSG_APPROVEREQUEST)\<lparr>msg_sentence_index := atoi request_id_str\<rparr>) w)"

definition handle_denyrequest_cmd :: "'w network \<Rightarrow> client \<Rightarrow> string \<Rightarrow> 'w \<Rightarrow> string \<times> 'w" where
  "handle_denyrequest_cmd net c request_id_str w =
     report (\<lambda>_. ''Access request denied successfully!'' @ nl)
       (ask_nm net c ((request_message c MSG_DENYREQUEST)\<lparr>msg_sentence_index := atoi request_id_str\<rparr>) w)"

section \<open>Commands answered by a storage server\<close>

definition no_server :: string where
  "no_server = ''Error: Could not connect to storage server'' @ nl"

text \<open>
  READ and UNDO: the address from the name server, then the request itself. The answer of the storage
  server goes to the structure that held the answer of the name server.
\<close>

definition via_server ::
    "'w network \<Rightarrow> client \<Rightarrow> message_type \<Rightarrow> (message \<Rightarrow> string) \<Rightarrow> string \<Rightarrow> 'w \<Rightarrow> string \<times> 'w" where
  "via_server net c t shown filename w =
     (let msg = (request_message c t)\<lparr>msg_filename := filename\<rparr>;
          (response, w1) = ask_nm net c msg w
      in if msg_status response \<noteq> SUCCESS then (print_error (msg_status response), w1)
         else
           let (ss_sock, w2) = connect_to_ss net (msg_data response) w1 in
           if ss_sock < 0 then (no_server, w2)
           else
             let (_, w3) = net_send net ss_sock msg w2;
                 (ret, received, w4) = net_recv net ss_sock w3;
                 (out, w5) = report shown (if ret < 0 then response else received, w4)
             in (out, net_close net ss_sock w5))"

definition handle_read :: "'w network \<Rightarrow> client \<Rightarrow> string \<Rightarrow> 'w \<Rightarrow> string \<times> 'w" where
  "handle_read net c filename w = via_server net c MSG_READ (\<lambda>r. msg_data r @ nl) filename w"

definition handle_undo :: "'w network \<Rightarrow> client \<Rightarrow> string \<Rightarrow> 'w \<Rightarrow> string \<times> 'w" where
  "handle_undo net c filename w = via_server net c MSG_UNDO (\<lambda>_. ''Undo successful!'' @ nl) filename w"

text \<open>The loop that prints a stream runs until the connection ends or \<open>MSG_STOP\<close> comes, so maybe forever.\<close>

partial_function (option) stream_loop :: "'w network \<Rightarrow> int \<Rightarrow> string \<Rightarrow> 'w \<Rightarrow> (string \<times> 'w) option" where
  "stream_loop net ss_sock out w =
     (let (ret, resp, w1) = net_recv net ss_sock w in
      if ret < 0 then Some (out @ ''Stream interrupted'' @ nl, w1)
      else if msg_type resp = type_code MSG_STOP then Some (out, w1)
      else if msg_type resp \<noteq> type_code MSG_DATA then stream_loop net ss_sock out w1
      else stream_loop net ss_sock (out @ msg_data resp @ (if msg_status resp = 1 then '' '' else [])) w1)"

definition handle_stream :: "'w network \<Rightarrow> client \<Rightarrow> string \<Rightarrow> 'w \<Rightarrow> (string \<times> 'w) option" where
  "handle_stream net c filename w =
     (let (response, w1) = ask_nm net c ((request_message c MSG_READ)\<lparr>msg_filename := filename\<rparr>) w in
      if msg_status response \<noteq> SUCCESS then Some (print_error (msg_status response), w1)
      else
        let (ss_sock, w2) = connect_to_ss net (msg_data response) w1 in
        if ss_sock < 0 then Some (''Failed to connect to storage server for streaming'' @ nl, w2)
        else
          let (ret, w3) = net_send net ss_sock
                ((request_message c MSG_STREAM)\<lparr>msg_filename := strncpy (MAX_FILENAME - 1) filename\<rparr>) w2
          in if ret < 0 then Some (''Failed to request stream'' @ nl, net_close net ss_sock w3)
             else map_option (\<lambda>(out, w4). (out @ nl, net_close net ss_sock w4)) (stream_loop net ss_sock [] w3))"

section \<open>Escape sequences\<close>

definition BACKSLASH :: char where
  "BACKSLASH = CHR 0x5C"

definition escaped_char :: "char \<Rightarrow> char" where
  "escaped_char d =
     (if d = CHR ''n'' then CHR 0x0A else if d = CHR ''t'' then CHR 0x09 else if d = CHR ''r'' then CHR 0x0D
      else if d = CHR ''0'' then NUL else d)"

text \<open>
  The loop over \<open>src\<close> and \<open>dst\<close>. The buffer is then read as a C string, so a \<open>\0\<close> escape ends it.
\<close>

fun unescape :: "string \<Rightarrow> string" where
  "unescape [] = []"
| "unescape [c] = [c]"
| "unescape (c # d # cs) =
     (if c = BACKSLASH then escaped_char d # unescape cs else c # unescape (d # cs))"

definition process_escape_sequences :: "string \<Rightarrow> string" where
  "process_escape_sequences str = cstr (unescape str)"

section \<open>WRITE\<close>

text \<open>
  The standard input: each \<open>fgets\<close> gives a line (at most 8191 bytes), or SIGINT arrives; the end of
  the list is the end of the input.
\<close>

datatype stdin_event = Line string | Interrupt

text \<open>The variables of \<open>handle_write\<close> that change: the client's globals, \<open>ss_sock\<close>, and what was printed.\<close>

record 'w write_state =
  wr_client :: client
  wr_sock :: int
  wr_out :: string
  wr_world :: 'w

definition print_text :: "string \<Rightarrow> 'w write_state \<Rightarrow> 'w write_state" where
  "print_text t s = s\<lparr>wr_out := wr_out s @ t\<rparr>"

definition drop_connection :: "'w network \<Rightarrow> 'w write_state \<Rightarrow> 'w write_state" where
  "drop_connection net s =
     s\<lparr>wr_world := net_close net (wr_sock s) (wr_world s), wr_client := (wr_client s)\<lparr>cl_ss_sock := -1\<rparr>\<rparr>"

text \<open>What both failure branches do: ask the name server again, connect, and take the lock again.\<close>

definition relock :: "'w network \<Rightarrow> string \<Rightarrow> int \<Rightarrow> 'w write_state \<Rightarrow> 'w write_state" where
  "relock net filename sent_idx s =
     (let (ret, w1) = net_send net (wr_sock s) ((request_message (wr_client s) MSG_LOCK_SENTENCE)
            \<lparr>msg_filename := filename, msg_sentence_index := sent_idx\<rparr>) (wr_world s);
          (ret2, response, w2) = (if ret < 0 then (-1, init_message, w1) else net_recv net (wr_sock s) w1);
          s1 = s\<lparr>wr_world := w2\<rparr>
      in if ret < 0 \<or> ret2 < 0 then
           drop_connection net (print_text (''Error: Could not re-acquire lock after reconnection'' @ nl) s1)
         else if msg_status response \<noteq> SUCCESS then
           drop_connection net (print_text (''Error: Could not re-acquire lock - '' @ print_error (msg_status response)) s1)
         else print_text (''Lock re-acquired. Retrying write operation...'' @ nl) s1)"

definition reconnect :: "'w network \<Rightarrow> string \<Rightarrow> int \<Rightarrow> 'w write_state \<Rightarrow> 'w write_state" where
  "reconnect net filename sent_idx s0 =
     (let s = drop_connection net s0; c = wr_client s;
          (ret, w1) = net_send net (cl_nm_sock c) ((request_message c MSG_WRITE)\<lparr>msg_filename := filename\<rparr>) (wr_world s)
      in if ret < 0 then print_text (''Error: Could not contact Name Server for reconnection'' @ nl) (s\<lparr>wr_world := w1\<rparr>)
         else
           let (ret2, response, w2) = net_recv net (cl_nm_sock c) w1; s2 = s\<lparr>wr_world := w2\<rparr> in
           if ret2 < 0 then print_text (''Error: Lost connection to Name Server'' @ nl) s2
           else if msg_status response \<noteq> SUCCESS then
             print_text (''Error: File no longer available'' @ nl @ print_error (msg_status response)) s2
           else
             let (sock, w3) = connect_to_ss net (msg_data response) w2; s3 = s2\<lparr>wr_world := w3, wr_sock := sock\<rparr> in
             if sock < 0 then print_text (''Error: Could not reconnect to storage server'' @ nl) s3
             else relock net filename sent_idx
               (print_text (''Reconnected successfully. Attempting to re-acquire lock...'' @ nl)
                  (s3\<lparr>wr_client := c\<lparr>cl_ss_sock := sock\<rparr>\<rparr>)))"

definition attempt_text :: "string \<Rightarrow> nat \<Rightarrow> string" where
  "attempt_text place retry_count =
     ''Error: Storage server disconnected '' @ place @ nl @
     ''Attempting to reconnect (attempt '' @ dec_int (int retry_count + 1) @ ''/5)...'' @ nl"

text \<open>
  The retry loop of one WRITE, with \<open>tries\<close> rounds left: whether it succeeded, whether the storage
  server refused it, and the rounds left.
\<close>

fun try_write :: "'w network \<Rightarrow> string \<Rightarrow> int \<Rightarrow> int \<Rightarrow> string \<Rightarrow> nat \<Rightarrow> 'w write_state
    \<Rightarrow> bool \<times> bool \<times> nat \<times> 'w write_state" where
  "try_write net filename sent_idx word_idx content 0 s = (False, False, 0, s)"
| "try_write net filename sent_idx word_idx content (Suc tries) s =
     (let msg = (request_message (wr_client s) MSG_WRITE)
            \<lparr>msg_filename := filename, msg_sentence_index := sent_idx, msg_word_index := word_idx, msg_data := content\<rparr>;
          (ret, w1) = net_send net (wr_sock s) msg (wr_world s);
          s1 = s\<lparr>wr_world := w1\<rparr>
      in if ret < 0 then
           try_write net filename sent_idx word_idx content tries
             (reconnect net filename sent_idx (print_text (attempt_text ''during write'' (4 - tries)) s1))
         else
           let (ret2, response, w2) = net_recv net (wr_sock s) w1; s2 = s\<lparr>wr_world := w2\<rparr> in
           if ret2 < 0 then
             try_write net filename sent_idx word_idx content tries
               (reconnect net filename sent_idx (print_text (attempt_text ''while waiting for response'' (4 - tries)) s2))
           else if msg_status response \<noteq> SUCCESS then
             (False, True, Suc tries, print_text (''Write failed: '' @ print_error (msg_status response)) s2)
           else (True, False, Suc tries, print_text (''Write successful!'' @ nl) s2))"

definition bad_format :: string where
  "bad_format = ''Invalid format. Use: <word_index> <content>'' @ nl"

text \<open>The word index and the content of a line, or \<open>None\<close> when the format is wrong.\<close>

definition parse_write_line :: "string \<Rightarrow> (int \<times> string) option" where
  "parse_write_line line =
     (case dropWhile (\<lambda>c. c \<noteq> CHR '' '') line of
        [] \<Rightarrow> None
      | _ # content \<Rightarrow>
          map_option (\<lambda>(v, _). (to_int32 (clamp64 v), process_escape_sequences
              (if content \<noteq> [] \<and> last content = CHR 0x0A then butlast content else content)))
            (scan_number line))"

text \<open>
  The loop over the lines: the writes done and whether all went well, what is left of the input, and
  \<open>None\<close> for the exit on SIGINT.
\<close>

fun write_loop :: "'w network \<Rightarrow> string \<Rightarrow> int \<Rightarrow> nat \<Rightarrow> bool \<Rightarrow> stdin_event list \<Rightarrow> 'w write_state
    \<Rightarrow> (nat \<times> bool) option \<times> stdin_event list \<times> 'w write_state" where
  "write_loop net filename sent_idx write_count status [] s = (Some (write_count, status), [], print_text ''Client: '' s)"
| "write_loop net filename sent_idx write_count status (Interrupt # rest) s =
     (let s1 = print_text ''Client: '' s;
          (out, c, w) = perform_pending_unlock net (wr_client s1) (wr_world s1)
      in (None, rest, print_text (out @ nl @ ''Interrupted; exiting client.'' @ nl) (s1\<lparr>wr_client := c, wr_world := w\<rparr>)))"
| "write_loop net filename sent_idx write_count status (Line l # rest) s =
     (let s1 = print_text ''Client: '' s; line = trim_whitespace l in
      if line = ''ETIRW'' then (Some (write_count, status), rest, s1)
      else case parse_write_line line of
          None \<Rightarrow> write_loop net filename sent_idx write_count status rest (print_text bad_format s1)
        | Some (word_idx, content) \<Rightarrow>
            let (ok, refused, tries, s2) = try_write net filename sent_idx word_idx content 5 s1;
                write_count' = (if ok then Suc write_count else write_count);
                status' = (if refused then False else status)
            in if tries = 0 \<and> \<not> ok then
                 (Some (write_count', False), rest,
                  print_text (''Error: Could not complete write after 5 reconnection attempts'' @ nl) s2)
               else if \<not> ok \<and> tries = 5 then (Some (write_count', status'), rest, s2)
               else write_loop net filename sent_idx write_count' status' rest s2)"

text \<open>
  \<open>handle_write\<close>: \<open>None\<close> for the client is the exit on SIGINT.
\<close>

definition finish_write :: "'w network \<Rightarrow> string \<Rightarrow> int \<Rightarrow> nat \<Rightarrow> bool \<Rightarrow> 'w write_state \<Rightarrow> string \<times> client \<times> 'w" where
  "finish_write net filename sent_idx write_count status s =
     (let c = wr_client s;
          (out, w) =
            (if cl_ss_sock c > 0 then
               let (ret, w1) = net_send net (wr_sock s) ((request_message c MSG_UNLOCK_SENTENCE)
                     \<lparr>msg_filename := filename, msg_sentence_index := sent_idx\<rparr>) (wr_world s)
               in if ret < 0 then
                    (''Error: Could not send unlock (connection lost)'' @ nl, net_close net (wr_sock s) w1)
                  else
                    let (ret2, response, w2) = net_recv net (wr_sock s) w1 in
                    (if ret2 < 0 then ''Error: Could not receive unlock response (connection lost)'' @ nl
                     else if msg_status response \<noteq> SUCCESS then ''Unlock failed: '' @ print_error (msg_status response)
                     else [], net_close net (wr_sock s) w2)
             else ([], wr_world s));
          summary =
            (if write_count > 0 \<and> status then
               ''All writes completed successfully! ('' @ dec_int (int write_count) @ '' write(s))'' @ nl
             else if write_count = 0 then ''No writes performed.'' @ nl
             else ''Write session ended with errors. Completed '' @ dec_int (int write_count) @
               '' write(s) before failure.'' @ nl)
      in (wr_out s @ out @ summary, c\<lparr>cl_ss_sock := -1, cl_locked_sentence := -1, cl_locked_filename := []\<rparr>, w))"

definition handle_write :: "'w network \<Rightarrow> client \<Rightarrow> string \<Rightarrow> string \<Rightarrow> stdin_event list \<Rightarrow> 'w
    \<Rightarrow> string \<times> client option \<times> stdin_event list \<times> 'w" where
  "handle_write net c0 filename sent_idx_str stdin w =
     (let sent_idx = atoi sent_idx_str;
          c = c0\<lparr>cl_locked_sentence := -1, cl_locked_filename := []\<rparr>;
          (response, w1) = ask_nm net c ((request_message c MSG_WRITE)\<lparr>msg_filename := filename\<rparr>) w
      in if msg_status response \<noteq> SUCCESS then (print_error (msg_status response), Some c, stdin, w1)
         else
           let (sock, w2) = connect_to_ss net (msg_data response) w1 in
           if sock < 0 then (no_server, Some c, stdin, w2)
           else
             let (_, w3) = net_send net sock ((request_message c MSG_LOCK_SENTENCE)
                   \<lparr>msg_filename := filename, msg_sentence_index := sent_idx\<rparr>) w2;
                 (ret, received, w4) = net_recv net sock w3;
                 response2 = (if ret < 0 then response else received)
             in if msg_status response2 \<noteq> SUCCESS then
                  (print_error (msg_status response2), Some (c\<lparr>cl_ss_sock := -1\<rparr>), stdin, net_close net sock w4)
                else
                  let s = \<lparr>wr_client = c\<lparr>cl_ss_sock := sock, cl_locked_sentence := sent_idx,
                             cl_locked_filename := strncpy (MAX_FILENAME - 1) filename\<rparr>,
                           wr_sock = sock,
                           wr_out = ''Sentence locked. Enter writes (word_index content), then type ETIRW:'' @ nl,
                           wr_world = w4\<rparr>
                  in (case write_loop net filename sent_idx 0 True stdin s of
                        (None, rest, s') \<Rightarrow> (wr_out s', None, rest, wr_world s')
                      | (Some (write_count, status), rest, s') \<Rightarrow>
                          (case finish_write net filename sent_idx write_count status s' of
                             (out, c', w') \<Rightarrow> (out, Some c', rest, w'))))"

section \<open>The command loop\<close>

text \<open>\<open>strtok_r(line, " \t", ...)\<close>, and the arguments as VIEW sends them: one space, then all of them joined.\<close>

definition arguments :: "string \<Rightarrow> string list" where
  "arguments line = split_fields (\<lambda>c. c = CHR '' '' \<or> c = CHR 0x09) line"

definition view_tail :: "string list \<Rightarrow> string" where
  "view_tail args = (if args = [] then [] else take (MAX_BUFFER - 1) ('' '' @ concat args))"

definition usage :: "string \<Rightarrow> string" where
  "usage t = ''Usage: '' @ t @ nl"

datatype 'w command_result = Continue string client "stdin_event list" 'w | Leave string 'w

text \<open>What \<open>help\<close> prints.\<close>

definition help_text :: string where
  "help_text = concat (map (\<lambda>line. line @ nl)
    [''Available commands:'',
     ''  VIEW [-a] [-l] [-al]  - List files'',
     ''  READ <filename>       - Read file content'',
     ''  CREATE <filename>     - Create new file'',
     ''  WRITE <filename> <sent_idx> - Write to file'',
     ''  DELETE <filename>     - Delete file'',
     ''  INFO <filename>       - Get file information'',
     ''  STREAM <filename>     - Stream file content'',
     ''  LIST                  - List all users'',
     ''  ADDACCESS -R|-W <filename> <username> - Add access'',
     ''  REMACCESS <filename> <username> - Remove access'',
     ''  EXEC <filename>       - Execute file as commands'',
     ''  UNDO <filename>       - Undo last change'',
     ''  CREATEFOLDER <foldername> [parent_path] - Create new folder'',
     ''  MOVE <filename> <foldername> - Move file to folder'',
     ''  VIEWFOLDER <foldername>  - View folder contents'',
     ''  CHECKPOINT <filename> <tag> - Create checkpoint'',
     ''  VIEWCHECKPOINT <filename> <tag> - View checkpoint content'',
     ''  REVERT <filename> <tag> - Revert to checkpoint'',
     ''  LISTCHECKPOINTS <filename> - List all checkpoints'',
     ''  REQUESTACCESS -R|-W <filename> - Request file access'',
     ''  VIEWREQUESTS          - View pending access requests'',
     ''  APPROVEREQUEST <id>   - Approve access request'',
     ''  DENYREQUEST <id>      - Deny access request'',
     ''  exit                  - Exit client''])"

text \<open>One command line. \<open>None\<close>: the command does not return (STREAM).\<close>

definition run_command :: "'w network \<Rightarrow> client \<Rightarrow> string list \<Rightarrow> stdin_event list \<Rightarrow> 'w
    \<Rightarrow> 'w command_result option" where
  "run_command net c argv stdin w =
     (let cmd = hd argv; a = (\<lambda>i. argv ! i); n = length argv;
          say = (\<lambda>t. Some (Continue t c stdin w));
          need = (\<lambda>k u f. if n < k then say (usage u)
             else (case f w of (out, w') \<Rightarrow> Some (Continue out c stdin w')))
      in if cmd = ''exit'' \<or> cmd = ''quit'' then Some (Leave (''Goodbye!'' @ nl) w)
         else if cmd = ''help'' then say help_text
         else if cmd = ''VIEW'' then need 1 [] (handle_view_cmd net c (if n > 1 then Some (view_tail (tl argv)) else None))
         else if cmd = ''READ'' then need 2 ''READ <filename>'' (handle_read net c (a 1))
         else if cmd = ''CREATE'' then need 2 ''CREATE <filename>'' (handle_create_cmd net c (a 1))
         else if cmd = ''WRITE'' then
           (if n < 3 then say (usage ''WRITE <filename> <sentence_index>'')
            else case handle_write net c (a 1) (a 2) stdin w of
                (out, None, rest, w') \<Rightarrow> Some (Leave out w')
              | (out, Some c', rest, w') \<Rightarrow> Some (Continue out c' rest w'))
         else if cmd = ''DELETE'' then need 2 ''DELETE <filename>'' (handle_delete_cmd net c (a 1))
         else if cmd = ''INFO'' then need 2 ''INFO <filename>'' (handle_info_cmd net c (a 1))
         else if cmd = ''STREAM'' then
           (if n < 2 then say (usage ''STREAM <filename>'')
            else map_option (\<lambda>(out, w'). Continue out c stdin w') (handle_stream net c (a 1) w))
         else if cmd = ''LIST'' then need 1 [] (handle_list_cmd net c)
         else if cmd = ''ADDACCESS'' then need 4 ''ADDACCESS -R|-W <filename> <username>'' (handle_addaccess net c (a 1) (a 2) (a 3))
         else if cmd = ''REMACCESS'' then need 3 ''REMACCESS <filename> <username>'' (handle_remaccess net c (a 1) (a 2))
         else if cmd = ''EXEC'' then need 2 ''EXEC <filename>'' (handle_exec_cmd net c (a 1))
         else if cmd = ''UNDO'' then need 2 ''UNDO <filename>'' (handle_undo net c (a 1))
         else if cmd = ''CREATEFOLDER'' then
           need 2 ''CREATEFOLDER <foldername> [parent_path]'' (handle_createfolder_cmd net c (a 1) (if n > 2 then Some (a 2) else None))
         else if cmd = ''MOVE'' then need 3 ''MOVE <filename> <foldername>'' (handle_move_file net c (a 1) (a 2))
         else if cmd = ''VIEWFOLDER'' then need 2 ''VIEWFOLDER <foldername>'' (handle_viewfolder_cmd net c (a 1))
         else if cmd = ''CHECKPOINT'' then need 3 ''CHECKPOINT <filename> <tag>'' (handle_checkpoint net c (a 1) (a 2))
         else if cmd = ''VIEWCHECKPOINT'' then need 3 ''VIEWCHECKPOINT <filename> <tag>'' (handle_viewcheckpoint net c (a 1) (a 2))
         else if cmd = ''REVERT'' then need 3 ''REVERT <filename> <tag>'' (handle_revert net c (a 1) (a 2))
         else if cmd = ''LISTCHECKPOINTS'' then need 2 ''LISTCHECKPOINTS <filename>'' (handle_listcheckpoints net c (a 1))
         else if cmd = ''REQUESTACCESS'' then need 3 ''REQUESTACCESS -R|-W <filename>'' (handle_requestaccess_cmd net c (a 1) (a 2))
         else if cmd = ''VIEWREQUESTS'' then need 1 [] (handle_viewrequests_cmd net c)
         else if cmd = ''APPROVEREQUEST'' then need 2 ''APPROVEREQUEST <request_id>'' (handle_approverequest_cmd net c (a 1))
         else if cmd = ''DENYREQUEST'' then need 2 ''DENYREQUEST <request_id>'' (handle_denyrequest_cmd net c (a 1))
         else say (''Unknown command: '' @ cmd @ nl @ ''Type '' @ [CHR 0x27] @ ''help'' @ [CHR 0x27] @ '' for list of commands'' @ nl))"

text \<open>
  The loop, with \<open>fuel\<close> for its rounds: every round takes a line or ends, so the length of the input
  and one more is enough. \<open>None\<close> is a command that does not return; what is printed before it is lost.
\<close>

fun command_loop :: "nat \<Rightarrow> 'w network \<Rightarrow> client \<Rightarrow> stdin_event list \<Rightarrow> string \<Rightarrow> 'w \<Rightarrow> (string \<times> 'w) option" where
  "command_loop 0 net c stdin out w = None"
| "command_loop (Suc fuel) net c [] out w = Some (out @ nl @ ''> '', w)"
| "command_loop (Suc fuel) net c (Interrupt # rest) out w =
     (case perform_pending_unlock net c w of
        (t, _, w') \<Rightarrow> Some (out @ nl @ ''> '' @ t @ nl @ ''Received interrupt, exiting client.'' @ nl, w'))"
| "command_loop (Suc fuel) net c (Line l # rest) out w =
     (let out1 = out @ nl @ ''> ''; argv = arguments (trim_whitespace l) in
      if argv = [] then command_loop fuel net c rest out1 w
      else case run_command net c argv rest w of
          None \<Rightarrow> None
        | Some (Leave t w') \<Rightarrow> Some (out1 @ t, w')
        | Some (Continue t c' rest' w') \<Rightarrow> command_loop fuel net c' rest' (out1 @ t) w')"

section \<open>Starting and logging in\<close>

text \<open>
  \<open>connect_to_nm\<close>: the socket, then the login. The address \<open>getsockname\<close> gives (127.0.0.1 if it
  fails) is a parameter. No client is the exit with status 1.
\<close>

definition connect_to_nm :: "'w network \<Rightarrow> string \<Rightarrow> string \<Rightarrow> string \<Rightarrow> int \<Rightarrow> 'w \<Rightarrow> string \<times> client option \<times> 'w" where
  "connect_to_nm net local_ip username nm_ip nm_port w =
     (let (sock, w1) = net_connect net (Some (nm_ip, nm_port)) w in
      if sock < 0 then ([], None, w1)
      else
        let c = \<lparr>cl_username = username, cl_nm_sock = sock, cl_ss_sock = -1, cl_locked_sentence = -1, cl_locked_filename = []\<rparr>;
            (response, w2) = ask_nm net c ((request_message c MSG_REG_CLIENT)\<lparr>msg_data := local_ip\<rparr>) w1
        in if msg_status response = SUCCESS then
             (''[Client] Connected to Name Server at '' @ nm_ip @ '':'' @ dec_int nm_port @ nl, Some c, w2)
           else (''[Client] Registration failed'' @ nl, None, w2))"

text \<open>The arguments of the program: the address of the name server, or the text of the refusal.\<close>

definition main_arguments :: "string list \<Rightarrow> string + string \<times> int" where
  "main_arguments argv =
     (if length argv \<noteq> 3 then
        Inl (usage (hd argv @ '' <nm_ip> <nm_port>'') @ ''Example: '' @ hd argv @ '' 127.0.0.1 8081'' @ nl)
      else
        let nm_port = atoi (argv ! 2) in
        if nm_port \<le> 0 \<or> 65535 < nm_port then Inl (''Error: Invalid port number. Must be between 1 and 65535.'' @ nl)
        else if nm_port \<noteq> 8081 then Inl (''Error: To register as a user, you must register under port 8081.'' @ nl)
        else Inr (strncpy 15 (argv ! 1), nm_port))"

text \<open>The user name, from the line read, and what is printed.\<close>

definition init_client :: "string \<Rightarrow> string \<times> string" where
  "init_client name_line =
     (let username = trim_whitespace name_line
      in (username, ''Enter username: '' @ ''[Client] Username: '' @ username @ nl))"

text \<open>
  \<open>main\<close>, with what the \<open>fgets\<close> of \<open>init_client\<close> reads (at most 63 bytes) and the rest of the input.
\<close>

definition client_main ::
    "'w network \<Rightarrow> string \<Rightarrow> string list \<Rightarrow> string \<Rightarrow> stdin_event list \<Rightarrow> 'w \<Rightarrow> (string \<times> 'w) option" where
  "client_main net local_ip argv name_line stdin w =
     (case main_arguments argv of
        Inl t \<Rightarrow> Some (t, w)
      | Inr (nm_ip, nm_port) \<Rightarrow>
          (let (username, greeting) = init_client name_line
           in case connect_to_nm net local_ip username nm_ip nm_port w of
               (t, None, w1) \<Rightarrow> Some (greeting @ t, w1)
             | (t, Some c, w1) \<Rightarrow>
                 command_loop (Suc (length stdin)) net c stdin
                   (greeting @ t @ nl @ ''Welcome '' @ username @
                    ''! Type commands (or '' @ [CHR 0x27] @ ''help'' @ [CHR 0x27] @ '' for list, '' @
                    [CHR 0x27] @ ''exit'' @ [CHR 0x27] @ '' to quit):'' @ nl) w1))"

section \<open>The loops end\<close>

lemma write_loop_input: "write_loop net f i n status stdin s = (r, rest, s') \<Longrightarrow> length rest \<le> length stdin"
proof (induction stdin arbitrary: n status s)
  case (Cons e stdin)
  show ?case
  proof (cases e)
    case (Line l)
    let ?s = "print_text ''Client: '' s"
    show ?thesis
    proof (cases "parse_write_line (trim_whitespace l)")
      case None
      with Cons.prems Cons.IH [of n status "print_text bad_format ?s"] Line show ?thesis
        by (auto simp: Let_def split: if_splits)
    next
      case (Some p)
      obtain k content where p: "p = (k, content)" by (cases p)
      obtain ok refused tries s2 where t: "try_write net f i k content 5 ?s = (ok, refused, tries, s2)"
        by (cases "try_write net f i k content 5 ?s") auto
      have "rest = stdin \<or> write_loop net f i (if ok then Suc n else n) (if refused then False else status) stdin s2 = (r, rest, s')"
        using Cons.prems Some p t Line by (auto simp: Let_def split: if_splits)
      with Cons.IH show ?thesis by fastforce
    qed
  qed (use Cons.prems in \<open>auto simp: Let_def split: prod.splits\<close>)
qed simp

lemma handle_write_input: "length (fst (snd (snd (handle_write net c f i stdin w)))) \<le> length stdin"
  by (auto simp: handle_write_def Let_def split: prod.splits if_splits option.splits dest!: write_loop_input)

lemma run_command_input:
  "run_command net c argv stdin w = Some (Continue t c' rest w') \<Longrightarrow> length rest \<le> length stdin"
  using handle_write_input [of net c "argv ! 1" "argv ! 2" stdin w]
  by (simp add: run_command_def Let_def split_beta split: if_splits option.splits)

text \<open>The fuel of the command loop is a bound on its rounds only.\<close>

lemma command_loop_fuel:
  "length stdin < fuel \<Longrightarrow> length stdin < fuel' \<Longrightarrow>
    command_loop fuel net c stdin out w = command_loop fuel' net c stdin out w"
proof (induction fuel arbitrary: fuel' c stdin out w)
  case (Suc fuel)
  then obtain k where k: "fuel' = Suc k" by (cases fuel') auto
  show ?case
  proof (cases stdin)
    case (Cons e rest)
    show ?thesis
    proof (cases e)
      case (Line l)
      let ?argv = "arguments (trim_whitespace l)"
      have same: "command_loop fuel net d r t v = command_loop k net d r t v" if "length r \<le> length rest" for d r t v
        using Suc.IH [of r k d t v] Suc.prems k Cons that by simp
      show ?thesis
      proof (cases "run_command net c ?argv rest w")
        case (Some x)
        then show ?thesis using same run_command_input [of net c ?argv rest w]
          by (cases x) (auto simp: k Cons Line Let_def)
      qed (simp add: k Cons Line Let_def same)
    qed (simp add: k Cons)
  qed (simp add: k)
qed simp

text \<open>If every stream ends, every session does: each round takes a line of the input.\<close>

lemma run_command_None: "run_command net c argv stdin w = None \<Longrightarrow> handle_stream net c (argv ! 1) w = None"
  by (simp add: run_command_def Let_def split_beta split: if_splits option.splits)

lemma command_loop_returns:
  assumes "\<And>c f w. handle_stream net c f w \<noteq> None"
  shows "length stdin < fuel \<Longrightarrow> command_loop fuel net c stdin out w \<noteq> None"
proof (induction fuel arbitrary: c stdin out w)
  case (Suc fuel)
  show ?case
  proof (cases stdin)
    case (Cons e rest)
    show ?thesis
    proof (cases e)
      case (Line l)
      let ?argv = "arguments (trim_whitespace l)"
      have ends: "command_loop fuel net d r t v \<noteq> None" if "length r \<le> length rest" for d r t v
        using Suc.IH [of r d t v] Suc.prems Cons that by simp
      obtain x where x: "run_command net c ?argv rest w = Some x"
        using run_command_None [of net c ?argv rest w] assms by blast
      show ?thesis using ends run_command_input [of net c ?argv rest w] x
        by (cases x) (auto simp: Cons Line Let_def)
    qed (simp add: Cons split: prod.splits)
  qed simp
qed simp

lemma client_main_returns:
  assumes "\<And>c f w. handle_stream net c f w \<noteq> None"
  shows "client_main net local_ip argv name_line stdin w \<noteq> None"
  using command_loop_returns [OF assms]
  by (simp add: client_main_def Let_def split: sum.split prod.split option.split)

section \<open>Properties\<close>

text \<open>What a user types to get a text: the inverse of the escape sequences.\<close>

definition escape_char :: "char \<Rightarrow> string" where
  "escape_char c =
     (if c = CHR 0x0A then [BACKSLASH, CHR ''n''] else if c = CHR 0x09 then [BACKSLASH, CHR ''t'']
      else if c = CHR 0x0D then [BACKSLASH, CHR ''r''] else if c = BACKSLASH then [BACKSLASH, BACKSLASH] else [c])"

definition escape :: "string \<Rightarrow> string" where
  "escape s = concat (map escape_char s)"

lemma unescape_plain: "c \<noteq> BACKSLASH \<Longrightarrow> unescape (c # cs) = c # unescape cs"
  by (cases cs) simp_all

lemma unescape_escape_char: "unescape (escape_char c @ cs) = c # unescape cs"
  by (auto simp: escape_char_def unescape_plain escaped_char_def BACKSLASH_def)

lemma unescape_escape: "unescape (escape s) = s"
  by (induction s) (simp_all add: escape_def unescape_escape_char)

lemma length_unescape: "length (unescape s) \<le> length s"
  by (induction s rule: unescape.induct) auto

text \<open>
  \<open>process_escape_sequences\<close> decodes every text without NUL from its escaped form, line breaks
  and tabs included, and never writes past what it has read, so working in place is safe.
\<close>

lemma escape_roundtrip:
  assumes "no_nul s"
  shows "process_escape_sequences (escape s) = s \<and> length (process_escape_sequences t) \<le> length t"
proof -
  have "length (cstr (unescape t)) \<le> length (unescape t)" by (simp add: cstr_def length_takeWhile_le)
  also have "\<dots> \<le> length t" by (rule length_unescape)
  finally show ?thesis using assms by (simp add: process_escape_sequences_def unescape_escape)
qed

end
