(* ===== verification/Logger.thy ===== *)
theory Logger
  imports Prelude Common
begin

text \<open>
  \<open>logger.c\<close>: every program writes its entries to a log of its own and to \<open>logs.txt\<close>. The texts of
  the files are values; the time as text and the names that can be opened are parameters.
\<close>

section \<open>The state and the operations\<close>

datatype log_level = LOG_INFO | LOG_WARNING | LOG_ERROR | LOG_DEBUG | LOG_REQUEST | LOG_RESPONSE

fun log_level_str :: "log_level \<Rightarrow> string" where
  "log_level_str LOG_INFO = ''INFO''"
| "log_level_str LOG_WARNING = ''WARN''"
| "log_level_str LOG_ERROR = ''ERROR''"
| "log_level_str LOG_DEBUG = ''DEBUG''"
| "log_level_str LOG_REQUEST = ''REQ''"
| "log_level_str LOG_RESPONSE = ''RESP''"

text \<open>\<open>log_file\<close> and \<open>common_log\<close> are the names they were opened with, \<open>None\<close> for a null pointer.\<close>

record logger =
  lg_texts :: "string \<Rightarrow> string"
  lg_file :: "string option"
  lg_common :: "string option"
  lg_instance :: string

definition append_to :: "string option \<Rightarrow> string \<Rightarrow> logger \<Rightarrow> logger" where
  "append_to f t l =
     (case f of None \<Rightarrow> l | Some name \<Rightarrow> l\<lparr>lg_texts := (lg_texts l)(name := lg_texts l name @ t)\<rparr>)"

definition newline :: string where
  "newline = [CHR 0x0A]"

definition init_logger :: "(string \<Rightarrow> bool) \<Rightarrow> string \<Rightarrow> string \<Rightarrow> logger \<Rightarrow> int \<times> logger" where
  "init_logger can_open stamp log_filename l =
     (if \<not> can_open log_filename then (-1, l\<lparr>lg_file := None\<rparr>)
      else if \<not> can_open ''logs.txt'' then (-1, l\<lparr>lg_file := None, lg_common := None\<rparr>)
      else
        let l1 = l\<lparr>lg_file := Some log_filename, lg_common := Some ''logs.txt''\<rparr>;
            l2 = append_to (lg_file l1) (newline @ ''=== Log Started at '' @ stamp @ '' ==='' @ newline) l1
        in (0, append_to (lg_common l1) (newline @ ''=== '' @ lg_instance l @ '' Log Started at '' @ stamp @ '' ==='' @ newline) l2))"

definition set_instance_name :: "string \<Rightarrow> logger \<Rightarrow> logger" where
  "set_instance_name name l = l\<lparr>lg_instance := strncpy 63 name\<rparr>"

definition close_logger :: "string \<Rightarrow> logger \<Rightarrow> logger" where
  "close_logger stamp l =
     (let l1 = append_to (lg_file l) (''=== Log Closed at '' @ stamp @ '' ==='' @ newline @ newline) l;
          l2 = append_to (lg_common l) (''=== '' @ lg_instance l @ '' Log Closed at '' @ stamp @ '' ==='' @ newline @ newline) l1
      in l2\<lparr>lg_file := None, lg_common := None\<rparr>)"

text \<open>What \<open>log_message\<close> and \<open>log_formatted\<close> do with an entry.\<close>

definition put_entry :: "string \<Rightarrow> logger \<Rightarrow> logger" where
  "put_entry entry l = append_to (lg_common l) (entry @ newline) (append_to (lg_file l) (entry @ newline) l)"

definition or_na :: "string option \<Rightarrow> string" where
  "or_na s = (case s of None \<Rightarrow> ''N/A'' | Some t \<Rightarrow> t)"

definition log_message ::
    "string \<Rightarrow> log_level \<Rightarrow> string option \<Rightarrow> int \<Rightarrow> string option \<Rightarrow> string option \<Rightarrow> string option \<Rightarrow> string option
     \<Rightarrow> logger \<Rightarrow> logger" where
  "log_message stamp level ip port username operation status details l =
     put_entry (snprintf (MAX_BUFFER * 2)
       (''['' @ stamp @ ''] ['' @ lg_instance l @ ''] ['' @ log_level_str level @ ''] ['' @ or_na ip @ '':'' @ dec_int port @
        ''] [User: '' @ or_na username @ ''] [Op: '' @ or_na operation @ ''] [Status: '' @ or_na status @ ''] '' @
        (case details of None \<Rightarrow> [] | Some d \<Rightarrow> d))) l"

text \<open>\<open>text\<close> is what the format and its arguments give.\<close>

definition log_formatted :: "string \<Rightarrow> log_level \<Rightarrow> string \<Rightarrow> logger \<Rightarrow> logger" where
  "log_formatted stamp level formatted l =
     (let message = snprintf MAX_BUFFER formatted in
      put_entry (snprintf (MAX_BUFFER * 2)
        (''['' @ stamp @ ''] ['' @ lg_instance l @ ''] ['' @ log_level_str level @ ''] '' @ message)) l)"

text \<open>The text printed, and the log.\<close>

definition display_and_log :: "string \<Rightarrow> string \<Rightarrow> logger \<Rightarrow> string \<times> logger" where
  "display_and_log stamp message l =
     (snprintf (MAX_BUFFER * 2) (''['' @ lg_instance l @ ''] '' @ message) @ newline, log_formatted stamp LOG_INFO message l)"

section \<open>The two logs agree\<close>

datatype log_call =
    Entry string log_level "string option" int "string option" "string option" "string option" "string option"
  | Formatted string log_level string
  | Rename string

fun log_step :: "log_call \<Rightarrow> logger \<Rightarrow> logger" where
  "log_step (Entry stamp level ip port username operation status details) =
     log_message stamp level ip port username operation status details"
| "log_step (Formatted stamp level formatted) = log_formatted stamp level formatted"
| "log_step (Rename name) = set_instance_name name"

text \<open>\<open>grown l l' t\<close>: both files of \<open>l\<close> have grown by \<open>t\<close>, and nothing else has.\<close>

definition grown :: "logger \<Rightarrow> logger \<Rightarrow> string \<Rightarrow> bool" where
  "grown l l' t \<longleftrightarrow> lg_file l' = lg_file l \<and> lg_common l' = lg_common l \<and>
     (\<forall>name. lg_texts l' name = lg_texts l name @ (if lg_file l = Some name \<or> lg_common l = Some name then t else []))"

lemma grown_refl: "grown l l []"
  by (simp add: grown_def)

lemma grown_trans: "grown l1 l2 t \<Longrightarrow> grown l2 l3 u \<Longrightarrow> grown l1 l3 (t @ u)"
  by (auto simp: grown_def)

lemma put_entry_grown: "lg_file l \<noteq> lg_common l \<Longrightarrow> grown l (put_entry entry l) (entry @ newline)"
  by (auto simp: grown_def put_entry_def append_to_def split: option.splits)

lemma log_step_grown:
  assumes "lg_file l \<noteq> lg_common l"
  shows "\<exists>t. grown l (log_step c l) t \<and> (t = [] \<or> last t = CHR 0x0A) \<and> length t \<le> MAX_BUFFER * 2"
proof (cases c)
  case (Rename name)
  then show ?thesis by (intro exI [of _ "[]"]) (simp add: grown_def set_instance_name_def)
qed (auto simp: log_message_def log_formatted_def Let_def snprintf_def newline_def
  intro!: exI [of _ "_ @ newline"] put_entry_grown [OF assms, unfolded newline_def])

lemma log_steps_grown:
  "lg_file l \<noteq> lg_common l \<Longrightarrow> \<exists>t. grown l (fold log_step cs l) t \<and> (t = [] \<or> last t = CHR 0x0A)"
proof (induction cs arbitrary: l)
  case (Cons c cs)
  obtain t where t: "grown l (log_step c l) t" "t = [] \<or> last t = CHR 0x0A"
    using log_step_grown [OF Cons.prems] by blast
  then have "lg_file (log_step c l) \<noteq> lg_common (log_step c l)" using Cons.prems by (simp add: grown_def)
  then obtain u where u: "grown (log_step c l) (fold log_step cs (log_step c l)) u" "u = [] \<or> last u = CHR 0x0A"
    using Cons.IH by blast
  from grown_trans [OF t(1) u(1)] t(2) u(2) show ?case
    by (intro exI [of _ "t @ u"]) (auto simp: last_append)
qed (auto intro: grown_refl)

text \<open>
  Once the logger is open on a file other than \<open>logs.txt\<close>, any sequence of calls adds the same
  whole lines to both files, in the same order, and changes no other file.
\<close>

lemma logs_agree:
  assumes "init_logger can_open stamp name l = (0, l1)" and "name \<noteq> ''logs.txt''"
  shows "\<exists>t. (t = [] \<or> last t = CHR 0x0A) \<and>
    (let l2 = fold log_step calls l1 in
       lg_texts l2 name = lg_texts l1 name @ t \<and> lg_texts l2 ''logs.txt'' = lg_texts l1 ''logs.txt'' @ t \<and>
       (\<forall>other. other \<noteq> name \<and> other \<noteq> ''logs.txt'' \<longrightarrow> lg_texts l2 other = lg_texts l other))"
proof -
  have open_files: "lg_file l1 = Some name" "lg_common l1 = Some ''logs.txt''"
    and old: "\<And>other. other \<noteq> name \<Longrightarrow> other \<noteq> ''logs.txt'' \<Longrightarrow> lg_texts l1 other = lg_texts l other"
    using assms(1) by (auto simp: init_logger_def Let_def append_to_def split: if_splits)
  with assms(2) log_steps_grown [of l1 calls] obtain t where
    "grown l1 (fold log_step calls l1) t" "t = [] \<or> last t = CHR 0x0A" by auto
  with open_files old show ?thesis by (intro exI [of _ t]) (auto simp: grown_def Let_def)
qed

end
