(* ===== verification/Deployment.thy ===== *)
theory Deployment
  imports EditSession AccessControl Client
begin

text \<open>
  The three programs together: the requests the handlers of \<open>nm.c\<close> send are answered by the model of
  \<open>ss.c\<close>, and the commands of \<open>client.c\<close> by both. The properties follow a file through the programs.
\<close>

section \<open>The composition\<close>

text \<open>
  Every socket leads to the one storage server. The exchange succeeds, and the messages arrive as
  they were sent: that is what \<open>send_message\<close> and \<open>recv_message\<close> do on messages that fit.
\<close>

definition deployment ::
    "(disk \<Rightarrow> string \<Rightarrow> string list option) \<Rightarrow> time \<Rightarrow> (string \<Rightarrow> storage \<Rightarrow> bytes option \<times> storage) \<Rightarrow> (time \<Rightarrow> string)
     \<Rightarrow> storage environment" where
  "deployment readdir now shell show_time =
     \<lparr>env_rpc = (\<lambda>sock msg s. case nm_request readdir now msg s of (resp, s') \<Rightarrow> (0, resp, s')),
      env_shell = shell, env_strftime = show_time\<rparr>"

lemma deployment_rpc [simp]:
  "server_rpc (deployment readdir now shell show_time) nm i msg s =
     (0, fst (nm_request readdir now msg s), snd (nm_request readdir now msg s))"
  by (simp add: server_rpc_def deployment_def split_beta)

lemma nm_request_create:
  "nm_request readdir now (init_message\<lparr>msg_type := type_code MSG_CREATE, msg_filename := f\<rparr>) s =
     (ack\<lparr>msg_ss_id := ss_id s, msg_status := fst (create_file_ss now f s)\<rparr>, snd (create_file_ss now f s))"
  by (simp add: nm_request_def Let_def split_beta)

lemma nm_request_locks:
  "nm_request readdir now (init_message\<lparr>msg_type := type_code MSG_CHECK_LOCKS, msg_filename := f\<rparr>) s =
     (ack\<lparr>msg_ss_id := ss_id s, msg_status := (if check_file_locks f (ss_locks s) then ERR_FILE_LOCKED else SUCCESS)\<rparr>, s)"
  by (simp add: nm_request_def Let_def)

lemma nm_request_move:
  "nm_request readdir now (init_message\<lparr>msg_type := type_code MSG_MOVE, msg_filename := f, msg_target_path := p, msg_data := d\<rparr>) s =
     (ack\<lparr>msg_ss_id := ss_id s, msg_status := fst (move_file_ss f d p s)\<rparr>, snd (move_file_ss f d p s))"
  by (simp add: nm_request_def Let_def split_beta)

section \<open>Properties\<close>

lemma create_effect:
  assumes "handle_create (deployment readdir now shell show_time) now msg nm s = Some (r, nm', s')"
    and "msg_status r = SUCCESS"
  shows "content (ss_disk s) (file_path s (msg_filename msg)) = None
       \<and> content (ss_disk s') (file_path s' (msg_filename msg)) = Some []
       \<and> (\<forall>u required. check_access (msg_filename msg) u required nm' = (u = msg_sender msg \<and> ascii (msg_filename msg)))
       \<and> (\<forall>g u required. g \<noteq> msg_filename msg \<longrightarrow> check_access g u required nm' = check_access g u required nm)"
proof -
  let ?f = "msg_filename msg"
  have no: "\<And>st. st \<noteq> SUCCESS \<Longrightarrow> msg_status (reply st) \<noteq> SUCCESS" by (simp add: reply_def)
  from assms obtain i c where none: "trie_search (nm_file_trie nm) ?f = None"
    and cr: "create_file_ss now ?f s = (SUCCESS, s')"
    and nm': "nm_file_trie nm' = snd (trie_insert ?f (blank_metadata\<lparr>fm_filename := ?f, fm_owner := msg_sender msg, fm_ss_id := i,
         fm_created := now, fm_modified := now, fm_accessed := now, fm_last_accessed_by := msg_sender msg\<rparr>) (nm_file_trie nm))"
    by (auto simp: handle_create_def Let_def split_beta bind_eq_Some_conv nm_request_create reply_def prod_eq_iff
        split: option.splits if_splits)
  from cr have "content (ss_disk s) (file_path s ?f) = None" "content (ss_disk s') (file_path s' ?f) = Some []"
    by (auto simp: create_file_ss_def Let_def path_exists_def content_def put_file_def file_path_def split: if_splits)
  moreover have "check_access ?f u required nm' = (u = msg_sender msg \<and> ascii ?f)" for u required
    using none by (auto simp: check_access_def nm' search_insert blank_metadata_def)
  moreover have "check_access g u required nm' = check_access g u required nm" if "g \<noteq> ?f" for g u required
    using that by (simp add: check_access_def nm' search_insert)
  ultimately show ?thesis by blast
qed

lemma create_rights:
  assumes "handle_create (deployment readdir now shell show_time) now msg nm s = Some (r, nm', s')"
    and "msg_status r = SUCCESS"
  shows "check_access (msg_filename msg) u required nm' = (u = msg_sender msg \<and> ascii (msg_filename msg))"
  using create_effect [OF assms] by blast

text \<open>
  When CREATE answers \<open>SUCCESS\<close>, the storage server has a new empty file, and the creator, and
  nobody else, may read and write it; for a name with bytes outside ASCII not even the creator may.
\<close>

lemma create_end_to_end:
  assumes "handle_create (deployment readdir now shell show_time) now msg nm s = Some (r, nm', s')"
    and "msg_status r = SUCCESS"
  shows "content (ss_disk s) (file_path s (msg_filename msg)) = None
       \<and> content (ss_disk s') (file_path s' (msg_filename msg)) = Some []
       \<and> (\<forall>u required. check_access (msg_filename msg) u required nm' = (u = msg_sender msg \<and> ascii (msg_filename msg)))
       \<and> (\<forall>g u required. g \<noteq> msg_filename msg \<longrightarrow> check_access g u required nm' = check_access g u required nm)"
  using assms by (rule create_effect)

text \<open>A name server with one registered storage server, and a plain environment.\<close>

definition one_server :: "name_server \<Rightarrow> name_server" where
  "one_server nm = nm\<lparr>nm_ss_list := [\<lparr>si_id = 0, si_ip = [], si_nm_port = 0, si_client_port = 0, si_sock = 4,
     si_hb_sock = -1, si_active = True, si_last_heartbeat = 0, si_files = []\<rparr>]\<rparr>"

definition plain :: "storage environment" where
  "plain = deployment (\<lambda>_ _. None) 5 (\<lambda>_ s. (None, s)) (\<lambda>_. [])"

lemma put_az: "\<exists>c. cache_put (init_cache CACHE_SIZE) ''az'' m = Some c"
  using singleton_cache [of CACHE_SIZE m] by auto

lemma demo_path: "file_path (demo_server bs) f = take (MAX_PATH - 1) (''s/'' @ f)"
  by (simp add: file_path_def demo_server_def snprintf_def)

text \<open>
  C34. DELETE of a file with a locked sentence fails and changes nothing, on either server.
\<close>

theorem delete_respects_locks:
  assumes "handle_delete (deployment readdir now shell show_time) msg nm s = Some (r, nm', s')"
    and "check_file_locks (msg_filename msg) (ss_locks s)"
  shows "msg_status r \<noteq> SUCCESS \<and> nm' = nm \<and> s' = s"
  using assms
  by (auto simp: handle_delete_def Let_def nm_request_locks reply_def split: option.splits if_splits)

definition locked_az :: lock_table where
  "locked_az = [\<lparr>fl_filename = ''az'', fl_locks = [\<lparr>sl_locked = True, sl_by = ''bob'', sl_time = 1\<rparr>]\<rparr>]"

theorem delete_respects_locks_witness:
  "handle_delete plain (user_request MSG_DELETE ''ann'' ''az'') (one_server (small_server [])) (demo_server []\<lparr>ss_locks := locked_az\<rparr>)
     = Some (reply ERR_FILE_LOCKED, one_server (small_server []), demo_server []\<lparr>ss_locks := locked_az\<rparr>)"
proof -
  let ?nm = "one_server (small_server [])" and ?s = "demo_server []\<lparr>ss_locks := locked_az\<rparr>"
    and ?m = "user_request MSG_DELETE ''ann'' ''az''"
  have t: "nm_file_trie ?nm = nm_file_trie (small_server [])" by (simp add: one_server_def)
  have i: "server_index 0 ?nm = Some 0" by (simp add: server_index_def one_server_def)
  have l: "check_file_locks (msg_filename ?m) (ss_locks ?s)" by (simp, code_simp)
  have h: "handle_delete plain ?m ?nm ?s = Some (reply ERR_FILE_LOCKED, ?nm, ?s)"
    using l by (simp add: plain_def handle_delete_def Let_def t small_server_simps blank_metadata_def i nm_request_locks)
  from delete_respects_locks [OF h [unfolded plain_def] l] h show ?thesis by simp
qed

text \<open>
  C35. After a MOVE to a folder that answers \<open>SUCCESS\<close>, the bytes are in the folder and a READ of
  the file fails: the storage server looks for it under its name alone.
\<close>

lemma located_root: "located s [] f = file_path s f"
  by (simp add: located_def file_path_def)

theorem moved_file_unreadable:
  assumes "handle_move (deployment readdir now shell show_time) msg nm s = Some (r, nm', s')"
    and "msg_status r = SUCCESS"
    and "trie_search (nm_file_trie nm) (msg_filename msg) = Some m" and "fm_folder_path m = []"
    and "p = file_path s (msg_filename msg)" and "p' = located s (msg_target_path msg) (msg_filename msg)"
    and "distinct [p, p', undo_path p, undo_path p']" and "p \<notin> dk_dirs (ss_disk s)"
  shows "content (ss_disk s') p' = content (ss_disk s) p \<and> fst (read_file_ss later (msg_filename msg) s') = ERR_FILE_NOT_FOUND"
proof -
  let ?f = "msg_filename msg"
  have mv: "move_file_ss ?f [] (msg_target_path msg) s = (SUCCESS, s')"
    using assms(1-4)
    by (auto simp: handle_move_def Let_def split_beta bind_eq_Some_conv nm_request_move reply_def prod_eq_iff
        split: option.splits if_splits)
  have path: "ss_path s' = ss_path s" "dk_dirs (ss_disk s') = dk_dirs (ss_disk s)"
    using mv by (auto simp: move_file_ss_def Let_def rename_file_def split: option.splits if_splits)
  obtain d where d: "rename_file p p' (ss_disk s) = Some d"
    and d': "ss_disk s' = (case rename_file (undo_path p) (undo_path p') d of None \<Rightarrow> d | Some d' \<Rightarrow> d')"
    using mv assms(5,6) by (auto simp: move_file_ss_def Let_def located_root split: option.splits)
  have "content (ss_disk s') p' = content (ss_disk s) p \<and> content (ss_disk s') p = None"
    using rename_content [OF d] rename_content [of "undo_path p" "undo_path p'" d] d' assms(7)
    by (auto split: option.splits)
  moreover from this have "read_all (ss_disk s') p = None"
    using assms(8) path by (auto simp: read_all_def)
  moreover have "file_path s' ?f = p" using assms(5) path by (simp add: file_path_def)
  ultimately show ?thesis by (simp add: read_file_ss_def Let_def)
qed

definition folder_server :: name_server where
  "folder_server = (one_server (small_server []))\<lparr>nm_folder_trie := snd (folder_trie_insert ''/g''
     \<lparr>fd_foldername = ''g'', fd_parent_path = [], fd_owner = ''ann'', fd_created = 0, fd_ss_id = 0, fd_acl = []\<rparr> init_folder_trie)\<rparr>"

definition az_storage :: storage where
  "az_storage = (demo_server [])\<lparr>ss_disk :=
     \<lparr>dk_files = [''s/az'' \<mapsto> \<lparr>df_bytes = ''x.'', df_mtime = 0, df_atime = 0\<rparr>], dk_dirs = {''s'', ''s/g''}, dk_blocked = {}\<rparr>\<rparr>"

theorem moved_file_unreadable_witness:
  "\<exists>r nm' s'. handle_move plain ((user_request MSG_MOVE ''ann'' ''az'')\<lparr>msg_target_path := ''/g''\<rparr>) folder_server az_storage
       = Some (r, nm', s') \<and> content (ss_disk s') ''s/g/az'' = Some ''x.'' \<and> fst (read_file_ss 9 ''az'' s') = ERR_FILE_NOT_FOUND"
proof -
  let ?m = "(user_request MSG_MOVE ''ann'' ''az'')\<lparr>msg_target_path := ''/g''\<rparr>"
  let ?meta = "blank_metadata\<lparr>fm_filename := ''az'', fm_owner := ''ann'', fm_acl := []\<rparr>"
  have t: "nm_file_trie folder_server = nm_file_trie (small_server [])" "nm_cache folder_server = init_cache 100"
    by (simp_all add: folder_server_def one_server_def small_server_def init_name_server_def)
  obtain dir where fd: "folder_trie_search (nm_folder_trie folder_server) ''/g'' = Some dir"
    by (simp add: folder_server_def folder_trie_search_def folder_trie_insert_def search_insert byte_index_def)
  have i: "active_server_index 0 folder_server = Some 0"
    by (simp add: active_server_index_def folder_server_def one_server_def)
  obtain c where c: "cache_put (init_cache 100) ''az'' (?meta\<lparr>fm_folder_path := ''/g''\<rparr>) = Some c"
    using put_az by (metis CACHE_SIZE_def)
  have paths: "file_path az_storage ''az'' = ''s/az''" "located az_storage ''/g'' ''az'' = ''s/g/az''" "located az_storage [] ''az'' = ''s/az''"
    by (simp_all add: file_path_def located_def az_storage_def demo_server_def snprintf_def)
  have undo: "undo_path ''s/az'' = ''s/az.undo''" "undo_path ''s/g/az'' = ''s/g/az.undo''"
    by (simp_all add: undo_path_def snprintf_def)
  have mv: "fst (move_file_ss ''az'' [] ''/g'' az_storage) = SUCCESS"
    by (simp add: move_file_ss_def Let_def paths undo)
      (simp add: rename_file_def az_storage_def demo_server_def can_write_def dirname_def)
  have own: "trie_search (nm_file_trie folder_server) (msg_filename ?m) = Some ?meta" by (simp add: t small_server_simps)
  have root: "fm_folder_path ?meta = []" "fm_ss_id ?meta = 0" by (simp_all add: blank_metadata_def)
  have "\<exists>nm' s'. handle_move plain ?m folder_server az_storage = Some (reply SUCCESS, nm', s')"
    using own root fd i c mv
    by (simp add: plain_def handle_move_def Let_def is_root_def nm_request_move store_metadata_def t)
  then obtain nm' s' where h: "handle_move plain ?m folder_server az_storage = Some (reply SUCCESS, nm', s')" by blast
  have ok: "msg_status (reply SUCCESS) = SUCCESS" by (simp add: reply_def)
  have p: "''s/az'' = file_path az_storage (msg_filename ?m)" "''s/g/az'' = located az_storage (msg_target_path ?m) (msg_filename ?m)"
    by (simp_all add: paths)
  have d: "distinct [''s/az'', ''s/g/az'', undo_path ''s/az'', undo_path ''s/g/az'']" by (simp add: undo)
  have nd: "''s/az'' \<notin> dk_dirs (ss_disk az_storage)" by (simp add: az_storage_def)
  have "content (ss_disk az_storage) ''s/az'' = Some ''x.''" by (simp add: az_storage_def content_def)
  with moved_file_unreadable [OF h [unfolded plain_def] ok own root(1) p d nd, of 9] h show ?thesis
    by (intro exI [of _ "reply SUCCESS"] exI [of _ nm'] exI [of _ s']) simp
qed

text \<open>
  The numbers a storage server prints in its answer to \<open>MSG_SS_INFO\<close> are the numbers the
  name server reads from it, for sizes, counts and times that fit their C types.
\<close>

lemma digits_prefix:
  assumes "list_all is_digit ds" and "\<not> is_digit c"
  shows "takeWhile is_digit (ds @ c # rest) = ds" and "dropWhile is_digit (ds @ c # rest) = c # rest"
  using assms by (auto simp: list_all_iff takeWhile_append2 dropWhile_append2)

lemma scan_number_bar: "scan_number (dec_int i @ BAR # rest) = Some (i, BAR # rest)"
proof -
  have bar: "\<not> is_digit BAR" by (simp add: BAR_def is_digit_def)
  note d = digits_prefix [OF dec_nat_digits bar]
  obtain c cs where c: "dec_nat (nat i) = c # cs" by (cases "dec_nat (nat i)") auto
  have "is_digit c" using dec_nat_digits [of "nat i"] c by simp
  then have nc: "c \<noteq> CHR ''-''" "c \<noteq> CHR ''+''" "\<not> is_c_space c" by (auto dest: is_digit_bounds)
  show ?thesis
  proof (cases "i < 0")
    case True
    then show ?thesis
      by (simp add: scan_number_def dec_int_def is_c_space_def d Let_def)
  next
    case False
    have "scan_number (dec_nat (nat i) @ BAR # rest) = Some (int (nat i), BAR # rest)"
      using nc d [of "nat i" rest] digits_val_dec_nat [of "nat i"] dec_nat_not_Nil [of "nat i"]
      by (simp add: scan_number_def c Let_def del: digits_val_dec_nat)
    with False show ?thesis by (simp add: dec_int_def)
  qed
qed

lemma scan_number_end: "scan_number (dec_int i) = Some (i, [])"
proof -
  have all: "takeWhile is_digit (dec_nat n) = dec_nat n" "dropWhile is_digit (dec_nat n) = []" for n
    using dec_nat_digits [of n] by (auto simp: list_all_iff takeWhile_eq_all_conv dropWhile_eq_Nil_conv)
  obtain c cs where c: "dec_nat (nat i) = c # cs" by (cases "dec_nat (nat i)") auto
  have "is_digit c" using dec_nat_digits [of "nat i"] c by simp
  then have nc: "c \<noteq> CHR ''-''" "c \<noteq> CHR ''+''" "\<not> is_c_space c" by (auto dest: is_digit_bounds)
  show ?thesis
  proof (cases "i < 0")
    case True
    then show ?thesis by (simp add: scan_number_def dec_int_def is_c_space_def all Let_def)
  next
    case False
    have "scan_number (dec_nat (nat i)) = Some (int (nat i), [])"
      using nc all [of "nat i"] digits_val_dec_nat [of "nat i"]
      by (simp add: scan_number_def c Let_def del: digits_val_dec_nat)
    with False show ?thesis by (simp add: dec_int_def)
  qed
qed

lemma scan_fields_step:
  "scan_fields (conv # convs) (dec_int i @ BAR # rest) m = scan_fields convs rest (conv i m)"
  "scan_fields [conv] (dec_int i) m = conv i m"
  by (simp_all add: scan_number_bar scan_number_end)

lemma info_roundtrip:
  assumes "int sz < 2 ^ 64" and "int words < 2 ^ 31" and "int chars < 2 ^ 31"
    and "\<bar>modified\<bar> < 2 ^ 63" and "\<bar>accessed\<bar> < 2 ^ 63"
  shows "scan_info (info_data (sz, words, chars, modified, accessed)) m =
    m\<lparr>fm_size := int sz, fm_word_count := int words, fm_char_count := int chars,
      fm_modified := modified, fm_accessed := accessed\<rparr>"
proof -
  have len: "length (dec_int i) \<le> 20" if "\<bar>i\<bar> < 10 ^ 19" for i
  proof -
    have "length (dec_nat (nat (- i))) \<le> 19" "length (dec_nat (nat i)) \<le> 19"
      by (rule length_dec_nat; use that in simp)+
    then show ?thesis by (auto simp: dec_int_def)
  qed
  have big: "(2 :: int) ^ 63 < 10 ^ 19" "(2 :: int) ^ 31 < 10 ^ 19" by simp_all
  have l: "length (dec_int (int words)) \<le> 20" "length (dec_int (int chars)) \<le> 20"
    "length (dec_int modified) \<le> 20" "length (dec_int accessed) \<le> 20"
    using assms(2-5) big by (auto intro!: len)
  have "length (dec_nat sz) \<le> 20" by (rule length_dec_nat) (use assms(1) in simp_all)
  then have l0: "length (dec_int (int sz)) \<le> 20" by (simp add: dec_int_def)
  let ?text = "dec_int (int sz) @ BAR # dec_int (int words) @ BAR # dec_int (int chars) @ BAR #
      dec_int modified @ BAR # dec_int accessed"
  have "length ?text < MAX_BUFFER" using l l0 by simp
  then have "info_data (sz, words, chars, modified, accessed) = ?text"
    by (simp add: info_data_def snprintf_fits)
  moreover have "to_size_t (int sz) = int sz" using assms(1) by (simp add: to_size_t_def)
  moreover have "clamp64 (int words) = int words" "clamp64 (int chars) = int chars"
    using assms(2,3) by (simp_all add: clamp64_id int32_def)
  moreover have "to_int32 (int words) = int words" "to_int32 (int chars) = int chars"
    using assms(2,3) by (simp_all add: to_int32_id int32_def)
  moreover have "clamp64 modified = modified" "clamp64 accessed = accessed"
    using assms(4,5) by (simp_all add: clamp64_def)
  ultimately show ?thesis by (simp only: scan_info_def scan_fields_step)
qed

section \<open>With a client\<close>

text \<open>
  One client connected to the name server (socket 3) and, after \<open>connect_to_ss\<close>, to the storage
  server (socket 4): the servers' states, the response structure of the client's connection, and the
  messages on their way to the client. A request that does not return is never answered.
\<close>

record system =
  sy_nm :: name_server
  sy_response :: message
  sy_ss :: storage
  sy_from_nm :: "message list"
  sy_from_ss :: "message list"

definition system_network :: "storage environment \<Rightarrow> time \<Rightarrow> system network" where
  "system_network env now =
     \<lparr>net_send = (\<lambda>sock msg y.
        if sock = 3 then
          (case dispatch env now (sy_response y) msg (sy_nm y) (sy_ss y) of
             None \<Rightarrow> (0, y)
           | Some (r, response, nm', s') \<Rightarrow>
               (0, y\<lparr>sy_nm := nm', sy_response := response, sy_ss := s', sy_from_nm := sy_from_nm y @ [r]\<rparr>))
        else
          (case client_request now msg (sy_ss y) of
             None \<Rightarrow> (0, y)
           | Some (out, s') \<Rightarrow> (0, y\<lparr>sy_ss := s', sy_from_ss := sy_from_ss y @ out\<rparr>))),
      net_recv = (\<lambda>sock y.
        if sock = 3 then (case sy_from_nm y of [] \<Rightarrow> (-1, init_message, y) | m # ms \<Rightarrow> (0, m, y\<lparr>sy_from_nm := ms\<rparr>))
        else (case sy_from_ss y of [] \<Rightarrow> (-1, init_message, y) | m # ms \<Rightarrow> (0, m, y\<lparr>sy_from_ss := ms\<rparr>))),
      net_connect = (\<lambda>_ y. (4, y)),
      net_close = (\<lambda>_ y. y)\<rparr>"

lemma dispatch_redirect:
  assumes "msg_type msg = type_code t" and "t = MSG_READ \<or> t = MSG_WRITE"
  shows "dispatch env now response msg nm w = map_option (\<lambda>(r, nm'). (r, r, nm', w)) (handle_redirect now response msg nm)"
  using assms by (auto simp: dispatch_def Let_def)

text \<open>
  The name server can answer for a file: its cache holds copies of the index and has room for the
  file, and the file's server is registered.
\<close>

definition answers_for :: "name_server \<Rightarrow> string \<Rightarrow> bool" where
  "answers_for nm f \<longleftrightarrow> length f < MAX_FILENAME \<and>
     (\<exists>es. cache_rel (nm_cache nm) es \<and> coherent es (nm_file_trie nm)
        \<and> (f \<in> fst ` set es \<or> length es < lc_capacity (nm_cache nm)))
     \<and> server_index (home f (nm_file_trie nm)) nm \<noteq> None \<and> 0 \<le> home f (nm_file_trie nm)"

lemma redirect_grants:
  assumes "required = (if msg_type msg = type_code MSG_WRITE \<or> msg_type msg = type_code MSG_UNDO then ACCESS_WRITE else ACCESS_READ)"
    and "check_access (msg_filename msg) (msg_sender msg) required nm" and "answers_for nm (msg_filename msg)"
  shows "\<exists>r nm'. handle_redirect now response msg nm = Some (r, nm') \<and> msg_status r = SUCCESS \<and> rights nm' = rights nm
    \<and> answers_for nm' (msg_filename msg)"
proof -
  let ?f = "msg_filename msg"
  obtain es where es: "cache_rel (nm_cache nm) es" "coherent es (nm_file_trie nm)"
      "?f \<in> fst ` set es \<or> length es < lc_capacity (nm_cache nm)" and len: "length ?f < MAX_FILENAME"
    and home: "server_index (home ?f (nm_file_trie nm)) nm \<noteq> None" "0 \<le> home ?f (nm_file_trie nm)"
    using assms(3) by (auto simp: answers_for_def)
  from find_ss_lookup [OF es(1,2) len, unfolded if_P [OF es(3)]] obtain nm1 es1 where
    l: "find_ss_for_file ?f nm = Some (home ?f (nm_file_trie nm), nm1)" "nm_file_trie nm1 = nm_file_trie nm"
      "cache_rel (nm_cache nm1) es1" "trie_search (nm_file_trie nm) ?f \<noteq> None \<longrightarrow> ?f \<in> fst ` set es1"
      "coherent es1 (nm_file_trie nm1)" by blast
  from assms(2) obtain m where m: "trie_search (nm_file_trie nm) ?f = Some m"
    by (auto simp: check_access_def split: option.splits)
  have servers: "nm_ss_list nm1 = nm_ss_list nm"
    using l(1) by (auto simp: find_ss_for_file_def bind_eq_Some_conv split: option.splits)
  then obtain i where i: "server_index (home ?f (nm_file_trie nm)) nm1 = Some i"
    using home(1) by (auto simp: server_index_def)
  let ?m = "m\<lparr>fm_accessed := now, fm_last_accessed_by := msg_sender msg\<rparr>"
  obtain c where c: "cache_put (nm_cache nm1) ?f ?m = Some c" "cache_rel c (lru_store ?f ?m es1)"
    using put_lru [OF l(3) len, of ?m] l(4) m by auto
  then obtain nm' where st: "store_metadata ?f ?m nm1 = Some nm'" by (auto simp: store_metadata_def)
  have m1: "trie_search (nm_file_trie nm1) ?f = Some m" using m l(2) by simp
  have "rights nm1 = rights nm" by (simp add: rights_def l(2) fun_eq_iff)
  with store_rights [OF st m1] m have "rights nm' = rights nm" by (auto simp: rights_def fun_eq_iff)
  moreover have "answers_for nm' ?f"
  proof -
    have nm': "nm_file_trie nm' = snd (trie_update ?f ?m (nm_file_trie nm1))" "nm_cache nm' = c" "nm_ss_list nm' = nm_ss_list nm"
      using st c(1) servers by (auto simp: store_metadata_def)
    have "coherent (lru_store ?f ?m es1) (nm_file_trie nm')"
      unfolding nm' by (rule coherent_update [OF l(5) m1]) simp
    moreover have "home ?f (nm_file_trie nm') = home ?f (nm_file_trie nm)"
      using m1 l(2) by (simp add: home_def nm' search_update)
    moreover have "?f \<in> fst ` set (lru_store ?f ?m es1)" by (simp add: lru_store_def)
    ultimately show ?thesis using len home c(2) nm'(2,3)
      by (auto simp: answers_for_def server_index_def)
  qed
  ultimately show ?thesis
    using assms(1,2) home(2) l(1) i m1 st by (simp add: handle_redirect_def Let_def)
qed

lemma ask_redirect:
  assumes "sy_from_nm y = []" and "cl_nm_sock c = 3" and "t = MSG_READ \<or> t = MSG_WRITE"
    and "check_access f (cl_username c) (if t = MSG_WRITE then ACCESS_WRITE else ACCESS_READ) (sy_nm y)"
    and "answers_for (sy_nm y) f"
  shows "\<exists>r nm'. ask_nm (system_network env now) c ((request_message c t)\<lparr>msg_filename := f\<rparr>) y =
      (r, y\<lparr>sy_nm := nm', sy_response := r\<rparr>) \<and> msg_status r = SUCCESS \<and> rights nm' = rights (sy_nm y)
    \<and> answers_for nm' f"
proof -
  let ?m = "(request_message c t)\<lparr>msg_filename := f\<rparr>"
  have m: "msg_type ?m = type_code t" "msg_filename ?m = f" "msg_sender ?m = cl_username c"
    by (simp_all add: request_message_def)
  obtain r nm' where h: "handle_redirect now (sy_response y) ?m (sy_nm y) = Some (r, nm')" "msg_status r = SUCCESS"
      "rights nm' = rights (sy_nm y)" "answers_for nm' f"
    using redirect_grants [of _ ?m "sy_nm y" now "sy_response y"] assms(3-5) m by (auto split: if_splits)
  then show ?thesis
    using assms(1,2)
    by (intro exI [of _ r] exI [of _ nm'])
      (simp add: ask_nm_def ask_def system_network_def dispatch_redirect [OF m(1) assms(3)])
qed

text \<open>An exchange with the storage server, on the connected socket.\<close>

lemma exchange_ss:
  assumes "client_request now msg (sy_ss y) = Some ([r], s')" and "sy_from_ss y = []"
  shows "\<exists>y1. net_send (system_network env now) 4 msg y = (0, y1) \<and>
    net_recv (system_network env now) 4 y1 = (0, r, y\<lparr>sy_ss := s'\<rparr>)"
  using assms by (auto simp: system_network_def)

lemma ss_read:
  assumes "msg_type msg = type_code MSG_READ"
  shows "client_request now msg s = (case read_file_ss now (msg_filename msg) s of (st, buffer, s') \<Rightarrow>
    Some ([if st = SUCCESS then ack\<lparr>msg_status := st, msg_data := strncpy (MAX_BUFFER - 1) buffer\<rparr>
           else ack\<lparr>msg_status := st\<rparr>], s'))"
  using assms by (simp add: client_request_def Let_def)

lemma connect_to_ss_socket: "connect_to_ss (system_network env now) address y = (4, y)"
  by (simp add: connect_to_ss_def system_network_def)

text \<open>The second half of READ: the exchange with the storage server, on the connected socket.\<close>

definition read_answer :: "bytes option \<Rightarrow> message" where
  "read_answer content_of =
     (case content_of of
        None \<Rightarrow> ack\<lparr>msg_status := ERR_FILE_NOT_FOUND\<rparr>
      | Some bs \<Rightarrow> ack\<lparr>msg_status := SUCCESS, msg_data := cstr (take (MAX_BUFFER - 1) bs)\<rparr>)"

lemma exchange_read:
  assumes "msg_type msg = type_code MSG_READ" and "msg_filename msg = f" and "sy_from_ss y = []"
  shows "\<exists>y1 s'. net_send (system_network env now) 4 msg y = (0, y1) \<and>
    net_recv (system_network env now) 4 y1 =
      (0, read_answer (read_all (ss_disk (sy_ss y)) (file_path (sy_ss y) f)), y\<lparr>sy_ss := s'\<rparr>)"
proof -
  have cut: "strncpy (MAX_BUFFER - 1) (cstr (take (MAX_BUFFER - 1) bs)) = cstr (take (MAX_BUFFER - 1) bs)" for bs
    by (rule strncpy_fits) (simp add: cstr_def le_trans [OF length_takeWhile_le])
  obtain s' where "client_request now msg (sy_ss y) =
      Some ([read_answer (read_all (ss_disk (sy_ss y)) (file_path (sy_ss y) f))], s')"
    by (cases "read_all (ss_disk (sy_ss y)) (file_path (sy_ss y) f)")
      (simp_all add: ss_read [OF assms(1)] assms(2) read_file_ss_def Let_def read_answer_def cut [simplified])
  from exchange_ss [OF this assms(3)] show ?thesis by blast
qed

lemma via_server_read:
  assumes "ask_nm (system_network env now) c ((request_message c MSG_READ)\<lparr>msg_filename := f\<rparr>) y = (response, y1)"
    and "msg_status response = SUCCESS" and "sy_from_ss y1 = []"
  shows "\<exists>y2. handle_read (system_network env now) c f y =
      (case read_all (ss_disk (sy_ss y1)) (file_path (sy_ss y1) f) of
         None \<Rightarrow> print_error ERR_FILE_NOT_FOUND
       | Some bs \<Rightarrow> cstr (take (MAX_BUFFER - 1) bs) @ nl, y2) \<and> sy_nm y2 = sy_nm y1"
proof -
  have "net_close (system_network env now) sock y = y" for sock y by (simp add: system_network_def)
  moreover have "msg_type ((request_message c MSG_READ)\<lparr>msg_filename := f\<rparr>) = type_code MSG_READ"
    by (simp add: request_message_def)
  from exchange_read [OF this _ assms(3), of f env now] obtain y2 s' where
    "net_send (system_network env now) 4 ((request_message c MSG_READ)\<lparr>msg_filename := f\<rparr>) y1 = (0, y2)"
    "net_recv (system_network env now) 4 y2 =
      (0, read_answer (read_all (ss_disk (sy_ss y1)) (file_path (sy_ss y1) f)), y1\<lparr>sy_ss := s'\<rparr>)" by auto
  ultimately show ?thesis
    using assms(1,2)
    by (simp add: handle_read_def via_server_def connect_to_ss_socket report_def read_answer_def split: option.splits)
qed

lemma read_session:
  assumes "sy_from_nm y = []" and "sy_from_ss y = []" and "cl_nm_sock c = 3" and "answers_for (sy_nm y) f"
  shows "\<exists>y'. handle_read (system_network env now) c f y =
      (if check_access f (cl_username c) ACCESS_READ (sy_nm y) then
         case read_all (ss_disk (sy_ss y)) (file_path (sy_ss y) f) of
           None \<Rightarrow> print_error ERR_FILE_NOT_FOUND
         | Some bs \<Rightarrow> cstr (take (MAX_BUFFER - 1) bs) @ nl
       else print_error ERR_ACCESS_DENIED, y') \<and> rights (sy_nm y') = rights (sy_nm y)"
proof (cases "check_access f (cl_username c) ACCESS_READ (sy_nm y)")
  case True
  obtain r nm' where r: "ask_nm (system_network env now) c ((request_message c MSG_READ)\<lparr>msg_filename := f\<rparr>) y =
      (r, y\<lparr>sy_nm := nm', sy_response := r\<rparr>)" "msg_status r = SUCCESS" "rights nm' = rights (sy_nm y)"
    using ask_redirect [OF assms(1,3), of MSG_READ f env now] True assms(4) by auto
  from via_server_read [OF r(1,2)] assms(2) r(3) True show ?thesis by auto
next
  case False
  let ?m = "(request_message c MSG_READ)\<lparr>msg_filename := f\<rparr>" and ?net = "system_network env now"
  have m: "msg_type ?m = type_code MSG_READ" "msg_filename ?m = f" "msg_sender ?m = cl_username c"
    by (simp_all add: request_message_def)
  let ?r = "(sy_response y)\<lparr>msg_type := type_code MSG_DATA, msg_status := ERR_ACCESS_DENIED\<rparr>"
  have "handle_redirect now (sy_response y) ?m (sy_nm y) = Some (?r, sy_nm y)"
    using False by (simp add: handle_redirect_def Let_def m)
  then have "ask_nm ?net c ?m y = (?r, y\<lparr>sy_response := ?r\<rparr>)"
    using assms(1,3) by (simp add: ask_nm_def ask_def system_network_def dispatch_redirect [OF m(1)])
  with False show ?thesis by (simp add: handle_read_def via_server_def Let_def)
qed


text \<open>A server with one file, as its name server sees it, and a client of it.\<close>

definition ann :: client where
  "ann = \<lparr>cl_username = ''ann'', cl_nm_sock = 3, cl_ss_sock = -1, cl_locked_sentence = -1, cl_locked_filename = []\<rparr>"

definition small_system :: "storage \<Rightarrow> system" where
  "small_system s = \<lparr>sy_nm = one_server (small_server []), sy_response = init_message, sy_ss = s, sy_from_nm = [], sy_from_ss = []\<rparr>"

lemma small_system_simps [simp]:
  "sy_from_nm (small_system s) = []" "sy_from_ss (small_system s) = []" "sy_ss (small_system s) = s"
  "cl_nm_sock ann = 3" "cl_username ann = ''ann''" "sy_nm (small_system s) = one_server (small_server [])"
  by (simp_all add: small_system_def ann_def)

lemma small_answers: "answers_for (one_server (small_server [])) ''az''"
proof -
  let ?nm = "one_server (small_server [])"
  have t: "nm_file_trie ?nm = nm_file_trie (small_server [])" "nm_cache ?nm = init_cache 100"
    by (simp_all add: one_server_def small_server_def init_name_server_def)
  have h: "home ''az'' (nm_file_trie ?nm) = 0" by (simp add: home_def t small_server_simps blank_metadata_def)
  then have "server_index (home ''az'' (nm_file_trie ?nm)) ?nm \<noteq> None" by (simp add: server_index_def one_server_def)
  moreover have "cache_rel (nm_cache ?nm) []" "coherent [] (nm_file_trie ?nm)"
    "length ([] :: (string \<times> file_metadata) list) < lc_capacity (nm_cache ?nm)"
    by (simp_all add: t init_cache_rel coherent_def) (simp add: init_cache_def)
  ultimately show ?thesis using h by (auto simp: answers_for_def)
qed

lemma small_access: "check_access ''az'' ''ann'' required (one_server (small_server []))"
proof -
  have "nm_file_trie (one_server (small_server [])) = nm_file_trie (small_server [])" by (simp add: one_server_def)
  then show ?thesis by (simp add: check_access_def small_server_simps)
qed


lemma stream_loop_ends: "stream_loop (system_network env now) 4 out y \<noteq> None"
proof (induction "sy_from_ss y" arbitrary: out y)
  case Nil
  then show ?case by (subst stream_loop.simps) (simp add: system_network_def)
next
  case (Cons m ms)
  from Cons.hyps(2) [symmetric] have "net_recv (system_network env now) 4 y = (0, m, y\<lparr>sy_from_ss := ms\<rparr>)"
    by (simp add: system_network_def)
  with Cons.hyps(1) [of "y\<lparr>sy_from_ss := ms\<rparr>"] show ?case
    by (subst stream_loop.simps) (simp add: Let_def)
qed


section \<open>A document is written and read\<close>

lemma ss_edit_requests:
  "msg_type msg = type_code MSG_LOCK_SENTENCE \<Longrightarrow> lock_request_ss now (msg_filename msg) (msg_sentence_index msg) (msg_sender msg) s = (st, s') \<Longrightarrow>
     client_request now msg s = Some ([ack\<lparr>msg_status := st\<rparr>], s')"
  "msg_type msg = type_code MSG_WRITE \<Longrightarrow> write_file_ss now (msg_filename msg) (msg_sender msg) (msg_sentence_index msg)
       (msg_word_index msg) (msg_data msg) s = Some (st, s') \<Longrightarrow>
     client_request now msg s = Some ([ack\<lparr>msg_status := st\<rparr>], s')"
  "msg_type msg = type_code MSG_UNLOCK_SENTENCE \<Longrightarrow> unlock_request_ss now (msg_filename msg) (msg_sentence_index msg) (msg_sender msg) s = (st, s') \<Longrightarrow>
     client_request now msg s = Some ([ack\<lparr>msg_status := st\<rparr>], s')"
  by (simp_all add: client_request_def Let_def)

text \<open>The client in a write session whose connection holds, with one line of input and the end mark.\<close>

lemma write_one_line:
  assumes "trim_whitespace l \<noteq> ''ETIRW''" and "parse_write_line (trim_whitespace l) = Some (k, bs)"
    and "trim_whitespace e = ''ETIRW''"
    and "net_send net (wr_sock s) ((request_message (wr_client s) MSG_WRITE)
          \<lparr>msg_filename := f, msg_sentence_index := i, msg_word_index := k, msg_data := bs\<rparr>) (wr_world s) = (0, w1)"
    and "net_recv net (wr_sock s) w1 = (0, r, w2)" and "msg_status r = SUCCESS"
  shows "write_loop net f i 0 True (Line l # Line e # rest) s =
    (Some (1, True), rest, s\<lparr>wr_world := w2, wr_out := wr_out s @ ''Client: '' @ ''Write successful!'' @ nl @ ''Client: ''\<rparr>)"
  using assms by (simp add: Let_def print_text_def numeral_eq_Suc)

lemma finish_open_session:
  assumes "0 < cl_ss_sock (wr_client s)" and "0 < n"
    and "net_send net (wr_sock s) ((request_message (wr_client s) MSG_UNLOCK_SENTENCE)
          \<lparr>msg_filename := f, msg_sentence_index := i\<rparr>) (wr_world s) = (0, w1)"
    and "net_recv net (wr_sock s) w1 = (0, r, w2)" and "msg_status r = SUCCESS"
  shows "\<exists>c'. finish_write net f i n True s =
    (wr_out s @ ''All writes completed successfully! ('' @ dec_int (int n) @ '' write(s))'' @ nl, c', net_close net (wr_sock s) w2)"
  using assms by (simp add: finish_write_def Let_def)

lemma session_exchanges:
  assumes "lock_request_ss now f 0 (cl_username c) (sy_ss y) = (SUCCESS, s1)"
    and "write_file_ss now f (cl_username c1) 0 1 bs s1 = Some (SUCCESS, s2)"
    and "unlock_request_ss now f 0 (cl_username c1) s2 = (SUCCESS, s3)" and "sy_from_ss y = []"
  shows "\<exists>z1 z2 z3. net_send (system_network env now) 4
        ((request_message c MSG_LOCK_SENTENCE)\<lparr>msg_filename := f, msg_sentence_index := 0\<rparr>) y = (0, z1)
    \<and> net_recv (system_network env now) 4 z1 = (0, ack\<lparr>msg_status := SUCCESS\<rparr>, y\<lparr>sy_ss := s1\<rparr>)
    \<and> net_send (system_network env now) 4 ((request_message c1 MSG_WRITE)
        \<lparr>msg_filename := f, msg_sentence_index := 0, msg_word_index := 1, msg_data := bs\<rparr>) (y\<lparr>sy_ss := s1\<rparr>) = (0, z2)
    \<and> net_recv (system_network env now) 4 z2 = (0, ack\<lparr>msg_status := SUCCESS\<rparr>, y\<lparr>sy_ss := s2\<rparr>)
    \<and> net_send (system_network env now) 4
        ((request_message c1 MSG_UNLOCK_SENTENCE)\<lparr>msg_filename := f, msg_sentence_index := 0\<rparr>) (y\<lparr>sy_ss := s2\<rparr>) = (0, z3)
    \<and> net_recv (system_network env now) 4 z3 = (0, ack\<lparr>msg_status := SUCCESS\<rparr>, y\<lparr>sy_ss := s3\<rparr>)"
proof -
  let ?lock = "(request_message c MSG_LOCK_SENTENCE)\<lparr>msg_filename := f, msg_sentence_index := 0\<rparr>"
    and ?edit = "(request_message c1 MSG_WRITE)\<lparr>msg_filename := f, msg_sentence_index := 0, msg_word_index := 1, msg_data := bs\<rparr>"
    and ?unlock = "(request_message c1 MSG_UNLOCK_SENTENCE)\<lparr>msg_filename := f, msg_sentence_index := 0\<rparr>"
    and ?ok = "ack\<lparr>msg_status := SUCCESS\<rparr>"
  have reqs: "client_request now ?lock (sy_ss y) = Some ([?ok], s1)" "client_request now ?edit s1 = Some ([?ok], s2)"
    "client_request now ?unlock s2 = Some ([?ok], s3)"
    using ss_edit_requests(1) [of ?lock now "sy_ss y"] ss_edit_requests(2) [of ?edit now s1]
      ss_edit_requests(3) [of ?unlock now s2] assms(1-3) by (simp_all add: request_message_def)
  show ?thesis
    using exchange_ss [OF reqs(1) assms(4), of env] exchange_ss [of now ?edit "y\<lparr>sy_ss := s1\<rparr>" ?ok s2 env]
      exchange_ss [of now ?unlock "y\<lparr>sy_ss := s2\<rparr>" ?ok s3 env] reqs(2,3) assms(4)
    by auto
qed

lemma write_session:
  assumes "sy_from_nm y = []" and "sy_from_ss y = []" and "cl_nm_sock c = 3" and "answers_for (sy_nm y) f"
    and "check_access f (cl_username c) ACCESS_WRITE (sy_nm y)" and "first_write_ready (sy_ss y) f (cl_username c)"
    and "trim_whitespace l \<noteq> ''ETIRW''" and "parse_write_line (trim_whitespace l) = Some (1, bs)"
    and "trim_whitespace e = ''ETIRW''" and "clean bs" and "bs \<noteq> []"
  shows "\<exists>c' nm' r s'. handle_write (system_network env now) c f ''0'' (Line l # Line e # rest) y =
      (''Sentence locked. Enter writes (word_index content), then type ETIRW:'' @ nl @ ''Client: Write successful!'' @ nl @
       ''Client: All writes completed successfully! (1 write(s))'' @ nl, Some c', rest,
       y\<lparr>sy_nm := nm', sy_response := r, sy_ss := s'\<rparr>)
    \<and> rights nm' = rights (sy_nm y) \<and> answers_for nm' f
    \<and> read_all (ss_disk s') (file_path s' f) = Some (stored_text bs) \<and> holder (ss_locks s') f 0 = None"
proof -
  let ?net = "system_network env now" and ?u = "cl_username c"
  let ?c = "c\<lparr>cl_locked_sentence := -1, cl_locked_filename := []\<rparr>"
  let ?c1 = "?c\<lparr>cl_ss_sock := 4, cl_locked_sentence := 0, cl_locked_filename := strncpy (MAX_FILENAME - 1) f\<rparr>"
  let ?lock = "(request_message ?c MSG_LOCK_SENTENCE)\<lparr>msg_filename := f, msg_sentence_index := 0\<rparr>"
  let ?edit = "(request_message ?c1 MSG_WRITE)\<lparr>msg_filename := f, msg_sentence_index := 0, msg_word_index := 1, msg_data := bs\<rparr>"
  let ?unlock = "(request_message ?c1 MSG_UNLOCK_SENTENCE)\<lparr>msg_filename := f, msg_sentence_index := 0\<rparr>"
  obtain r nm' where r: "ask_nm ?net ?c ((request_message ?c MSG_WRITE)\<lparr>msg_filename := f\<rparr>) y =
      (r, y\<lparr>sy_nm := nm', sy_response := r\<rparr>)" "msg_status r = SUCCESS" "rights nm' = rights (sy_nm y)" "answers_for nm' f"
    using ask_redirect [of y ?c MSG_WRITE f env now] assms(1,3,4,5) by auto
  let ?y1 = "y\<lparr>sy_nm := nm', sy_response := r\<rparr>"
  obtain s1 s2 s3 where s: "lock_request_ss now f 0 ?u (sy_ss y) = (SUCCESS, s1)"
    "write_file_ss now f ?u 0 1 bs s1 = Some (SUCCESS, s2)" "unlock_request_ss now f 0 ?u s2 = (SUCCESS, s3)"
    "content (ss_disk s3) (file_path (sy_ss y) f) = Some (stored_text bs)" "file_path s3 f = file_path (sy_ss y) f"
    "dk_blocked (ss_disk s3) = dk_blocked (ss_disk (sy_ss y))" "holder (ss_locks s3) f 0 = None"
    using first_write_session [OF assms(6,10,11), of now now now] by blast
  have "file_path (sy_ss y) f \<notin> dk_blocked (ss_disk (sy_ss y))"
    using assms(6) by (simp add: first_write_ready_def edit_ready_def Let_def can_write_def)
  then have read: "read_all (ss_disk s3) (file_path s3 f) = Some (stored_text bs)" using s(4-6) by (simp add: read_all_def)
  let ?ok = "ack\<lparr>msg_status := SUCCESS\<rparr>"
  obtain z1 z2 z3 where z1: "net_send ?net 4 ?lock ?y1 = (0, z1)" "net_recv ?net 4 z1 = (0, ?ok, ?y1\<lparr>sy_ss := s1\<rparr>)"
    and z2: "net_send ?net 4 ?edit (?y1\<lparr>sy_ss := s1\<rparr>) = (0, z2)" "net_recv ?net 4 z2 = (0, ?ok, ?y1\<lparr>sy_ss := s2\<rparr>)"
    and z3: "net_send ?net 4 ?unlock (?y1\<lparr>sy_ss := s2\<rparr>) = (0, z3)" "net_recv ?net 4 z3 = (0, ?ok, ?y1\<lparr>sy_ss := s3\<rparr>)"
    using session_exchanges [of now f ?c ?y1 s1 ?c1 bs s2 s3 env] s(1-3) assms(2) by auto
  have close: "net_close ?net sock z = z" for sock z by (simp add: system_network_def)
  have zero: "atoi ''0'' = 0" by code_simp
  let ?open = "''Sentence locked. Enter writes (word_index content), then type ETIRW:'' @ nl"
  let ?s = "\<lparr>wr_client = ?c1, wr_sock = 4, wr_out = ?open, wr_world = ?y1\<lparr>sy_ss := s1\<rparr>\<rparr>"
  let ?s' = "?s\<lparr>wr_world := ?y1\<lparr>sy_ss := s2\<rparr>, wr_out := ?open @ ''Client: '' @ ''Write successful!'' @ nl @ ''Client: ''\<rparr>"
  have loop: "write_loop ?net f 0 0 True (Line l # Line e # rest) ?s = (Some (1, True), rest, ?s')"
    using write_one_line [where net = ?net and s = ?s and f = f and i = 0 and ?w1.0 = z2 and r = ?ok and ?w2.0 = "?y1\<lparr>sy_ss := s2\<rparr>",
        OF assms(7-9)] z2 by simp
  obtain c' where fin: "finish_write ?net f 0 1 True ?s' =
      (wr_out ?s' @ ''All writes completed successfully! ('' @ dec_int 1 @ '' write(s))'' @ nl, c', ?y1\<lparr>sy_ss := s3\<rparr>)"
    using finish_open_session [where net = ?net and s = ?s' and n = 1 and f = f and i = 0 and ?w1.0 = z3 and r = ?ok
        and ?w2.0 = "?y1\<lparr>sy_ss := s3\<rparr>"] z3 close by auto
  have "handle_write ?net c f ''0'' (Line l # Line e # rest) y =
      (wr_out ?s' @ ''All writes completed successfully! ('' @ dec_int 1 @ '' write(s))'' @ nl, Some c', rest, ?y1\<lparr>sy_ss := s3\<rparr>)"
    unfolding handle_write_def Let_def zero r(1) split_conv
    using r(2) z1 loop fin by (simp add: connect_to_ss_socket)
  moreover have "dec_int 1 = ''1''" by code_simp
  ultimately show ?thesis using s(7) r(3,4) read
    by (intro exI [of _ c'] exI [of _ nm'] exI [of _ r] exI [of _ s3]) simp
qed

lemma check_access_same_rights: "rights nm' = rights nm \<Longrightarrow> check_access f u required nm' = check_access f u required nm"
  by (simp add: check_access_rights)

subsection \<open>From nothing\<close>

text \<open>
  The name server knows every file its cache holds, the cache has room for one more, and there is a
  storage server.
\<close>

definition takes_new_file :: "name_server \<Rightarrow> bool" where
  "takes_new_file nm \<longleftrightarrow>
     (\<exists>es. cache_rel (nm_cache nm) es \<and> coherent es (nm_file_trie nm) \<and> length es < lc_capacity (nm_cache nm))
     \<and> nm_ss_list nm \<noteq> [] \<and> (\<forall>i \<in> set (nm_ss_list nm). 0 \<le> si_id i)"

lemma coherent_insert:
  assumes "coherent es t" and "trie_search t f = None" and "ascii f"
  shows "coherent (lru_store f m es) (snd (trie_insert f m t))"
  using assms by (fastforce simp: coherent_def lru_store_def drop_key_def search_insert)

lemma round_robin_server:
  assumes "takes_new_file nm"
  shows "\<exists>id i. get_next_ss_round_robin nm = (id, nm\<lparr>nm_next_ss_id := nm_next_ss_id nm + 1\<rparr>) \<and> 0 \<le> id
    \<and> server_index id nm = Some i"
proof -
  let ?l = "nm_ss_list nm" and ?k = "nm_next_ss_id nm mod length (nm_ss_list nm)"
  have "?l ! ?k \<in> set ?l" using assms by (simp add: takes_new_file_def)
  moreover from this have "server_index (si_id (?l ! ?k)) nm \<noteq> None"
    unfolding server_index_def find_index_None by blast
  ultimately show ?thesis using assms by (auto simp: get_next_ss_round_robin_def takes_new_file_def Let_def)
qed

lemma create_answers:
  assumes "takes_new_file nm" and "trie_search (nm_file_trie nm) f = None" and "ascii f" and "length f < MAX_FILENAME"
    and "msg_filename msg = f" and "create_file_ss now f s = (SUCCESS, s')"
  shows "\<exists>nm'. handle_create (deployment readdir now shell show_time) now msg nm s = Some (reply SUCCESS, nm', s')
    \<and> answers_for nm' f"
proof -
  obtain es where es: "cache_rel (nm_cache nm) es" "coherent es (nm_file_trie nm)" "length es < lc_capacity (nm_cache nm)"
    using assms(1) by (auto simp: takes_new_file_def)
  let ?nm1 = "nm\<lparr>nm_next_ss_id := nm_next_ss_id nm + 1\<rparr>"
  obtain id i where g: "get_next_ss_round_robin nm = (id, ?nm1)" "0 \<le> id" "server_index id nm = Some i"
    using round_robin_server [OF assms(1)] by blast
  let ?m = "blank_metadata\<lparr>fm_filename := f, fm_owner := msg_sender msg, fm_ss_id := id,
      fm_created := now, fm_modified := now, fm_accessed := now, fm_last_accessed_by := msg_sender msg\<rparr>"
  obtain c where c: "cache_put (nm_cache nm) f ?m = Some c" "cache_rel c (lru_store f ?m es)"
    using put_lru [OF es(1) assms(4), of ?m] es(3) by auto
  let ?nm' = "?nm1\<lparr>nm_file_trie := snd (trie_insert f ?m (nm_file_trie nm)), nm_cache := c\<rparr>"
  have i: "server_index id ?nm1 = Some i" "server_index id ?nm' = Some i" using g(3) by (simp_all add: server_index_def)
  have "handle_create (deployment readdir now shell show_time) now msg nm s = Some (reply SUCCESS, ?nm', s')"
    using assms(2,5,6) g(1,2) i(1) c(1) by (simp add: handle_create_def Let_def nm_request_create)
  moreover have "home f (nm_file_trie ?nm') = id" using assms(3) by (simp add: home_def search_insert)
  moreover have "coherent (lru_store f ?m es) (nm_file_trie ?nm')"
    using coherent_insert [OF es(2) assms(2,3)] by simp
  moreover have "f \<in> fst ` set (lru_store f ?m es)" by (simp add: lru_store_def)
  ultimately show ?thesis using assms(4) g(2) i(2) c(2) by (auto simp: answers_for_def)
qed

lemma create_session:
  assumes "sy_from_nm y = []" and "cl_nm_sock c = 3" and "takes_new_file (sy_nm y)"
    and "trie_search (nm_file_trie (sy_nm y)) f = None" and "ascii f" and "length f < MAX_FILENAME"
    and "edit_ready (sy_ss y) f (cl_username c)" and "content (ss_disk (sy_ss y)) (file_path (sy_ss y) f) = None"
    and "env = deployment readdir now shell show_time"
  shows "\<exists>nm' s'. handle_create_cmd (system_network env now) c f y =
      (''File created successfully!'' @ nl, y\<lparr>sy_nm := nm', sy_ss := s'\<rparr>)
    \<and> answers_for nm' f \<and> first_write_ready s' f (cl_username c)
    \<and> (\<forall>u required. check_access f u required nm' = (u = cl_username c))"
proof -
  let ?m = "(request_message c MSG_CREATE)\<lparr>msg_filename := f\<rparr>"
  have m: "msg_type ?m = type_code MSG_CREATE" "msg_filename ?m = f" "msg_sender ?m = cl_username c"
    by (simp_all add: request_message_def)
  obtain s' where s': "create_file_ss now f (sy_ss y) = (SUCCESS, s')" "first_write_ready s' f (cl_username c)"
    using create_then_ready [OF assms(7,8)] by blast
  obtain nm' where h: "handle_create env now ?m (sy_nm y) (sy_ss y) = Some (reply SUCCESS, nm', s')" "answers_for nm' f"
    using create_answers [OF assms(3-6) m(2) s'(1)] assms(9) by blast
  have ok: "msg_status (reply SUCCESS) = SUCCESS" by (simp add: reply_def)
  have acc: "check_access f u required nm' = (u = cl_username c)" for u required
    using create_rights [OF h(1) [unfolded assms(9)] ok] m assms(5) by simp
  have "dispatch env now (sy_response y) ?m (sy_nm y) (sy_ss y) = Some (reply SUCCESS, sy_response y, nm', s')"
    using h(1) m(1) by (simp add: dispatch_def Let_def)
  then have "handle_create_cmd (system_network env now) c f y =
      (''File created successfully!'' @ nl, y\<lparr>sy_nm := nm', sy_ss := s'\<rparr>)"
    using assms(1,2) ok by (simp add: handle_create_cmd_def system_network_def report_def)
  with h(2) s'(2) acc show ?thesis by blast
qed

lemma write_read_session:
  assumes "sy_from_nm y = []" and "sy_from_ss y = []" and "cl_nm_sock c = 3" and "answers_for (sy_nm y) f"
    and "check_access f (cl_username c) ACCESS_WRITE (sy_nm y)" and "first_write_ready (sy_ss y) f (cl_username c)"
    and "trim_whitespace l \<noteq> ''ETIRW''" and "parse_write_line (trim_whitespace l) = Some (1, bs)"
    and "trim_whitespace e = ''ETIRW''" and "clean bs" and "bs \<noteq> []" and "cl_nm_sock c2 = 3"
  shows "\<exists>c' y'. handle_write (system_network env now) c f ''0'' (Line l # Line e # rest) y =
      (''Sentence locked. Enter writes (word_index content), then type ETIRW:'' @ nl @ ''Client: Write successful!'' @ nl @
       ''Client: All writes completed successfully! (1 write(s))'' @ nl, Some c', rest, y')
    \<and> holder (ss_locks (sy_ss y')) f 0 = None
    \<and> fst (handle_read (system_network env later) c2 f y') =
        (if check_access f (cl_username c2) ACCESS_READ (sy_nm y) then cstr (take (MAX_BUFFER - 1) (stored_text bs)) @ nl
         else print_error ERR_ACCESS_DENIED)"
proof -
  obtain c' nm' r s' where w: "handle_write (system_network env now) c f ''0'' (Line l # Line e # rest) y =
      (''Sentence locked. Enter writes (word_index content), then type ETIRW:'' @ nl @ ''Client: Write successful!'' @ nl @
       ''Client: All writes completed successfully! (1 write(s))'' @ nl, Some c', rest,
       y\<lparr>sy_nm := nm', sy_response := r, sy_ss := s'\<rparr>)"
    "rights nm' = rights (sy_nm y)" "answers_for nm' f" "read_all (ss_disk s') (file_path s' f) = Some (stored_text bs)"
    "holder (ss_locks s') f 0 = None"
    using write_session [OF assms(1-11)] by blast
  let ?y = "y\<lparr>sy_nm := nm', sy_response := r, sy_ss := s'\<rparr>"
  obtain y2 where "handle_read (system_network env later) c2 f ?y =
      (if check_access f (cl_username c2) ACCESS_READ nm' then cstr (take (MAX_BUFFER - 1) (stored_text bs)) @ nl
       else print_error ERR_ACCESS_DENIED, y2)"
    using read_session [of ?y c2 f env later] assms(1,2,12) w(3,4) by auto
  with w(1,5) show ?thesis
    by (intro exI [of _ c'] exI [of _ ?y]) (simp add: check_access_same_rights [OF w(2)])
qed

text \<open>
  A document is written and read. On an empty file that no one else is editing, a user with
  write access types one line with word index 1 and a text, and the end mark. The client reports one
  write, the sentence is unlocked again, and a READ of any user prints, if the user may read the
  file, the text (its first 8191 bytes) with a space after each delimiter that white space does not
  follow and one at the end. (The text has no NUL byte and no run of 128 bytes without a separator.)
\<close>

lemma write_then_read:
  assumes "sy_from_nm y = []" and "sy_from_ss y = []" and "cl_nm_sock c = 3" and "answers_for (sy_nm y) f"
    and "check_access f (cl_username c) ACCESS_WRITE (sy_nm y)" and "first_write_ready (sy_ss y) f (cl_username c)"
    and "trim_whitespace l \<noteq> ''ETIRW''" and "parse_write_line (trim_whitespace l) = Some (1, bs)"
    and "trim_whitespace e = ''ETIRW''" and "clean bs" and "bs \<noteq> []" and "cl_nm_sock c2 = 3"
  shows "\<exists>c' y'. handle_write (system_network env now) c f ''0'' (Line l # Line e # rest) y =
      (''Sentence locked. Enter writes (word_index content), then type ETIRW:'' @ nl @ ''Client: Write successful!'' @ nl @
       ''Client: All writes completed successfully! (1 write(s))'' @ nl, Some c', rest, y')
    \<and> holder (ss_locks (sy_ss y')) f 0 = None
    \<and> fst (handle_read (system_network env later) c2 f y') =
        (if check_access f (cl_username c2) ACCESS_READ (sy_nm y) then cstr (take (MAX_BUFFER - 1) (stored_text bs)) @ nl
         else print_error ERR_ACCESS_DENIED)"
  using assms by (rule write_read_session)

text \<open>An empty disk, the file of the example empty on it, and the line its owner types.\<close>

definition blank_storage :: storage where
  "blank_storage = az_storage\<lparr>ss_disk := \<lparr>dk_files = Map.empty, dk_dirs = {''s''}, dk_blocked = {}\<rparr>\<rparr>"

definition empty_storage :: storage where
  "empty_storage = az_storage\<lparr>ss_disk :=
     \<lparr>dk_files = [''s/az'' \<mapsto> \<lparr>df_bytes = [], df_mtime = 0, df_atime = 0\<rparr>], dk_dirs = {''s''}, dk_blocked = {}\<rparr>\<rparr>"

lemma example_paths:
  "file_path (az_storage\<lparr>ss_disk := d\<rparr>) ''az'' = ''s/az''"
  "temp_path (az_storage\<lparr>ss_disk := d\<rparr>) ''az'' ''ann'' 0 = ''s/az.temp_ann_0''"
  "undo_path ''s/az'' = ''s/az.undo''"
proof -
  have "dec_int 0 = ''0''" by code_simp
  then show "file_path (az_storage\<lparr>ss_disk := d\<rparr>) ''az'' = ''s/az''"
    "temp_path (az_storage\<lparr>ss_disk := d\<rparr>) ''az'' ''ann'' 0 = ''s/az.temp_ann_0''" "undo_path ''s/az'' = ''s/az.undo''"
    by (simp_all add: file_path_def temp_path_def undo_path_def az_storage_def demo_server_def snprintf_def)
qed

lemma example_ready: "dk_dirs d = {''s''} \<Longrightarrow> dk_blocked d = {} \<Longrightarrow> edit_ready (az_storage\<lparr>ss_disk := d\<rparr>) ''az'' ''ann''"
  by (simp add: edit_ready_def example_paths can_write_def dirname_def)
    (simp add: az_storage_def demo_server_def session_keys_def holder_def get_sentence_lock_def file_entry_def get_commit_queue_def)

lemma blank_storage_ready:
  "edit_ready blank_storage ''az'' ''ann''" "content (ss_disk blank_storage) (file_path blank_storage ''az'') = None"
  unfolding blank_storage_def by (rule example_ready) (simp_all add: example_paths content_def)

lemma fresh_takes_file: "takes_new_file (one_server init_name_server)"
proof -
  have "cache_rel (nm_cache (one_server init_name_server)) []" "lc_capacity (nm_cache (one_server init_name_server)) = 100"
    by (simp_all add: one_server_def init_name_server_def init_cache_rel) (simp add: init_cache_def)
  then show ?thesis by (auto simp: takes_new_file_def coherent_def one_server_def intro!: exI [of _ "[]"])
qed

lemma demo_line:
  "trim_whitespace (''1 Hi.You'' @ nl) \<noteq> ''ETIRW''"
  "parse_write_line (trim_whitespace (''1 Hi.You'' @ nl)) = Some (1, ''Hi.You'')"
  "trim_whitespace (''ETIRW'' @ nl) = ''ETIRW''" "clean ''Hi.You''"
  "cstr (take (MAX_BUFFER - 1) (stored_text ''Hi.You'')) = ''Hi. You ''"
proof -
  have l: "trim_whitespace (''1 Hi.You'' @ nl) = ''1 Hi.You''" by code_simp
  show "trim_whitespace (''ETIRW'' @ nl) = ''ETIRW''" by code_simp
  show "trim_whitespace (''1 Hi.You'' @ nl) \<noteq> ''ETIRW''" unfolding l by simp
  show "parse_write_line (trim_whitespace (''1 Hi.You'' @ nl)) = Some (1, ''Hi.You'')" unfolding l by code_simp
  have "tokens ''Hi.You'' = [''Hi'', ''.'', ''You'']" by code_simp
  then show "clean ''Hi.You''" by (simp add: clean_def NUL_def)
  have "stored_text ''Hi.You'' = ''Hi. You ''" by code_simp
  then show "cstr (take (MAX_BUFFER - 1) (stored_text ''Hi.You'')) = ''Hi. You ''" by (simp add: cstr_def NUL_def)
qed



end
