(* ===== verification/StateTypes.thy ===== *)
theory StateTypes
  imports AccessControl
begin

text \<open>
  The structures of the name server as types: which strings fit their \<open>char\<close> arrays, which arrays
  have room for their counters, which numbers are an \<open>int\<close>. The copies in \<open>nm.c\<close> are \<open>strcpy\<close>, so
  this is also where they stay inside their buffers. Every event of the name server keeps the
  types, if the registrations it receives fit; the code does not check that they do.
\<close>

section \<open>Structures that fit\<close>

definition INET_ADDRSTRLEN :: nat where [simp]: "INET_ADDRSTRLEN = 16"

definition acl_fits :: "acl_entry list \<Rightarrow> bool" where
  "acl_fits acl \<longleftrightarrow> length acl \<le> MAX_ACL_ENTRIES \<and>
     (\<forall>a \<in> set acl. fits_buffer MAX_USERNAME (acl_username a) \<and> int32 (acl_access a))"

definition metadata_fits :: "file_metadata \<Rightarrow> bool" where
  "metadata_fits m \<longleftrightarrow>
     fits_buffer MAX_FILENAME (fm_filename m) \<and> fits_buffer MAX_PATH (fm_folder_path m) \<and>
     fits_buffer MAX_USERNAME (fm_owner m) \<and> fits_buffer MAX_USERNAME (fm_last_accessed_by m) \<and>
     int32 (fm_ss_id m) \<and> 0 \<le> fm_size m \<and> fm_size m < 2 ^ 64 \<and> int32 (fm_word_count m) \<and>
     int32 (fm_char_count m) \<and> acl_fits (fm_acl m)"

definition folder_fits :: "folder_metadata \<Rightarrow> bool" where
  "folder_fits d \<longleftrightarrow>
     fits_buffer MAX_FILENAME (fd_foldername d) \<and> fits_buffer MAX_PATH (fd_parent_path d) \<and>
     fits_buffer MAX_USERNAME (fd_owner d) \<and> int32 (fd_ss_id d) \<and> acl_fits (fd_acl d)"

definition server_fits :: "storage_server_info \<Rightarrow> bool" where
  "server_fits i \<longleftrightarrow>
     int32 (si_id i) \<and> fits_buffer INET_ADDRSTRLEN (si_ip i) \<and> int32 (si_nm_port i) \<and>
     int32 (si_client_port i) \<and> length (si_files i) \<le> MAX_FILES \<and>
     (\<forall>f \<in> set (si_files i). fits_buffer MAX_FILENAME f)"

definition client_fits :: "client_info \<Rightarrow> bool" where
  "client_fits c \<longleftrightarrow> fits_buffer MAX_USERNAME (ci_username c) \<and> fits_buffer INET_ADDRSTRLEN (ci_ip c)"

definition request_fits :: "access_request \<Rightarrow> bool" where
  "request_fits r \<longleftrightarrow>
     fits_buffer MAX_USERNAME (ar_username r) \<and> fits_buffer MAX_FILENAME (ar_filename r) \<and> int32 (ar_requested_access r)"

definition user_fits :: "registered_user \<Rightarrow> bool" where
  "user_fits u \<longleftrightarrow> fits_buffer MAX_USERNAME (ru_username u)"

text \<open>An array: its counter is within its bound, and its elements fit.\<close>

definition array_fits :: "('a \<Rightarrow> bool) \<Rightarrow> nat \<Rightarrow> 'a list \<Rightarrow> bool" where
  "array_fits fits n xs \<longleftrightarrow> length xs \<le> n \<and> (\<forall>x \<in> set xs. fits x)"

definition trie_fits :: "('m \<Rightarrow> bool) \<Rightarrow> 'm trie \<Rightarrow> bool" where
  "trie_fits fits t \<longleftrightarrow> (\<forall>k m. trie_search t k = Some m \<longrightarrow> fits m)"

definition nm_fits :: "name_server \<Rightarrow> bool" where
  "nm_fits nm \<longleftrightarrow>
     trie_fits metadata_fits (nm_file_trie nm) \<and> trie_fits folder_fits (nm_folder_trie nm) \<and>
     array_fits server_fits MAX_SS (nm_ss_list nm) \<and>
     array_fits user_fits (MAX_CLIENTS * 10) (nm_registered_users nm) \<and>
     array_fits client_fits MAX_CLIENTS (nm_client_list nm) \<and> length (nm_client_list nm) = MAX_CLIENTS \<and>
     nm_client_count nm \<le> MAX_CLIENTS \<and> array_fits request_fits (MAX_FILES * 10) (nm_access_requests nm)"

text \<open>
  What the name server relies on: whatever \<open>recv_message\<close> gives fits a \<open>Message\<close>
  (\<open>recv_message_fits\<close>), a client announces an address of less than 16 bytes, a storage server an
  address of less than 16 and file names of less than 256 bytes.
\<close>

fun event_fits :: "nm_event \<Rightarrow> bool" where
  "event_fits (Client_request now response msg) = (message_fits response \<and> message_fits msg)"
| "event_fits (Client_connects now sock msg) = (message_fits msg \<and> length (msg_data msg) < INET_ADDRSTRLEN)"
| "event_fits (Server_registers now sock msg) =
     (message_fits msg \<and> length (msg_sender msg) < INET_ADDRSTRLEN \<and>
      list_all (\<lambda>token. length token < MAX_FILENAME) (take MAX_FILES (strtok (CHR '','') (msg_data msg))))"
| "event_fits _ = True"

definition environment_fits :: "'w environment \<Rightarrow> bool" where
  "environment_fits env \<longleftrightarrow>
     (\<forall>i msg w. message_fits (fst (snd (env_rpc env i msg w)))) \<and> (\<forall>t. no_nul (env_strftime env t))"

named_theorems fits \<open>structures that fit\<close>

lemmas fits_defs = acl_fits_def metadata_fits_def folder_fits_def server_fits_def client_fits_def
  request_fits_def user_fits_def array_fits_def

lemma array_fits_update [fits]: "array_fits P n xs \<Longrightarrow> P x \<Longrightarrow> array_fits P n (xs[i := x])"
  by (auto simp: array_fits_def dest!: set_update_subset_insert [THEN subsetD])

lemma array_fits_snoc [fits]: "array_fits P n xs \<Longrightarrow> length xs < n \<Longrightarrow> P x \<Longrightarrow> array_fits P n (xs @ [x])"
  by (auto simp: array_fits_def)

lemma array_fits_remove [fits]: "array_fits P n xs \<Longrightarrow> array_fits P n (remove_nth i xs)"
  by (auto simp: array_fits_def remove_nth_def dest: in_set_takeD in_set_dropD)

lemma array_fits_nth: "array_fits P n xs \<Longrightarrow> i < length xs \<Longrightarrow> P (xs ! i)"
  by (simp add: array_fits_def)

lemma array_fits_map [fits]: "array_fits P n xs \<Longrightarrow> (\<And>x. P x \<Longrightarrow> P (f x)) \<Longrightarrow> array_fits P n (map f xs)"
  by (auto simp: array_fits_def)

lemma array_fits_Nil [simp]: "array_fits P n []"
  by (simp add: array_fits_def)

lemma trie_fits_insert [fits]: "trie_fits P t \<Longrightarrow> P m \<Longrightarrow> trie_fits P (snd (trie_insert k m t))"
  by (auto simp: trie_fits_def search_insert)

lemma trie_fits_update [fits]: "trie_fits P t \<Longrightarrow> P m \<Longrightarrow> trie_fits P (snd (trie_update k m t))"
  by (auto simp: trie_fits_def search_update split: if_splits)

lemma trie_fits_delete [fits]: "trie_fits P t \<Longrightarrow> trie_fits P (trie_delete k t)"
  by (auto simp: trie_fits_def trie_delete_def search_delete split: if_splits)

lemma trie_fits_search: "trie_fits P t \<Longrightarrow> trie_search t k = Some m \<Longrightarrow> P m"
  by (simp add: trie_fits_def)

lemma acl_fits_array: "acl_fits acl = array_fits (\<lambda>a. fits_buffer MAX_USERNAME (acl_username a) \<and> int32 (acl_access a)) MAX_ACL_ENTRIES acl"
  by (simp add: acl_fits_def array_fits_def)

lemma acl_fits_grant [fits]:
  assumes "acl_fits acl" and "fits_buffer MAX_USERNAME u" and "int32 a"
  shows "acl_fits (grant u a acl)"
  using assms unfolding acl_fits_array grant_def
  by (auto intro!: array_fits_update array_fits_snoc simp: find_index_Some split: option.split)

lemma acl_fits_revoke [fits]: "acl_fits acl \<Longrightarrow> acl_fits (revoke u acl)"
  unfolding acl_fits_array revoke_def by (auto intro: array_fits_remove split: option.split)

section \<open>The operations the handlers share\<close>

lemma reply_fits [fits]: "int32 st \<Longrightarrow> message_fits (reply st)"
  using message_fits_init by (simp add: reply_def message_fits_def)

lemma metadata_fits_found: "nm_fits nm \<Longrightarrow> trie_search (nm_file_trie nm) f = Some m \<Longrightarrow> metadata_fits m"
  by (auto simp: nm_fits_def dest: trie_fits_search)

lemma store_fits [fits]:
  "store_metadata f m nm = Some nm' \<Longrightarrow> nm_fits nm \<Longrightarrow> metadata_fits m \<Longrightarrow> nm_fits nm'"
  by (auto simp: store_metadata_def bind_eq_Some_conv nm_fits_def intro: trie_fits_update)

lemma find_ss_fits [fits]: "find_ss_for_file f nm = Some (i, nm') \<Longrightarrow> nm_fits nm \<Longrightarrow> nm_fits nm'"
  by (auto simp: find_ss_for_file_def bind_eq_Some_conv nm_fits_def split: option.splits)

lemma nm_fits_cache [simp]: "nm_fits (nm\<lparr>nm_cache := c\<rparr>) = nm_fits nm"
  by (simp add: nm_fits_def)

lemma round_robin_fits:
  assumes "get_next_ss_round_robin nm = (i, nm')" and "nm_fits nm"
  shows "nm_fits nm' \<and> int32 i"
proof (cases "nm_ss_list nm")
  case (Cons x xs)
  then have "server_fits (nm_ss_list nm ! (nm_next_ss_id nm mod length (nm_ss_list nm)))"
    using assms(2) by (intro array_fits_nth [of server_fits MAX_SS]) (auto simp: nm_fits_def)
  with assms Cons show ?thesis
    by (auto simp: get_next_ss_round_robin_def Let_def nm_fits_def server_fits_def)
qed (use assms in \<open>auto simp: get_next_ss_round_robin_def int32_def\<close>)

lemma rpc_fits [fits]: "environment_fits env \<Longrightarrow> server_rpc env nm i msg w = (ret, r, w') \<Longrightarrow> message_fits r"
  by (metis environment_fits_def fst_conv server_rpc_def snd_conv)

lemma rpc_reply_fits: "environment_fits env \<Longrightarrow> message_fits (fst (snd (server_rpc env nm i msg w)))"
  by (simp add: environment_fits_def server_rpc_def)

lemma rpc_reply_status: "environment_fits env \<Longrightarrow> int32 (msg_status (fst (snd (server_rpc env nm i msg w))))"
  using rpc_reply_fits [of env nm i msg w] by (simp add: message_fits_def)

lemma rpc_status: "environment_fits env \<Longrightarrow> server_rpc env nm i msg w = (ret, r, w') \<Longrightarrow> int32 (msg_status r)"
  using rpc_fits [of env nm i msg w ret r w'] by (simp add: message_fits_def)

lemma blank_fits: "metadata_fits blank_metadata"
  by (simp add: blank_metadata_def metadata_fits_def acl_fits_def int32_def)

lemma size_t_range: "0 \<le> to_size_t v \<and> to_size_t v < 2 ^ 64"
  by (simp add: to_size_t_def)

lemma scan_fields_fits:
  assumes "\<And>conv v m. conv \<in> set convs \<Longrightarrow> P m \<Longrightarrow> P (conv v m)" and "P m"
  shows "P (scan_fields convs s m)"
  using assms by (induction convs s m rule: scan_fields.induct) (auto split: option.splits list.splits)

lemma scan_info_fits [fits]: "metadata_fits m \<Longrightarrow> metadata_fits (scan_info d m)"
  unfolding scan_info_def
  by (rule scan_fields_fits) (auto simp: metadata_fits_def int32_to_int32 size_t_range [simplified])

section \<open>Handlers\<close>

lemma trie_update_fits:
  "nm_fits nm \<Longrightarrow> trie_fits metadata_fits t \<Longrightarrow> nm_fits (nm\<lparr>nm_file_trie := t\<rparr>)"
  "nm_fits nm \<Longrightarrow> trie_fits folder_fits t' \<Longrightarrow> nm_fits (nm\<lparr>nm_folder_trie := t'\<rparr>)"
  "nm_fits nm \<Longrightarrow> array_fits request_fits (MAX_FILES * 10) reqs \<Longrightarrow> nm_fits (nm\<lparr>nm_access_requests := reqs\<rparr>)"
  by (simp_all add: nm_fits_def)

lemma nm_fitsD:
  "nm_fits nm \<Longrightarrow> trie_fits metadata_fits (nm_file_trie nm)"
  "nm_fits nm \<Longrightarrow> trie_fits folder_fits (nm_folder_trie nm)"
  "nm_fits nm \<Longrightarrow> array_fits server_fits MAX_SS (nm_ss_list nm)"
  "nm_fits nm \<Longrightarrow> array_fits request_fits (MAX_FILES * 10) (nm_access_requests nm)"
  by (simp_all add: nm_fits_def)

text \<open>A reply that says one of the status codes.\<close>

lemma code_fits [simp]: "int32 200" "int32 400" "int32 401" "int32 403" "int32 404" "int32 405" "int32 406" "int32 409"
    "int32 424" "int32 500" "int32 503"
  by (simp_all add: int32_def)

lemma createfolder_fits [fits]:
  assumes "handle_createfolder env now msg nm w = (r, nm', w')" and "nm_fits nm" and "message_fits msg"
    and "environment_fits env"
  shows "nm_fits nm' \<and> message_fits r"
proof -
  obtain i nm1 where rr: "get_next_ss_round_robin nm = (i, nm1)" by force
  have nm1: "nm_fits nm1" "int32 i" using round_robin_fits [OF rr assms(2)] by simp_all
  let ?d = "\<lparr>fd_foldername = msg_foldername msg, fd_parent_path = msg_target_path msg,
      fd_owner = msg_sender msg, fd_created = now, fd_ss_id = i, fd_acl = []\<rparr>"
  have "folder_fits ?d" using assms(3) nm1(2) by (simp add: folder_fits_def message_fits_def acl_fits_def)
  then have "nm_fits (nm1\<lparr>nm_folder_trie := snd (folder_trie_insert p ?d (nm_folder_trie nm1))\<rparr>)" for p
    unfolding folder_trie_insert_def by (intro trie_update_fits trie_fits_insert nm_fitsD nm1)
  with nm1 show ?thesis
    using assms rr
    by (auto simp: handle_createfolder_def Let_def intro!: reply_fits rpc_status [OF assms(4)]
        split: if_splits option.splits prod.splits)
qed

lemma move_fits [fits]:
  assumes "handle_move env msg nm w = Some (r, nm', w')" and "nm_fits nm" and "message_fits msg"
    and "environment_fits env"
  shows "nm_fits nm' \<and> message_fits r"
proof -
  have "metadata_fits (m\<lparr>fm_folder_path := msg_target_path msg\<rparr>)" if "trie_search (nm_file_trie nm) f = Some m" for m f
    using metadata_fits_found [OF assms(2) that] assms(3) by (simp add: metadata_fits_def message_fits_def)
  with assms show ?thesis
    by (auto simp: handle_move_def Let_def bind_eq_Some_conv split_beta prod_eq_iff intro!: reply_fits
        intro: store_fits rpc_status [OF assms(4)] split: option.splits if_splits)
qed

lemma answer_fits [fits]:
  "message_fits r \<Longrightarrow> message_fits (r\<lparr>msg_type := type_code t\<rparr>)"
  "message_fits r \<Longrightarrow> int32 st \<Longrightarrow> message_fits (r\<lparr>msg_status := st\<rparr>)"
  "message_fits r \<Longrightarrow> fits_buffer 8192 d \<Longrightarrow> message_fits (r\<lparr>msg_data := d\<rparr>)"
  by (simp_all add: message_fits_def type_code_int32)

lemma reply_data_fits [fits]: "no_nul d \<Longrightarrow> fits_buffer 8192 (reply_data d)"
  by (simp add: reply_data_def fits_buffer_strncpy)

lemmas answers = answer_fits reply_fits reply_data_fits

lemma files_fit: "nm_fits nm \<Longrightarrow> m \<in> set (trie_get_all_files (nm_file_trie nm) n) \<Longrightarrow> metadata_fits m"
proof -
  assume nm: "nm_fits nm" and m: "m \<in> set (trie_get_all_files (nm_file_trie nm) n)"
  then have "m \<in> snd ` set (trie_entries (nm_file_trie nm))"
    by (auto simp: trie_get_all_files_def collect_entries dest: in_set_takeD)
  then obtain k where "trie_search (nm_file_trie nm) k = Some m" by (force simp: entries_search)
  with nm show ?thesis by (rule metadata_fits_found)
qed

lemma no_nul_concat: "no_nul (concat ss) \<longleftrightarrow> (\<forall>s \<in> set ss. no_nul s)"
  by (induction ss) auto

lemma no_nul_literals [simp]: "no_nul (replicate n CHR '' '')" "no_nul (replicate n CHR ''-'')" "no_nul (dec_int i)"
  by (simp_all add: no_nul_set NUL_def dec_int_no_nul [unfolded no_nul_set NUL_def])

lemma viewfolder_fits [fits]:
  assumes "nm_fits nm"
  shows "message_fits (handle_viewfolder msg nm)"
proof -
  have "no_nul (fm_filename m)" if "m \<in> set (trie_get_all_files (nm_file_trie nm) n)" for m n
    using files_fit [OF assms that] by (simp add: metadata_fits_def fits_buffer_def)
  then show ?thesis
    by (auto simp: handle_viewfolder_def Let_def no_nul_concat NUL_def intro!: answers)
qed

lemma requestaccess_fits [fits]:
  assumes "handle_requestaccess now msg nm = (r, nm')" and "nm_fits nm" and "message_fits msg"
  shows "nm_fits nm' \<and> message_fits r"
proof -
  have "request_fits \<lparr>ar_username = msg_sender msg, ar_filename = msg_filename msg,
      ar_requested_access = msg_access msg, ar_request_time = now\<rparr>"
    using assms(3) by (simp add: request_fits_def message_fits_def)
  then show ?thesis
    using assms(1,2)
    by (auto simp: handle_requestaccess_def Let_def fits_buffer_def NUL_def
        intro!: answers trie_update_fits nm_fitsD array_fits_snoc array_fits_remove split: if_splits)
qed

lemma viewrequests_fits [fits]:
  assumes "nm_fits nm" and "environment_fits env"
  shows "message_fits (handle_viewrequests env msg nm)"
proof -
  have "no_nul (request_line env (i, r))" if "r \<in> set (nm_access_requests nm)" for i r
    using that nm_fitsD(4) [OF assms(1)] assms(2)
    by (auto simp: request_line_def array_fits_def request_fits_def fits_buffer_def environment_fits_def NUL_def)
  then show ?thesis
    by (auto simp: handle_viewrequests_def Let_def no_nul_concat NUL_def in_set_enumerate_eq intro!: answers)
qed

lemma grant_fits:
  assumes "nm_fits nm" and "trie_search (nm_file_trie nm) f = Some m" and "fits_buffer MAX_USERNAME u" and "int32 a"
  shows "metadata_fits (m\<lparr>fm_acl := grant u a (fm_acl m)\<rparr>)" and "metadata_fits (m\<lparr>fm_acl := revoke v (fm_acl m)\<rparr>)"
  using metadata_fits_found [OF assms(1,2)] assms(3,4) by (auto simp: metadata_fits_def intro: fits)

lemma approverequest_fits [fits]:
  assumes "handle_approverequest msg nm = Some (r, nm')" and "nm_fits nm"
  shows "nm_fits nm' \<and> message_fits r"
proof -
  have req: "request_fits (nm_access_requests nm ! i)" if "i < length (nm_access_requests nm)" for i
    using array_fits_nth [OF nm_fitsD(4) [OF assms(2)] that] .
  have "nm_fits (nm1\<lparr>nm_access_requests := remove_nth i (nm_access_requests nm)\<rparr>)" if "nm_fits nm1" for nm1 i
    by (intro trie_update_fits that array_fits_remove nm_fitsD assms(2))
  with assms grant_fits(1) [OF assms(2)] req show ?thesis
    by (auto simp: handle_approverequest_def Let_def bind_eq_Some_conv request_fits_def nat_less_iff
        intro!: answers dest: store_fits split: option.splits if_splits)
qed

lemma denyrequest_fits [fits]:
  assumes "handle_denyrequest msg nm = (r, nm')" and "nm_fits nm"
  shows "nm_fits nm' \<and> message_fits r"
  using assms
  by (auto simp: handle_denyrequest_def Let_def intro!: answers trie_update_fits nm_fitsD array_fits_snoc array_fits_remove split: if_splits)

lemma checkpoint_fits [fits]:
  assumes "handle_checkpoint_request env msg nm w = Some (r, nm', w')" and "nm_fits nm" and "environment_fits env"
  shows "nm_fits nm' \<and> message_fits r"
  using assms
  by (auto simp: handle_checkpoint_request_def bind_eq_Some_conv split_beta intro!: reply_fits
      intro: find_ss_fits rpc_reply_fits split: option.splits if_splits)

lemma refresh_fits:
  "refresh_files env ms nm w = Some (ms', nm', w') \<Longrightarrow> nm_fits nm \<Longrightarrow> \<forall>m \<in> set ms. metadata_fits m
    \<Longrightarrow> nm_fits nm' \<and> (\<forall>m \<in> set ms'. metadata_fits m)"
proof (induction env ms nm w arbitrary: ms' rule: refresh_files.induct)
  case (2 env m ms nm w)
  from "2.prems"(1) obtain m1 nm1 w1 ms1 where one: "(case active_server_index (fm_ss_id m) nm of
          None \<Rightarrow> Some (m, nm, w)
        | Some i \<Rightarrow>
            let (ret, resp, w1) = server_rpc env nm i (info_request (fm_filename m)) w in
            if ret = 0 \<and> msg_status resp = SUCCESS then
              map_option (\<lambda>nm1. (scan_info (msg_data resp) m, nm1, w1))
                (store_metadata (fm_filename m) (scan_info (msg_data resp) m) nm)
            else Some (m, nm, w1)) = Some (m1, nm1, w1)"
    and rest: "refresh_files env ms nm1 w1 = Some (ms1, nm', w')" "ms' = m1 # ms1"
    by (auto simp: bind_eq_Some_conv)
  from one "2.prems"(2,3) have "nm_fits nm1 \<and> metadata_fits m1"
    by (auto simp: split_beta Let_def split: option.splits if_splits intro: store_fits scan_info_fits)
  with "2.IH" [OF one refl refl rest(1)] "2.prems"(3) rest(2) show ?case by auto
qed simp

lemma no_nul_pad [simp]: "no_nul (pad n s) = no_nul s"
  by (simp add: pad_def)

lemma metadata_no_nul:
  "metadata_fits m \<Longrightarrow> no_nul (fm_filename m)" "metadata_fits m \<Longrightarrow> no_nul (fm_owner m)"
  "metadata_fits m \<Longrightarrow> no_nul (fm_last_accessed_by m)"
  "metadata_fits m \<Longrightarrow> a \<in> set (fm_acl m) \<Longrightarrow> no_nul (acl_username a)"
  by (simp_all add: metadata_fits_def fits_buffer_def acl_fits_def)

lemma strftime_no_nul: "environment_fits env \<Longrightarrow> no_nul (env_strftime env t)"
  by (simp add: environment_fits_def)

lemma view_text_no_nul:
  "metadata_fits m \<Longrightarrow> environment_fits env \<Longrightarrow> no_nul (view_line env details m)" "no_nul view_header"
  by (simp_all add: view_line_def view_row_def view_header_def metadata_no_nul strftime_no_nul NUL_def)

lemma view_fits [fits]:
  assumes "handle_view env msg nm w = Some (r, nm', w')" and "nm_fits nm" and "environment_fits env"
  shows "nm_fits nm' \<and> message_fits r"
proof -
  let ?details = "has_flag CHR ''l'' (msg_data msg)" and ?files = "trie_get_all_files (nm_file_trie nm) MAX_FILES"
  have files: "\<forall>m \<in> set ?files. metadata_fits m" using files_fit [OF assms(2)] by blast
  from assms(1) obtain ms where ms:
    "(if ?details then refresh_files env ?files nm w else Some (?files, nm, w)) = Some (ms, nm', w')"
    and r: "r = (reply SUCCESS)\<lparr>msg_type := type_code MSG_DATA, msg_data := reply_data
      ((if ?details then view_header else []) @ concat (map (view_line env ?details)
        (filter (\<lambda>m. has_flag CHR ''a'' (msg_data msg) \<or> check_access (fm_filename m) (msg_sender msg) ACCESS_READ nm') ms)))\<rparr>"
    by (cases ?details) (auto simp: handle_view_def Let_def bind_eq_Some_conv)
  have fit: "nm_fits nm' \<and> (\<forall>m \<in> set ms. metadata_fits m)"
    using ms files assms(2) refresh_fits [of env ?files nm w ms nm' w'] by (auto split: if_splits)
  then show ?thesis
    unfolding r using assms(3)
    by (auto simp: no_nul_concat view_text_no_nul intro!: answers)
qed

lemma info_text_no_nul: "metadata_fits m \<Longrightarrow> environment_fits env \<Longrightarrow> no_nul (info_text env m)"
  by (auto simp: info_text_def Let_def metadata_no_nul strftime_no_nul no_nul_concat access_string_def NUL_def)

lemma info_fits [fits]:
  assumes "handle_info env msg nm w = Some (r, nm', w')" and "nm_fits nm" and "environment_fits env"
  shows "nm_fits nm' \<and> message_fits r"
proof (cases "trie_search (nm_file_trie nm) (msg_filename msg)")
  case (Some m)
  have m: "metadata_fits m" "\<And>d. metadata_fits (scan_info d m)"
    using metadata_fits_found [OF assms(2) Some] by (auto intro: scan_info_fits)
  from assms(1) Some obtain i where f: "find_ss_for_file (msg_filename msg) nm = Some (i, nm')"
    by (auto simp: handle_info_def Let_def bind_eq_Some_conv split_beta)
  have "nm_fits nm'" using f assms(2) by (rule find_ss_fits)
  with assms(1,3) Some f m show ?thesis
    by (auto simp: handle_info_def Let_def split_beta info_text_no_nul intro!: answers split: option.splits)
qed (use assms in \<open>auto simp: handle_info_def Let_def intro!: answers\<close>)

lemma list_users_no_nul: "no_nul b \<Longrightarrow> no_nul suffix \<Longrightarrow> \<forall>u \<in> set us. no_nul u \<Longrightarrow> no_nul (list_users suffix us b)"
  by (induction suffix us b rule: list_users.induct) (auto simp: Let_def)

lemma list_reply_fits [fits]:
  assumes "nm_fits nm"
  shows "message_fits (handle_list nm)"
proof -
  have "\<forall>c \<in> set (nm_client_list nm). no_nul (ci_username c)"
    using assms by (auto simp: nm_fits_def array_fits_def client_fits_def fits_buffer_def)
  moreover have "\<forall>u \<in> set (nm_registered_users nm). no_nul (ru_username u)"
    using assms by (auto simp: nm_fits_def array_fits_def user_fits_def fits_buffer_def)
  ultimately have "no_nul (list_text nm)"
    by (auto simp: list_text_def Let_def NUL_def intro!: list_users_no_nul dest!: in_set_takeD)
  then show ?thesis by (auto simp: handle_list_def intro!: answers)
qed

lemma create_fits [fits]:
  assumes "handle_create env now msg nm w = Some (r, nm', w')" and "nm_fits nm" and "message_fits msg"
    and "environment_fits env"
  shows "nm_fits nm' \<and> message_fits r"
proof -
  obtain i nm1 where rr: "get_next_ss_round_robin nm = (i, nm1)" by force
  have nm1: "nm_fits nm1" "int32 i" using round_robin_fits [OF rr assms(2)] by simp_all
  let ?m = "blank_metadata\<lparr>fm_filename := msg_filename msg, fm_owner := msg_sender msg, fm_ss_id := i,
      fm_created := now, fm_modified := now, fm_accessed := now, fm_last_accessed_by := msg_sender msg\<rparr>"
  have "metadata_fits ?m" using blank_fits assms(3) nm1(2) by (simp add: metadata_fits_def message_fits_def)
  then have "nm_fits (nm1\<lparr>nm_file_trie := snd (trie_insert f ?m (nm_file_trie nm1)), nm_cache := c\<rparr>)" for f c
    using trie_update_fits(1) [OF nm1(1) trie_fits_insert [OF nm_fitsD(1) [OF nm1(1)]]] by (simp add: nm_fits_def)
  with nm1 show ?thesis
    using assms rr
    by (auto simp: handle_create_def Let_def split_beta bind_eq_Some_conv prod_eq_iff intro!: reply_fits
        intro: rpc_reply_status split: option.splits if_splits)
qed

lemma delete_fits [fits]:
  assumes "handle_delete env msg nm w = Some (r, nm', w')" and "nm_fits nm" and "environment_fits env"
  shows "nm_fits nm' \<and> message_fits r"
proof -
  have "nm_fits (nm\<lparr>nm_file_trie := trie_delete f (nm_file_trie nm), nm_cache := c\<rparr>)" for f c
    using trie_update_fits(1) [OF assms(2) trie_fits_delete [OF nm_fitsD(1) [OF assms(2)]]] by (simp add: nm_fits_def)
  with assms show ?thesis
    by (auto simp: handle_delete_def Let_def split_beta bind_eq_Some_conv prod_eq_iff intro!: reply_fits
        intro: rpc_reply_status split: option.splits if_splits)
qed

lemma access_fits [fits]:
  assumes "handle_access msg nm = Some (r, nm')" and "nm_fits nm" and "message_fits msg"
  shows "nm_fits nm' \<and> message_fits r"
proof -
  have "fits_buffer MAX_USERNAME (msg_target_user msg)" "int32 (msg_access msg)"
    using assms(3) by (simp_all add: message_fits_def)
  with assms grant_fits [OF assms(2)] message_fits_init show ?thesis
    by (auto simp: handle_access_def Let_def intro!: reply_fits dest: store_fits split: option.splits if_splits)
qed

lemma no_nul_cstr [simp]: "no_nul (cstr s)"
  by (auto simp: cstr_def no_nul_set dest: set_takeWhileD)

lemma exec_fits [fits]:
  assumes "handle_exec env msg nm w = Some (r, nm', w')" and "nm_fits nm" and "environment_fits env"
  shows "nm_fits nm' \<and> message_fits r"
proof (cases "check_access (msg_filename msg) (msg_sender msg) ACCESS_READ nm")
  case True
  with assms(1) obtain a nm1 where f: "find_ss_for_file (msg_filename msg) nm = Some (a, nm1)"
    by (auto simp: handle_exec_def bind_eq_Some_conv)
  have fit: "nm_fits nm1" using f assms(2) by (rule find_ss_fits)
  let ?r = "\<lambda>i. server_rpc env nm1 i ((info_request (msg_filename msg))\<lparr>msg_data := ''READ_CONTENT''\<rparr>) w"
  show ?thesis
  proof (cases "server_index a nm1")
    case (Some i)
    obtain out w2 where sh: "env_shell env (msg_data (fst (snd (?r i)))) (snd (snd (?r i))) = (out, w2)" by force
    show ?thesis
      using assms(1,3) True f Some sh fit
      by (cases out) (auto simp: handle_exec_def Let_def split_beta intro!: answers rpc_reply_status split: if_splits)
  qed (use assms True f fit in \<open>auto simp: handle_exec_def intro!: answers split: if_splits\<close>)
qed (use assms in \<open>auto simp: handle_exec_def intro!: answers\<close>)

lemma redirect_fits [fits]:
  assumes "handle_redirect now resp msg nm = Some (r, nm')" and "nm_fits nm" and "message_fits msg" and "message_fits resp"
  shows "nm_fits nm' \<and> message_fits r"
proof -
  have touch: "metadata_fits (m\<lparr>fm_accessed := now, fm_last_accessed_by := msg_sender msg\<rparr>)"
    if "nm_fits nm1" "trie_search (nm_file_trie nm1) f = Some m" for m f nm1
    using metadata_fits_found [OF that] assms(3) by (simp add: metadata_fits_def message_fits_def)
  have address: "fits_buffer 8192 (si_ip (nm_ss_list nm1 ! i) @ CHR '':'' # dec_int (si_client_port (nm_ss_list nm1 ! i)))"
    if "nm_fits nm1" "server_index k nm1 = Some i" for nm1 k i
  proof -
    have "server_fits (nm_ss_list nm1 ! i)"
      using array_fits_nth [OF nm_fitsD(3) [OF that(1)]] that(2) by (simp add: server_index_def find_index_bound)
    then show ?thesis
      using length_dec_int [of "si_client_port (nm_ss_list nm1 ! i)"] by (auto simp: server_fits_def fits_buffer_def NUL_def)
  qed
  show ?thesis
    using assms
    by (auto simp: handle_redirect_def Let_def bind_eq_Some_conv split_beta intro!: answers address
        dest: find_ss_fits store_fits [OF _ _ touch] split: option.splits if_splits)
qed

lemma dispatch_fits:
  assumes "dispatch env now resp msg nm w = Some (r, resp', nm', w')" and "nm_fits nm" and "message_fits msg"
    and "message_fits resp" and "environment_fits env"
  shows "nm_fits nm' \<and> message_fits r"
proof (cases "type_of_code (msg_type msg)")
  case None
  with assms show ?thesis by (auto simp: dispatch_def Let_def intro!: answers)
next
  case (Some t)
  with assms show ?thesis
    by (cases t) (auto simp: dispatch_def Let_def intro!: answers viewrequests_fits viewfolder_fits list_reply_fits
        dest: requestaccess_fits approverequest_fits denyrequest_fits checkpoint_fits createfolder_fits move_fits
          view_fits info_fits create_fits delete_fits access_fits exec_fits redirect_fits split: prod.splits)
qed

section \<open>Connections\<close>

lemma user_table_fits:
  assumes "nm_fits nm" and "fits_buffer MAX_USERNAME u"
  shows "nm_fits (snd (register_user_persistent now u sock nm))"
proof -
  have "array_fits user_fits (MAX_CLIENTS * 10) (nm_registered_users nm)" using assms(1) by (simp add: nm_fits_def)
  with assms show ?thesis
    by (auto simp: register_user_persistent_def Let_def nm_fits_def find_user_def find_index_Some user_fits_def
        array_fits_nth intro!: array_fits_update array_fits_snoc split: option.splits)
qed

lemma deregister_fits [fits]: "nm_fits nm \<Longrightarrow> nm_fits (deregister_active_session now u sock nm)"
  by (auto simp: deregister_active_session_def Let_def nm_fits_def find_user_def find_index_Some user_fits_def
      array_fits_def dest!: set_update_subset_insert [THEN subsetD] split: option.splits)

lemma shift_down_fits: "array_fits P n xs \<Longrightarrow> i < m \<Longrightarrow> m \<le> length xs \<Longrightarrow> array_fits P n (shift_down i m xs) \<and> length (shift_down i m xs) = length xs"
  by (auto simp: array_fits_def shift_down_def dest!: in_set_takeD in_set_dropD)

lemma split_fields_chars: "t \<in> set (split_fields sep s) \<Longrightarrow> set t \<subseteq> set s"
proof (induction sep s rule: split_fields.induct)
  case (1 sep s)
  show ?case
  proof (cases "dropWhile sep s")
    case Nil
    with "1.prems" show ?thesis by (simp add: split_fields.simps)
  next
    case (Cons c cs)
    let ?t = "c # cs"
    have "set ?t \<subseteq> set s" using Cons set_dropWhileD [of _ sep s] by auto
    moreover have "t = takeWhile (\<lambda>c. \<not> sep c) ?t \<or> t \<in> set (split_fields sep (dropWhile (\<lambda>c. \<not> sep c) ?t))"
      using "1.prems" Cons by (subst (asm) split_fields.simps) auto
    moreover have "set (dropWhile (\<lambda>c. \<not> sep c) ?t) \<subseteq> set ?t" "set (takeWhile (\<lambda>c. \<not> sep c) ?t) \<subseteq> set ?t"
      using set_dropWhileD set_takeWhileD by fastforce+
    ultimately show ?thesis using "1.IH" [OF Cons] by blast
  qed
qed

lemma strtok_no_nul: "no_nul s \<Longrightarrow> token \<in> set (strtok sep s) \<Longrightarrow> no_nul token"
  by (auto simp: strtok_def no_nul_set dest: split_fields_chars)

lemma admitted_client_fits:
  assumes "client_connects now sock msg nm = (Some idx, nm')" and "nm_fits nm" and "message_fits msg"
  shows "nm_fits nm' \<longleftrightarrow> length (msg_data msg) < INET_ADDRSTRLEN"
proof -
  have sender: "fits_buffer MAX_USERNAME (msg_sender msg)" and data: "no_nul (msg_data msg)"
    using assms(3) by (simp_all add: message_fits_def fits_buffer_def)
  let ?nm1 = "snd (register_user_persistent now (msg_sender msg) sock nm)"
  let ?c = "\<lparr>ci_username = msg_sender msg, ci_ip = msg_data msg, ci_sock = sock, ci_connected = now\<rparr>"
  have fit: "nm_fits ?nm1" by (rule user_table_fits [OF assms(2) sender])
  from assms(1) have nm': "nm' = ?nm1\<lparr>nm_client_list := (nm_client_list ?nm1)[nm_client_count ?nm1 := ?c],
      nm_client_count := nm_client_count ?nm1 + 1\<rparr>" and room: "nm_client_count ?nm1 < MAX_CLIENTS"
    by (auto simp: client_connects_def Let_def split_beta split: if_splits)
  have len: "length (nm_client_list ?nm1) = MAX_CLIENTS" using fit by (simp add: nm_fits_def)
  have c: "client_fits ?c \<longleftrightarrow> length (msg_data msg) < INET_ADDRSTRLEN"
    using sender data by (simp add: client_fits_def fits_buffer_def)
  show ?thesis
  proof
    assume "nm_fits nm'"
    then have "array_fits client_fits MAX_CLIENTS ((nm_client_list ?nm1)[nm_client_count ?nm1 := ?c])"
      by (simp add: nm' nm_fits_def)
    from array_fits_nth [OF this, of "nm_client_count ?nm1"] room len c show "length (msg_data msg) < INET_ADDRSTRLEN"
      by simp
  next
    assume "length (msg_data msg) < INET_ADDRSTRLEN"
    with fit room c show "nm_fits nm'" by (auto simp: nm' nm_fits_def intro!: array_fits_update)
  qed
qed

lemma connects_fits [fits]:
  assumes "nm_fits nm" and "message_fits msg" and "length (msg_data msg) < INET_ADDRSTRLEN"
  shows "nm_fits (snd (client_connects now sock msg nm))"
proof (cases "fst (client_connects now sock msg nm)")
  case None
  have "nm_fits (snd (register_user_persistent now (msg_sender msg) sock nm))"
    using assms by (intro user_table_fits) (simp_all add: message_fits_def)
  with None assms(1) show ?thesis
    by (auto simp: client_connects_def Let_def split_beta intro: deregister_fits split: if_splits)
next
  case (Some idx)
  then have "client_connects now sock msg nm = (Some idx, snd (client_connects now sock msg nm))" by (simp add: prod_eq_iff)
  from admitted_client_fits [OF this assms(1,2)] assms(3) show ?thesis by simp
qed

lemma disconnects_fits [fits]: "nm_fits nm \<Longrightarrow> nm_fits (client_disconnects now sock idx nm)"
proof -
  assume nm: "nm_fits nm"
  have "nm_fits (nm\<lparr>nm_client_list := shift_down i (nm_client_count nm) (nm_client_list nm), nm_client_count := nm_client_count nm - 1\<rparr>)"
    if "find_index (\<lambda>c. ci_sock c = sock) (take (nm_client_count nm) (nm_client_list nm)) = Some i" for i
  proof -
    have "i < nm_client_count nm" using find_index_bound [OF that] by simp
    then have "array_fits client_fits MAX_CLIENTS (shift_down i (nm_client_count nm) (nm_client_list nm))
        \<and> length (shift_down i (nm_client_count nm) (nm_client_list nm)) = length (nm_client_list nm)"
      using nm by (intro shift_down_fits) (auto simp: nm_fits_def)
    with nm show ?thesis by (auto simp: nm_fits_def)
  qed
  with nm show ?thesis by (auto simp: client_disconnects_def Let_def intro!: deregister_fits split: option.splits)
qed

lemma register_files_fit:
  assumes "\<forall>f \<in> set names. fits_buffer MAX_FILENAME f" and "int32 i"
  shows "trie_fits metadata_fits t \<Longrightarrow> trie_fits metadata_fits (fold (register_file now i) names t)"
  using assms(1)
proof (induction names arbitrary: t)
  case (Cons f names)
  have "metadata_fits (m\<lparr>fm_ss_id := i\<rparr>)" if "trie_search t f = Some m" for m
    using Cons.prems(1) that assms(2) by (auto simp: trie_fits_def metadata_fits_def)
  moreover have "metadata_fits (blank_metadata\<lparr>fm_filename := f, fm_owner := ''system'',
      fm_created := now, fm_modified := now, fm_accessed := now, fm_ss_id := i\<rparr>)"
    using blank_fits Cons.prems(2) assms(2) by (simp add: metadata_fits_def fits_buffer_def NUL_def)
  ultimately have "trie_fits metadata_fits (register_file now i f t)"
    using Cons.prems(1) by (auto simp: trie_fits_def search_register split: if_splits option.splits)
  with Cons.IH Cons.prems(2) show ?case by simp
qed simp

lemma registered_server_fits:
  assumes "register_ss now sock msg nm = Some nm'" and "nm_fits nm" and "message_fits msg"
  shows "nm_fits nm' \<longleftrightarrow> length (msg_sender msg) < INET_ADDRSTRLEN \<and>
    list_all (\<lambda>token. length token < MAX_FILENAME) (take MAX_FILES (strtok (CHR '','') (msg_data msg)))"
proof -
  let ?names = "take MAX_FILES (strtok (CHR '','') (msg_data msg))"
  let ?e = "\<lparr>si_id = msg_ss_id msg, si_ip = msg_sender msg, si_nm_port = msg_nm_port msg,
     si_client_port = msg_client_port msg, si_sock = sock, si_hb_sock = -1,
     si_active = True, si_last_heartbeat = now, si_files = ?names\<rparr>"
  let ?servers = "case server_index (msg_ss_id msg) nm of Some i \<Rightarrow> (nm_ss_list nm)[i := ?e] | None \<Rightarrow> nm_ss_list nm @ [?e]"
  have nn: "no_nul f" if "f \<in> set ?names" for f
    using that assms(3) by (auto simp: message_fits_def fits_buffer_def dest!: in_set_takeD intro: strtok_no_nul)
  have ints: "int32 (msg_ss_id msg)" "int32 (msg_nm_port msg)" "int32 (msg_client_port msg)" "no_nul (msg_sender msg)"
    using assms(3) by (simp_all add: message_fits_def fits_buffer_def)
  have e: "server_fits ?e \<longleftrightarrow> length (msg_sender msg) < INET_ADDRSTRLEN \<and> list_all (\<lambda>token. length token < MAX_FILENAME) ?names"
    using ints nn by (auto simp: server_fits_def fits_buffer_def list_all_iff)
  from assms(1) have nm': "nm' = nm\<lparr>nm_ss_list := ?servers,
      nm_file_trie := fold (register_file now (msg_ss_id msg)) ?names (nm_file_trie nm)\<rparr>"
    and room: "server_index (msg_ss_id msg) nm = None \<Longrightarrow> length (nm_ss_list nm) < MAX_SS"
    by (auto simp: register_ss_def Let_def simp del: MAX_FILES_def split: if_splits)
  have mem: "?e \<in> set ?servers"
    by (auto simp: server_index_def find_index_Some set_update_memI split: option.split)
  show ?thesis
  proof
    assume "nm_fits nm'"
    then have "array_fits server_fits MAX_SS ?servers" by (simp add: nm' nm_fits_def)
    with mem e show "length (msg_sender msg) < INET_ADDRSTRLEN \<and> list_all (\<lambda>token. length token < MAX_FILENAME) ?names"
      by (auto simp: array_fits_def)
  next
    assume *: "length (msg_sender msg) < INET_ADDRSTRLEN \<and> list_all (\<lambda>token. length token < MAX_FILENAME) ?names"
    then have "array_fits server_fits MAX_SS ?servers"
      using e room nm_fitsD(3) [OF assms(2)] by (auto intro!: array_fits_update array_fits_snoc split: option.split)
    moreover have "trie_fits metadata_fits (fold (register_file now (msg_ss_id msg)) ?names (nm_file_trie nm))"
      using * nn by (intro register_files_fit nm_fitsD assms(2) ints) (auto simp: fits_buffer_def list_all_iff)
    ultimately show "nm_fits nm'" using assms(2) by (simp add: nm' nm_fits_def)
  qed
qed

lemma update_server_fits [fits]:
  assumes "nm_fits nm" and "\<And>i. server_fits i \<Longrightarrow> server_fits (f i)"
  shows "nm_fits (update_server ss_id f nm)"
  using assms array_fits_nth [OF nm_fitsD(3) [OF assms(1)]]
  by (auto simp: update_server_def nm_fits_def server_index_def find_index_Some intro!: array_fits_update split: option.split)

lemma heartbeat_fits [fits]:
  assumes "nm_fits nm"
  shows "nm_fits (heartbeat_connects now sock msg nm)" "nm_fits (heartbeat_received now i msg nm)"
    "nm_fits (heartbeat_lost i nm)" "nm_fits (heartbeat_monitor now nm)"
proof -
  show "nm_fits (heartbeat_connects now sock msg nm)" "nm_fits (heartbeat_received now i msg nm)" "nm_fits (heartbeat_lost i nm)"
    using assms
    by (auto simp: heartbeat_connects_def heartbeat_received_def heartbeat_lost_def server_fits_def intro!: update_server_fits)
  show "nm_fits (heartbeat_monitor now nm)"
    using assms
    by (auto simp: heartbeat_monitor_def nm_fits_def monitor_server_def server_fits_def Let_def intro!: array_fits_map)
qed

lemma step_fits:
  assumes "nm_step env e (nm, w) = Some (nm', w')" and "nm_fits nm" and "event_fits e" and "environment_fits env"
  shows "nm_fits nm'"
proof (cases e)
  case (Client_request now resp msg)
  with assms show ?thesis by (auto dest: dispatch_fits)
next
  case (Server_registers now sock msg)
  with assms registered_server_fits [of now sock msg nm] show ?thesis by (auto split: option.splits)
qed (use assms in \<open>auto intro: connects_fits disconnects_fits heartbeat_fits\<close>)

lemma run_fits:
  "nm_run env es (nm, w) = Some (nm', w') \<Longrightarrow> nm_fits nm \<Longrightarrow> list_all event_fits es \<Longrightarrow> environment_fits env \<Longrightarrow> nm_fits nm'"
proof (induction es arbitrary: nm w)
  case (Cons e es)
  from Cons.prems(1) obtain nm1 w1 where e: "nm_step env e (nm, w) = Some (nm1, w1)"
    and es: "nm_run env es (nm1, w1) = Some (nm', w')" by (auto simp: bind_eq_Some_conv)
  show ?case
    using Cons.IH [OF es] step_fits [OF e] Cons.prems(2-4) by simp
qed simp

lemma init_fits: "nm_fits init_name_server"
  by (simp add: nm_fits_def init_name_server_def init_trie_def init_folder_trie_def trie_fits_def array_fits_def
      client_fits_def blank_client_def)

section \<open>Properties\<close>



text \<open>
  The copies of addresses and names at a registration are not checked. A client that is let in is
  stored inside its structure exactly when the address it announces has less than 16 bytes, and a
  storage server exactly when its address has less than 16 and each file name less than 256 bytes;
  a \<open>Message\<close> carries up to 8191, 63 and 8191.
\<close>

lemma registration_overruns:
  assumes "nm_fits nm" and "message_fits msg"
  shows "(client_connects now sock msg nm = (Some idx, nm1) \<longrightarrow> (nm_fits nm1 \<longleftrightarrow> length (msg_data msg) < INET_ADDRSTRLEN))
    \<and> (register_ss now sock msg nm = Some nm2 \<longrightarrow>
         (nm_fits nm2 \<longleftrightarrow> length (msg_sender msg) < INET_ADDRSTRLEN
            \<and> list_all (\<lambda>token. length token < MAX_FILENAME) (take MAX_FILES (strtok (CHR '','') (msg_data msg)))))"
  using admitted_client_fits [OF _ assms] registered_server_fits [OF _ assms] by blast

end
