(* ===== verification/ThreadPool.thy ===== *)
theory ThreadPool
  imports Common "HOL-Library.Monad_Syntax"
begin

text \<open>
  Threads that share a state. A thread is where it stands in its function, with its local variables;
  a step is what it does under one lock. A schedule says which thread runs next and what time it
  sees. The locale \<open>pool_invariant\<close> is the contract of a property that no step of any thread breaks.
\<close>

text \<open>A step that does not end is \<open>None\<close>; so is a run with such a step.\<close>

fun run_pool :: "(time \<Rightarrow> 't \<Rightarrow> 's \<Rightarrow> ('t \<times> 's) option) \<Rightarrow> (nat \<times> time) list \<Rightarrow> 't list \<times> 's \<Rightarrow> ('t list \<times> 's) option" where
  "run_pool step [] p = Some p"
| "run_pool step ((i, now) # sched) (ts, s) =
     (if i < length ts then do {
        (t, s1) \<leftarrow> step now (ts ! i) s;
        run_pool step sched (ts[i := t], s1) }
      else run_pool step sched (ts, s))"

text \<open>One thread alone.\<close>

primrec solo :: "(time \<Rightarrow> 't \<Rightarrow> 's \<Rightarrow> ('t \<times> 's) option) \<Rightarrow> time \<Rightarrow> nat \<Rightarrow> 't \<Rightarrow> 's \<Rightarrow> ('t \<times> 's) option" where
  "solo step now 0 t s = Some (t, s)"
| "solo step now (Suc n) t s = Option.bind (step now t s) (\<lambda>(t1, s1). solo step now n t1 s1)"

lemma solo_numeral:
  "solo step now (numeral n) t s = Option.bind (step now t s) (\<lambda>(t', s'). solo step now (pred_numeral n) t' s')"
  by (simp add: numeral_eq_Suc)

lemma solo_stays: "step now t s = Some (t, s) \<Longrightarrow> solo step now n t s = Some (t, s)"
  by (induction n) simp_all

lemma run_solo: "run_pool step (replicate n (0, now)) ([t], s) = map_option (\<lambda>(t', s'). ([t'], s')) (solo step now n t s)"
proof (induction n arbitrary: t s)
  case (Suc n)
  then show ?case by (cases "step now t s") auto
qed simp

lemma run_first:
  "run_pool step (replicate n (0, now) @ sched) (t # ts, s) =
     Option.bind (solo step now n t s) (\<lambda>(t', s'). run_pool step sched (t' # ts, s'))"
proof (induction n arbitrary: t s)
  case (Suc n)
  then show ?case by (cases "step now t s") auto
qed simp

lemma map_bind: "map_option f (Option.bind x g) = Option.bind x (\<lambda>y. map_option f (g y))"
  by (cases x) simp_all

locale pool_invariant =
  fixes step :: "time \<Rightarrow> 't \<Rightarrow> 's \<Rightarrow> ('t \<times> 's) option" and inv :: "'t list \<Rightarrow> 's \<Rightarrow> bool"
  assumes step_inv: "inv ts s \<Longrightarrow> i < length ts \<Longrightarrow> step now (ts ! i) s = Some (t, s') \<Longrightarrow> inv (ts[i := t]) s'"
begin

lemma run_inv: "run_pool step sched (ts, s) = Some (ts', s') \<Longrightarrow> inv ts s \<Longrightarrow> inv ts' s'"
proof (induction sched arbitrary: ts s)
  case (Cons e sched)
  obtain i now where e: "e = (i, now)" by force
  show ?case
  proof (cases "i < length ts")
    case True
    with Cons.prems(1) e obtain t s1 where st: "step now (ts ! i) s = Some (t, s1)"
      and run: "run_pool step sched (ts[i := t], s1) = Some (ts', s')" by (auto simp: bind_eq_Some_conv)
    show ?thesis by (rule Cons.IH [OF run step_inv [OF Cons.prems(2) True st]])
  qed (use Cons e in simp)
qed simp

end

end
