(* ===== verification/NameThreads.thy ===== *)
theory NameThreads
  imports AccessControl ThreadPool
begin

text \<open>
  The threads of the name server (\<open>nm.c\<close>). Every client has a thread of its own, and no handler
  holds a lock from its first look at the index to its last change: the mutexes and read-write locks
  cover one operation each. Here a handler that changes the index or acts on a storage server is cut at those
  operations, and a schedule interleaves any number of them. Run alone, the steps of a handler are
  the handler; interleaved, a promise of the handlers can fail, and another one still holds.
\<close>

section \<open>Threads\<close>

text \<open>
  Where a thread stands, with its local variables: \<open>handle_create\<close>, \<open>handle_delete\<close>,
  \<open>handle_access\<close>, \<open>handle_move\<close>, \<open>handle_createfolder\<close>, \<open>handle_checkpoint_request\<close>, and the cases READ, WRITE, STREAM and UNDO of \<open>handle_client_connection\<close>. Each
  constructor but the last is named after the operation the thread does next.
\<close>

datatype nm_thread =
    Create_search message
  | Create_place message
  | Create_index message int
  | Create_forward message int nat
  | Create_insert message int
  | Create_cache message file_metadata
  | Delete_search message
  | Delete_index message int
  | Delete_forward message nat
  | Delete_entry message
  | Delete_cache message
  | Access_search message
  | Access_user message file_metadata
  | Access_store message file_metadata
  | Access_cache message file_metadata
  | Redirect_check message message
  | Redirect_lookup message message
  | Redirect_search message message
  | Redirect_fill message message file_metadata
  | Redirect_address message message int
  | Redirect_read message message
  | Redirect_touch message message file_metadata
  | Redirect_cache message message file_metadata
  | Move_search message
  | Move_check message file_metadata
  | Move_folder message file_metadata
  | Move_index message file_metadata
  | Move_forward message file_metadata nat
  | Move_store message file_metadata
  | Move_cache message file_metadata
  | Folder_search message string
  | Folder_place message string
  | Folder_index message string int
  | Folder_forward message string int nat
  | Folder_insert message string int
  | Checkpoint_check message
  | Checkpoint_lookup message
  | Checkpoint_search message
  | Checkpoint_fill message file_metadata
  | Checkpoint_index message int
  | Checkpoint_forward message nat
  | Finished message message

definition full_path :: "message \<Rightarrow> string" where
  "full_path msg =
     snprintf MAX_PATH (if msg_target_path msg \<noteq> [] then msg_target_path msg @ ''/'' @ msg_foldername msg
                        else ''/'' @ msg_foldername msg)"

definition start_thread :: "message \<Rightarrow> message \<Rightarrow> nm_thread option" where
  "start_thread response msg =
     (case type_of_code (msg_type msg) of
        Some MSG_CREATE \<Rightarrow> Some (Create_search msg)
      | Some MSG_DELETE \<Rightarrow> Some (Delete_search msg)
      | Some MSG_ADDACCESS \<Rightarrow> Some (Access_search msg)
      | Some MSG_REMACCESS \<Rightarrow> Some (Access_search msg)
      | Some MSG_MOVE \<Rightarrow> Some (Move_search msg)
      | Some MSG_CREATEFOLDER \<Rightarrow> Some (Folder_search msg (full_path msg))
      | Some MSG_CHECKPOINT \<Rightarrow> Some (Checkpoint_check msg)
      | Some MSG_VIEWCHECKPOINT \<Rightarrow> Some (Checkpoint_check msg)
      | Some MSG_REVERT \<Rightarrow> Some (Checkpoint_check msg)
      | Some MSG_LISTCHECKPOINTS \<Rightarrow> Some (Checkpoint_check msg)
      | Some MSG_READ \<Rightarrow> Some (Redirect_check (response\<lparr>msg_type := type_code MSG_DATA\<rparr>) msg)
      | Some MSG_WRITE \<Rightarrow> Some (Redirect_check (response\<lparr>msg_type := type_code MSG_DATA\<rparr>) msg)
      | Some MSG_STREAM \<Rightarrow> Some (Redirect_check (response\<lparr>msg_type := type_code MSG_DATA\<rparr>) msg)
      | Some MSG_UNDO \<Rightarrow> Some (Redirect_check (response\<lparr>msg_type := type_code MSG_DATA\<rparr>) msg)
      | _ \<Rightarrow> None)"

definition new_metadata :: "time \<Rightarrow> int \<Rightarrow> message \<Rightarrow> file_metadata" where
  "new_metadata now ss_id msg =
     blank_metadata\<lparr>fm_filename := msg_filename msg, fm_owner := msg_sender msg, fm_ss_id := ss_id,
       fm_created := now, fm_modified := now, fm_accessed := now, fm_last_accessed_by := msg_sender msg\<rparr>"

text \<open>
  One operation of a thread, under one lock. \<open>None\<close> is a call of the cache that does not return.
  The two exchanges of a DELETE with the storage server happen under the one mutex of its socket.
\<close>

fun nm_thread_step :: "'w environment \<Rightarrow> time \<Rightarrow> nm_thread \<Rightarrow> name_server \<times> 'w \<Rightarrow> (nm_thread \<times> name_server \<times> 'w) option" where
  "nm_thread_step env now (Create_search msg) (nm, w) =
     Some (if trie_search (nm_file_trie nm) (msg_filename msg) \<noteq> None then Finished msg (reply ERR_FILE_EXISTS)
           else Create_place msg, nm, w)"
| "nm_thread_step env now (Create_place msg) (nm, w) =
     (let (ss_id, nm1) = get_next_ss_round_robin nm in
      Some (if ss_id < 0 then Finished msg (reply ERR_SS_UNAVAILABLE) else Create_index msg ss_id, nm1, w))"
| "nm_thread_step env now (Create_index msg ss_id) (nm, w) =
     Some (case server_index ss_id nm of
             None \<Rightarrow> Finished msg (reply ERR_SS_UNAVAILABLE)
           | Some i \<Rightarrow> Create_forward msg ss_id i, nm, w)"
| "nm_thread_step env now (Create_forward msg ss_id i) (nm, w) =
     (let (_, ss_response, w1) = server_rpc env nm i
            (init_message\<lparr>msg_type := type_code MSG_CREATE, msg_filename := msg_filename msg\<rparr>) w
      in Some (if msg_status ss_response = SUCCESS then Create_insert msg ss_id
               else Finished msg (reply (msg_status ss_response)), nm, w1))"
| "nm_thread_step env now (Create_insert msg ss_id) (nm, w) =
     (let meta = new_metadata now ss_id msg in
      Some (Create_cache msg meta,
            nm\<lparr>nm_file_trie := snd (trie_insert (msg_filename msg) meta (nm_file_trie nm))\<rparr>, w))"
| "nm_thread_step env now (Create_cache msg meta) (nm, w) = do {
     cache \<leftarrow> cache_put (nm_cache nm) (msg_filename msg) meta;
     Some (Finished msg (reply SUCCESS), nm\<lparr>nm_cache := cache\<rparr>, w) }"
| "nm_thread_step env now (Delete_search msg) (nm, w) =
     Some (case trie_search (nm_file_trie nm) (msg_filename msg) of
             None \<Rightarrow> Finished msg (reply ERR_FILE_NOT_FOUND)
           | Some meta \<Rightarrow> if fm_owner meta \<noteq> msg_sender msg then Finished msg (reply ERR_NOT_OWNER)
                          else Delete_index msg (fm_ss_id meta), nm, w)"
| "nm_thread_step env now (Delete_index msg ss_id) (nm, w) =
     Some (case server_index ss_id nm of
             None \<Rightarrow> Finished msg (reply ERR_SS_UNAVAILABLE)
           | Some i \<Rightarrow> Delete_forward msg i, nm, w)"
| "nm_thread_step env now (Delete_forward msg i) (nm, w) =
     (let (_, lock_response, w1) = server_rpc env nm i
            (init_message\<lparr>msg_type := type_code MSG_CHECK_LOCKS, msg_filename := msg_filename msg\<rparr>) w
      in if msg_status lock_response = ERR_FILE_LOCKED then Some (Finished msg (reply ERR_FILE_LOCKED), nm, w1)
         else
           let (_, ss_response, w2) = server_rpc env nm i
                 (init_message\<lparr>msg_type := type_code MSG_DELETE, msg_filename := msg_filename msg\<rparr>) w1
           in Some (if msg_status ss_response = SUCCESS then Delete_entry msg
                    else Finished msg (reply (msg_status ss_response)), nm, w2))"
| "nm_thread_step env now (Delete_entry msg) (nm, w) =
     Some (Delete_cache msg, nm\<lparr>nm_file_trie := trie_delete (msg_filename msg) (nm_file_trie nm)\<rparr>, w)"
| "nm_thread_step env now (Delete_cache msg) (nm, w) = do {
     cache \<leftarrow> cache_remove (nm_cache nm) (msg_filename msg);
     Some (Finished msg (reply SUCCESS), nm\<lparr>nm_cache := cache\<rparr>, w) }"
| "nm_thread_step env now (Access_search msg) (nm, w) =
     Some (case trie_search (nm_file_trie nm) (msg_filename msg) of
             None \<Rightarrow> Finished msg (reply ERR_FILE_NOT_FOUND)
           | Some meta \<Rightarrow>
               if fm_owner meta \<noteq> msg_sender msg then Finished msg (reply ERR_NOT_OWNER)
               else if msg_type msg = type_code MSG_ADDACCESS then Access_user msg meta
               else if msg_type msg = type_code MSG_REMACCESS then
                 Access_store msg (meta\<lparr>fm_acl := revoke (msg_target_user msg) (fm_acl meta)\<rparr>)
               else Finished msg init_message, nm, w)"
| "nm_thread_step env now (Access_user msg meta) (nm, w) =
     Some (if \<not> user_exists (msg_target_user msg) nm then Finished msg (reply ERR_USER_NOT_FOUND)
           else if msg_target_user msg = msg_sender msg then Finished msg (reply ERR_INVALID_OPERATION)
           else Access_store msg (meta\<lparr>fm_acl := grant (msg_target_user msg) (msg_access msg) (fm_acl meta)\<rparr>), nm, w)"
| "nm_thread_step env now (Access_store msg meta) (nm, w) =
     Some (Access_cache msg meta,
           nm\<lparr>nm_file_trie := snd (trie_update (msg_filename msg) meta (nm_file_trie nm))\<rparr>, w)"
| "nm_thread_step env now (Access_cache msg meta) (nm, w) = do {
     cache \<leftarrow> cache_put (nm_cache nm) (msg_filename msg) meta;
     Some (Finished msg (reply SUCCESS), nm\<lparr>nm_cache := cache\<rparr>, w) }"
| "nm_thread_step env now (Redirect_check response msg) (nm, w) =
     (let required = (if msg_type msg = type_code MSG_WRITE \<or> msg_type msg = type_code MSG_UNDO
                      then ACCESS_WRITE else ACCESS_READ)
      in Some (if check_access (msg_filename msg) (msg_sender msg) required nm then Redirect_lookup response msg
               else Finished msg (response\<lparr>msg_status := ERR_ACCESS_DENIED\<rparr>), nm, w))"
| "nm_thread_step env now (Redirect_lookup response msg) (nm, w) = do {
     (cached, cache) \<leftarrow> cache_get (nm_cache nm) (msg_filename msg);
     Some (case cached of
             Some meta \<Rightarrow> Redirect_address response msg (fm_ss_id meta)
           | None \<Rightarrow> Redirect_search response msg, nm\<lparr>nm_cache := cache\<rparr>, w) }"
| "nm_thread_step env now (Redirect_search response msg) (nm, w) =
     Some (case trie_search (nm_file_trie nm) (msg_filename msg) of
             None \<Rightarrow> Redirect_address response msg (-1)
           | Some meta \<Rightarrow> Redirect_fill response msg meta, nm, w)"
| "nm_thread_step env now (Redirect_fill response msg meta) (nm, w) = do {
     cache \<leftarrow> cache_put (nm_cache nm) (msg_filename msg) meta;
     Some (Redirect_address response msg (fm_ss_id meta), nm\<lparr>nm_cache := cache\<rparr>, w) }"
| "nm_thread_step env now (Redirect_address response msg ss_id) (nm, w) =
     Some (if ss_id < 0 then Finished msg (response\<lparr>msg_status := ERR_FILE_NOT_FOUND\<rparr>)
           else Redirect_read
             (case server_index ss_id nm of
                None \<Rightarrow> response
              | Some i \<Rightarrow> response\<lparr>msg_data := si_ip (nm_ss_list nm ! i) @ '':'' @ dec_int (si_client_port (nm_ss_list nm ! i)),
                                  msg_status := SUCCESS\<rparr>) msg, nm, w)"
| "nm_thread_step env now (Redirect_read response msg) (nm, w) =
     Some (case trie_search (nm_file_trie nm) (msg_filename msg) of
             None \<Rightarrow> Finished msg response
           | Some meta \<Rightarrow> Redirect_touch response msg (meta\<lparr>fm_accessed := now, fm_last_accessed_by := msg_sender msg\<rparr>), nm, w)"
| "nm_thread_step env now (Redirect_touch response msg meta) (nm, w) =
     Some (Redirect_cache response msg meta,
           nm\<lparr>nm_file_trie := snd (trie_update (msg_filename msg) meta (nm_file_trie nm))\<rparr>, w)"
| "nm_thread_step env now (Redirect_cache response msg meta) (nm, w) = do {
     cache \<leftarrow> cache_put (nm_cache nm) (msg_filename msg) meta;
     Some (Finished msg response, nm\<lparr>nm_cache := cache\<rparr>, w) }"
| "nm_thread_step env now (Move_search msg) (nm, w) =
     Some (case trie_search (nm_file_trie nm) (msg_filename msg) of
             None \<Rightarrow> Finished msg (reply ERR_FILE_NOT_FOUND)
           | Some meta \<Rightarrow> Move_check msg meta, nm, w)"
| "nm_thread_step env now (Move_check msg meta) (nm, w) =
     Some (if fm_owner meta \<noteq> msg_sender msg \<and> \<not> check_access (msg_filename msg) (msg_sender msg) ACCESS_WRITE nm
           then Finished msg (reply ERR_ACCESS_DENIED) else Move_folder msg meta, nm, w)"
| "nm_thread_step env now (Move_folder msg meta) (nm, w) =
     Some (if \<not> is_root (msg_target_path msg) \<and> folder_trie_search (nm_folder_trie nm) (msg_target_path msg) = None
           then Finished msg (reply ERR_FILE_NOT_FOUND) else Move_index msg meta, nm, w)"
| "nm_thread_step env now (Move_index msg meta) (nm, w) =
     Some (case active_server_index (fm_ss_id meta) nm of
             None \<Rightarrow> Finished msg (reply ERR_SS_UNAVAILABLE)
           | Some i \<Rightarrow> Move_forward msg meta i, nm, w)"
| "nm_thread_step env now (Move_forward msg meta i) (nm, w) =
     (let (_, ss_response, w1) = server_rpc env nm i
            (init_message\<lparr>msg_type := type_code MSG_MOVE, msg_filename := msg_filename msg,
                          msg_target_path := msg_target_path msg, msg_data := fm_folder_path meta\<rparr>) w
      in Some (if msg_status ss_response = SUCCESS then Move_store msg (meta\<lparr>fm_folder_path := msg_target_path msg\<rparr>)
               else Finished msg (reply (msg_status ss_response)), nm, w1))"
| "nm_thread_step env now (Move_store msg meta) (nm, w) =
     Some (Move_cache msg meta,
           nm\<lparr>nm_file_trie := snd (trie_update (msg_filename msg) meta (nm_file_trie nm))\<rparr>, w)"
| "nm_thread_step env now (Move_cache msg meta) (nm, w) = do {
     cache \<leftarrow> cache_put (nm_cache nm) (msg_filename msg) meta;
     Some (Finished msg (reply SUCCESS), nm\<lparr>nm_cache := cache\<rparr>, w) }"
| "nm_thread_step env now (Folder_search msg path) (nm, w) =
     Some (if folder_trie_search (nm_folder_trie nm) path \<noteq> None then Finished msg (reply ERR_FILE_EXISTS)
           else Folder_place msg path, nm, w)"
| "nm_thread_step env now (Folder_place msg path) (nm, w) =
     (let (ss_id, nm1) = get_next_ss_round_robin nm in
      Some (if ss_id < 0 then Finished msg (reply ERR_SS_UNAVAILABLE) else Folder_index msg path ss_id, nm1, w))"
| "nm_thread_step env now (Folder_index msg path ss_id) (nm, w) =
     Some (case active_server_index ss_id nm of
             None \<Rightarrow> Finished msg (reply ERR_SS_UNAVAILABLE)
           | Some i \<Rightarrow> Folder_forward msg path ss_id i, nm, w)"
| "nm_thread_step env now (Folder_forward msg path ss_id i) (nm, w) =
     (let (_, ss_response, w1) = server_rpc env nm i
            (init_message\<lparr>msg_type := type_code MSG_CREATEFOLDER, msg_foldername := msg_foldername msg,
                          msg_target_path := path\<rparr>) w
      in Some (if msg_status ss_response = SUCCESS then Folder_insert msg path ss_id
               else Finished msg (reply (msg_status ss_response)), nm, w1))"
| "nm_thread_step env now (Folder_insert msg path ss_id) (nm, w) =
     Some (Finished msg (reply SUCCESS),
           nm\<lparr>nm_folder_trie := snd (folder_trie_insert path
             \<lparr>fd_foldername = msg_foldername msg, fd_parent_path = msg_target_path msg,
              fd_owner = msg_sender msg, fd_created = now, fd_ss_id = ss_id, fd_acl = []\<rparr>
             (nm_folder_trie nm))\<rparr>, w)"
| "nm_thread_step env now (Checkpoint_check msg) (nm, w) =
     Some (if \<not> check_access (msg_filename msg) (msg_sender msg) ACCESS_WRITE nm
           then Finished msg (reply ERR_ACCESS_DENIED) else Checkpoint_lookup msg, nm, w)"
| "nm_thread_step env now (Checkpoint_lookup msg) (nm, w) = do {
     (cached, cache) \<leftarrow> cache_get (nm_cache nm) (msg_filename msg);
     Some (case cached of
             Some meta \<Rightarrow> Checkpoint_index msg (fm_ss_id meta)
           | None \<Rightarrow> Checkpoint_search msg, nm\<lparr>nm_cache := cache\<rparr>, w) }"
| "nm_thread_step env now (Checkpoint_search msg) (nm, w) =
     Some (case trie_search (nm_file_trie nm) (msg_filename msg) of
             None \<Rightarrow> Checkpoint_index msg (-1)
           | Some meta \<Rightarrow> Checkpoint_fill msg meta, nm, w)"
| "nm_thread_step env now (Checkpoint_fill msg meta) (nm, w) = do {
     cache \<leftarrow> cache_put (nm_cache nm) (msg_filename msg) meta;
     Some (Checkpoint_index msg (fm_ss_id meta), nm\<lparr>nm_cache := cache\<rparr>, w) }"
| "nm_thread_step env now (Checkpoint_index msg ss_id) (nm, w) =
     Some (if ss_id < 0 then Finished msg (reply ERR_FILE_NOT_FOUND)
           else (case active_server_index ss_id nm of
             None \<Rightarrow> Finished msg (reply ERR_SS_UNAVAILABLE)
           | Some i \<Rightarrow> Checkpoint_forward msg i), nm, w)"
| "nm_thread_step env now (Checkpoint_forward msg i) (nm, w) =
     (let (_, response, w1) = server_rpc env nm i msg w in Some (Finished msg response, nm, w1))"
| "nm_thread_step env now (Finished msg response) (nm, w) = Some (Finished msg response, nm, w)"

abbreviation run_threads :: "'w environment \<Rightarrow> (nat \<times> time) list \<Rightarrow> nm_thread list \<times> name_server \<times> 'w
    \<Rightarrow> (nm_thread list \<times> name_server \<times> 'w) option" where
  "run_threads env \<equiv> run_pool (nm_thread_step env)"

section \<open>A handler alone\<close>

text \<open>No handler has more than eight operations; a finished thread stays as it is.\<close>

lemma solo_finished [simp]: "solo (nm_thread_step env) now n (Finished msg r) (nm, w) = Some (Finished msg r, nm, w)"
  by (rule solo_stays) simp

lemma create_solo:
  "solo (nm_thread_step env) now 8 (Create_search msg) (nm, w) =
     map_option (\<lambda>(r, nm', w'). (Finished msg r, nm', w')) (handle_create env now msg nm w)"
  by (simp add: numeral_eq_Suc handle_create_def new_metadata_def Let_def split_beta map_bind split: option.split)

lemma delete_solo:
  "solo (nm_thread_step env) now 8 (Delete_search msg) (nm, w) =
     map_option (\<lambda>(r, nm', w'). (Finished msg r, nm', w')) (handle_delete env msg nm w)"
  by (simp add: numeral_eq_Suc handle_delete_def Let_def split_beta map_bind split: option.split)

lemma access_solo:
  "solo (nm_thread_step env) now 8 (Access_search msg) (nm, w) =
     map_option (\<lambda>(r, nm'). (Finished msg r, nm', w)) (handle_access msg nm)"
  by (simp add: numeral_eq_Suc handle_access_def Let_def split_beta map_bind store_metadata_def split: option.split)

lemma redirect_solo:
  "solo (nm_thread_step env) now 8 (Redirect_check (response\<lparr>msg_type := type_code MSG_DATA\<rparr>) msg) (nm, w) =
     map_option (\<lambda>(r, nm'). (Finished msg r, nm', w)) (handle_redirect now response msg nm)"
proof (cases "cache_get (nm_cache nm) (msg_filename msg)")
  case None
  then show ?thesis by (simp add: numeral_eq_Suc handle_redirect_def find_ss_for_file_def Let_def)
next
  case (Some p)
  note simps = numeral_eq_Suc handle_redirect_def find_ss_for_file_def store_metadata_def Let_def map_bind
  show ?thesis
  proof (cases "fst p")
    case (Some m)
    with \<open>cache_get (nm_cache nm) (msg_filename msg) = Some p\<close> show ?thesis
      by (cases p) (simp add: simps split: option.split)
  next
    case None
    then obtain c where c: "cache_get (nm_cache nm) (msg_filename msg) = Some (None, c)"
      using Some by (cases p) simp
    show ?thesis
    proof (cases "trie_search (nm_file_trie nm) (msg_filename msg)")
      case (Some m)
      with c show ?thesis
        by (cases "cache_put c (msg_filename msg) m") (simp_all add: simps split: option.split)
    qed (use c in \<open>simp add: simps split: option.split\<close>)
  qed
qed

lemma move_solo:
  "solo (nm_thread_step env) now 8 (Move_search msg) (nm, w) =
     map_option (\<lambda>(r, nm', w'). (Finished msg r, nm', w')) (handle_move env msg nm w)"
  by (simp add: numeral_eq_Suc handle_move_def Let_def split_beta map_bind store_metadata_def split: option.split)

lemma folder_solo:
  "solo (nm_thread_step env) now 8 (Folder_search msg (full_path msg)) (nm, w) =
     (case handle_createfolder env now msg nm w of (r, nm', w') \<Rightarrow> Some (Finished msg r, nm', w'))"
  unfolding handle_createfolder_def full_path_def [symmetric]
  by (simp add: numeral_eq_Suc Let_def split_beta split: option.split)

lemma checkpoint_solo:
  "solo (nm_thread_step env) now 8 (Checkpoint_check msg) (nm, w) =
     map_option (\<lambda>(r, nm', w'). (Finished msg r, nm', w')) (handle_checkpoint_request env msg nm w)"
proof (cases "cache_get (nm_cache nm) (msg_filename msg)")
  case None
  then show ?thesis by (simp add: numeral_eq_Suc handle_checkpoint_request_def find_ss_for_file_def Let_def)
next
  case (Some p)
  note simps = numeral_eq_Suc handle_checkpoint_request_def find_ss_for_file_def Let_def map_bind split_beta
  show ?thesis
  proof (cases "fst p")
    case (Some m)
    with \<open>cache_get (nm_cache nm) (msg_filename msg) = Some p\<close> show ?thesis
      by (cases p) (simp add: simps split: option.split)
  next
    case None
    then obtain c where c: "cache_get (nm_cache nm) (msg_filename msg) = Some (None, c)"
      using Some by (cases p) simp
    show ?thesis
    proof (cases "trie_search (nm_file_trie nm) (msg_filename msg)")
      case (Some m)
      with c show ?thesis
        by (cases "cache_put c (msg_filename msg) m") (simp_all add: simps split: option.split)
    qed (use c in \<open>simp add: simps split: option.split\<close>)
  qed
qed

lemma thread_is_handler:
  assumes "start_thread response msg = Some t"
  shows "solo (nm_thread_step env) now 8 t (nm, w) = map_option (\<lambda>(r, _, nm', w'). (Finished msg r, nm', w')) (dispatch env now response msg nm w)"
proof -
  obtain ty where ty: "type_of_code (msg_type msg) = Some ty"
    using assms by (auto simp: start_thread_def split: option.splits)
  with assms show ?thesis
    by (cases ty) (auto simp: start_thread_def dispatch_def Let_def create_solo delete_solo access_solo redirect_solo
        move_solo folder_solo checkpoint_solo
        option.map_comp comp_def case_prod_unfold)
qed

lemma keys_kept: "f \<in> fst ` set es \<Longrightarrow> f \<in> fst ` set (lru_touch k es)" "f \<in> fst ` set es \<Longrightarrow> f \<in> fst ` set (lru_store k v es)"
  by (force simp: lru_touch_def lru_store_def drop_key_def split: option.split dest: map_of_SomeD)+

lemma redirect_to_touch:
  assumes "msg_type rd = type_code MSG_READ" and "check_access (msg_filename rd) (msg_sender rd) ACCESS_READ nm"
    and "cache_get (nm_cache nm) (msg_filename rd) = Some (Some mc, c)" and "0 \<le> fm_ss_id mc"
    and "trie_search (nm_file_trie nm) (msg_filename rd) = Some m"
  shows "\<exists>r. solo (nm_thread_step env) now 4 (Redirect_check response rd) (nm, w) =
    Some (Redirect_touch r rd (m\<lparr>fm_accessed := now, fm_last_accessed_by := msg_sender rd\<rparr>), nm\<lparr>nm_cache := c\<rparr>, w)"
  using assms by (simp add: numeral_eq_Suc)

text \<open>
  A READ can undo a revocation. A thread that serves a READ copies the metadata of the file, and
  the owner's REMACCESS of that very reader runs and answers \<open>SUCCESS\<close>, before the thread writes its
  copy back with the new access time: afterwards the reader may still read the file.
\<close>

lemma revocation_lost:
  assumes "msg_type rd = type_code MSG_READ" and "msg_type rv = type_code MSG_REMACCESS"
    and "msg_filename rd = f" and "msg_filename rv = f" and "msg_target_user rv = msg_sender rd"
    and "trie_search (nm_file_trie nm) f = Some m" and "fm_owner m = msg_sender rv" and "acl_check (msg_sender rd) ACCESS_READ (fm_acl m)"
    and "cache_rel (nm_cache nm) es" and "map_of es f = Some mc" and "0 \<le> fm_ss_id mc" and "length f < MAX_FILENAME"
  shows "\<exists>r nm'. run_threads env (replicate 4 (0, now) @ replicate 3 (1, now) @ replicate 2 (0, now))
       ([Redirect_check response rd, Access_search rv], nm, w) = Some ([Finished rd r, Finished rv (reply SUCCESS)], nm', w)
     \<and> check_access f (msg_sender rd) ACCESS_READ nm'"
proof -
  have key: "f \<in> fst ` set es" using assms(10) by (force dest: map_of_SomeD)
  obtain c1 where c1: "cache_get (nm_cache nm) f = Some (Some mc, c1)" "cache_rel c1 (lru_touch f es)"
    using get_lru [OF assms(9), of f] key assms(10) by auto
  let ?m1 = "m\<lparr>fm_acl := revoke (msg_sender rd) (fm_acl m)\<rparr>" and ?m2 = "m\<lparr>fm_accessed := now, fm_last_accessed_by := msg_sender rd\<rparr>"
  obtain c2 where c2: "cache_put c1 f ?m1 = Some c2" "cache_rel c2 (lru_store f ?m1 (lru_touch f es))"
    using put_lru [OF c1(2) assms(12), of ?m1] keys_kept(1) [OF key] by auto
  obtain c3 where c3: "cache_put c2 f ?m2 = Some c3"
    using put_lru [OF c2(2) assms(12), of ?m2] keys_kept [OF key] by (auto simp: keys_kept)
  have acc: "check_access f (msg_sender rd) ACCESS_READ nm"
    using assms(6,8) by (simp add: check_access_rights rights_def)
  obtain r where r: "solo (nm_thread_step env) now 4 (Redirect_check response rd) (nm, w) = Some (Redirect_touch r rd ?m2, nm\<lparr>nm_cache := c1\<rparr>, w)"
    using redirect_to_touch [of rd nm mc c1 m env now response w] assms(1,3,6,11) acc c1(1) by auto
  let ?t1 = "snd (trie_update f ?m1 (nm_file_trie nm))"
  let ?nm' = "nm\<lparr>nm_file_trie := snd (trie_update f ?m2 ?t1), nm_cache := c3\<rparr>"
  have "run_threads env (replicate 4 (0, now) @ replicate 3 (1, now) @ replicate 2 (0, now))
      ([Redirect_check response rd, Access_search rv], nm, w) = Some ([Finished rd r, Finished rv (reply SUCCESS)], ?nm', w)"
    unfolding run_first r using assms(2-7) c2(1) c3 by (simp add: numeral_eq_Suc)
  moreover have "check_access f (msg_sender rd) ACCESS_READ ?nm'"
    using assms(6,8) by (simp add: check_access_rights rights_def search_update)
  ultimately show ?thesis by blast
qed

end
