(* ===== verification/RequestThreads.thy ===== *)
theory RequestThreads
  imports NameThreads
begin

text \<open>
  The other requests of the name server's threads (\<open>nm.c\<close>): the queue of access requests, the listings,
  INFO and EXEC, beside the handlers of \<open>NameThreads\<close>. Two mutexes are held over more than one
  operation and are part of the shared state: \<open>request_mutex\<close>, and the mutex of a storage server's
  socket, which VIEW with \<open>-l\<close> keeps while it stores what the server has told it.
\<close>

section \<open>Threads\<close>

text \<open>What a lookup of the storage server is for.\<close>

datatype purpose = For_info file_metadata | For_exec

datatype nm_task =
    Handler nm_thread
  | Ask_search message
  | Ask_access message
  | Ask_queue message
  | Requests_lock message
  | Requests_entry message nat string bool
  | Approve_lock message
  | Approve_owner message access_request
  | Approve_store message access_request file_metadata
  | Approve_cache message access_request file_metadata
  | Approve_remove message access_request
  | Deny_lock message
  | Deny_owner message access_request
  | Deny_remove message access_request
  | Folder_exists message
  | Folder_files message
  | Folder_entry message "file_metadata list" string
  | View_files message
  | View_index message "file_metadata list" "file_metadata list"
  | View_ask message "file_metadata list" file_metadata "file_metadata list" nat
  | View_store message "file_metadata list" file_metadata "file_metadata list" nat
  | View_cache message "file_metadata list" file_metadata "file_metadata list" nat
  | View_entry message "file_metadata list" string
  | Info_search message
  | Exec_check message
  | Find_lookup purpose message
  | Find_search purpose message
  | Find_fill purpose message file_metadata
  | Info_index message file_metadata int
  | Info_ask message file_metadata nat
  | Exec_index message int
  | Exec_ask message nat
  | Exec_shell message string
  | List_clients message
  | List_registered message string

abbreviation Done :: "message \<Rightarrow> message \<Rightarrow> nm_task" where
  "Done msg r \<equiv> Handler (Finished msg r)"

definition start_task :: "message \<Rightarrow> message \<Rightarrow> nm_task" where
  "start_task response msg =
     (case start_thread response msg of
        Some t \<Rightarrow> Handler t
      | None \<Rightarrow>
          (case type_of_code (msg_type msg) of
             Some MSG_REQUESTACCESS \<Rightarrow> Ask_search msg
           | Some MSG_VIEWREQUESTS \<Rightarrow> Requests_lock msg
           | Some MSG_APPROVEREQUEST \<Rightarrow> Approve_lock msg
           | Some MSG_DENYREQUEST \<Rightarrow> Deny_lock msg
           | Some MSG_VIEWFOLDER \<Rightarrow> Folder_exists msg
           | Some MSG_VIEW \<Rightarrow> View_files msg
           | Some MSG_INFO \<Rightarrow> Info_search msg
           | Some MSG_LIST \<Rightarrow> List_clients msg
           | Some MSG_EXEC \<Rightarrow> Exec_check msg
           | _ \<Rightarrow> Done msg (response\<lparr>msg_status := ERR_INVALID_OPERATION\<rparr>)))"

text \<open>
  The state the threads share: \<open>request_mutex\<close>, the sockets whose mutex is kept between two steps,
  the name server and the world behind it.
\<close>

record 'w shared =
  sh_queue :: bool
  sh_sockets :: "nat list"
  sh_nm :: name_server
  sh_world :: 'w

definition unlocked :: "name_server \<Rightarrow> 'w \<Rightarrow> 'w shared" where
  "unlocked nm w = \<lparr>sh_queue = False, sh_sockets = [], sh_nm = nm, sh_world = w\<rparr>"

text \<open>The socket whose mutex the next step of a handler takes.\<close>

fun socket_of :: "nm_thread \<Rightarrow> nat option" where
  "socket_of (Create_forward _ _ i) = Some i"
| "socket_of (Delete_forward _ i) = Some i"
| "socket_of (Move_forward _ _ i) = Some i"
| "socket_of (Folder_forward _ _ _ i) = Some i"
| "socket_of (Checkpoint_forward _ i) = Some i"
| "socket_of _ = None"

definition waits_for :: "nat \<Rightarrow> 'w shared \<Rightarrow> bool" where
  "waits_for i sh \<longleftrightarrow> i \<in> set (sh_sockets sh)"

text \<open>
  \<open>&nm.access_requests[request_id]\<close>; behind the last entry it is what an ended request left there, not
  modelled.
\<close>

definition request_at :: "message \<Rightarrow> 'w shared \<Rightarrow> access_request option" where
  "request_at msg sh =
     (let i = msg_sentence_index msg; reqs = nm_access_requests (sh_nm sh) in
      if 0 \<le> i \<and> i < int (length reqs) then Some (reqs ! nat i) else None)"

definition set_requests :: "(access_request list \<Rightarrow> access_request list) \<Rightarrow> 'w shared \<Rightarrow> 'w shared" where
  "set_requests g sh = sh\<lparr>sh_nm := (sh_nm sh)\<lparr>nm_access_requests := g (nm_access_requests (sh_nm sh))\<rparr>\<rparr>"

definition set_trie :: "string \<Rightarrow> file_metadata \<Rightarrow> 'w shared \<Rightarrow> 'w shared" where
  "set_trie f meta sh = sh\<lparr>sh_nm := (sh_nm sh)\<lparr>nm_file_trie := snd (trie_update f meta (nm_file_trie (sh_nm sh)))\<rparr>\<rparr>"

definition set_cache :: "string \<Rightarrow> file_metadata \<Rightarrow> 'w shared \<Rightarrow> 'w shared option" where
  "set_cache f meta sh =
     map_option (\<lambda>c. sh\<lparr>sh_nm := (sh_nm sh)\<lparr>nm_cache := c\<rparr>\<rparr>) (cache_put (nm_cache (sh_nm sh)) f meta)"

definition exchange :: "'w environment \<Rightarrow> nat \<Rightarrow> message \<Rightarrow> 'w shared \<Rightarrow> int \<times> message \<times> 'w shared" where
  "exchange env i req sh =
     (let (ret, resp, w1) = server_rpc env (sh_nm sh) i req (sh_world sh) in (ret, resp, sh\<lparr>sh_world := w1\<rparr>))"

definition found_server :: "purpose \<Rightarrow> message \<Rightarrow> int \<Rightarrow> nm_task" where
  "found_server p msg ss_id = (case p of For_info meta \<Rightarrow> Info_index msg meta ss_id | For_exec \<Rightarrow> Exec_index msg ss_id)"

definition info_reply :: "'w environment \<Rightarrow> file_metadata \<Rightarrow> message" where
  "info_reply env meta = (reply SUCCESS)\<lparr>msg_type := type_code MSG_DATA, msg_data := reply_data (info_text env meta)\<rparr>"

definition data_reply :: "string \<Rightarrow> message" where
  "data_reply buffer = (reply SUCCESS)\<lparr>msg_type := type_code MSG_DATA, msg_data := reply_data buffer\<rparr>"

section \<open>Steps\<close>

text \<open>
  One operation, or what a thread does under one mutex. A thread that waits for a mutex stays where it is.
\<close>

fun task_step :: "'w environment \<Rightarrow> time \<Rightarrow> nm_task \<Rightarrow> 'w shared \<Rightarrow> (nm_task \<times> 'w shared) option" where
  "task_step env now (Handler t) sh =
     (if \<exists>i \<in> set_option (socket_of t). waits_for i sh then Some (Handler t, sh)
      else map_option (\<lambda>(t', nm, w). (Handler t', sh\<lparr>sh_nm := nm, sh_world := w\<rparr>))
             (nm_thread_step env now t (sh_nm sh, sh_world sh)))"
| "task_step env now (Ask_search msg) sh =
     Some (if trie_search (nm_file_trie (sh_nm sh)) (msg_filename msg) = None then Done msg (reply ERR_FILE_NOT_FOUND)
           else Ask_access msg, sh)"
| "task_step env now (Ask_access msg) sh =
     Some (if check_access (msg_filename msg) (msg_sender msg) (msg_access msg) (sh_nm sh)
           then Done msg ((reply SUCCESS)\<lparr>msg_data := ''You already have this access''\<rparr>) else Ask_queue msg, sh)"
| "task_step env now (Ask_queue msg) sh =
     (if sh_queue sh then Some (Ask_queue msg, sh)
      else
        let f = msg_filename msg; u = msg_sender msg; reqs = nm_access_requests (sh_nm sh) in
        if list_ex (\<lambda>r. ar_username r = u \<and> ar_filename r = f \<and> ar_requested_access r = msg_access msg) reqs
        then Some (Done msg ((reply SUCCESS)\<lparr>msg_data := ''Request already pending''\<rparr>), sh)
        else if length reqs < MAX_FILES * 10 then
          Some (Done msg (reply SUCCESS), set_requests (\<lambda>reqs. reqs @
            [\<lparr>ar_username = u, ar_filename = f, ar_requested_access = msg_access msg, ar_request_time = now\<rparr>]) sh)
        else Some (Done msg ((reply ERR_SERVER_ERROR)\<lparr>msg_data := ''Request queue full''\<rparr>), sh))"
| "task_step env now (Requests_lock msg) sh =
     Some (if sh_queue sh then (Requests_lock msg, sh) else (Requests_entry msg 0 [] False, sh\<lparr>sh_queue := True\<rparr>))"
| "task_step env now (Requests_entry msg i buffer found) sh =
     (let reqs = nm_access_requests (sh_nm sh) in
      if i < length reqs then
        Some (if owned_by (ar_filename (reqs ! i)) (msg_sender msg) (sh_nm sh)
              then Requests_entry msg (Suc i) (buffer @ request_line env (i, reqs ! i)) True
              else Requests_entry msg (Suc i) buffer found, sh)
      else Some (Done msg (data_reply
             (if \<not> found then ''No pending access requests for your files.'' @ [CHR 0x0A] else buffer)),
             sh\<lparr>sh_queue := False\<rparr>))"
| "task_step env now (Approve_lock msg) sh =
     Some (if sh_queue sh then (Approve_lock msg, sh)
           else case request_at msg sh of
               None \<Rightarrow> (Done msg (reply ERR_INVALID_INDEX), sh)
             | Some req \<Rightarrow> (Approve_owner msg req, sh\<lparr>sh_queue := True\<rparr>))"
| "task_step env now (Approve_owner msg checked) sh = do {
     req \<leftarrow> request_at msg sh;
     Some (case trie_search (nm_file_trie (sh_nm sh)) (ar_filename req) of
             None \<Rightarrow> (Done msg (reply ERR_NOT_OWNER), sh\<lparr>sh_queue := False\<rparr>)
           | Some meta \<Rightarrow>
               if fm_owner meta \<noteq> msg_sender msg then (Done msg (reply ERR_NOT_OWNER), sh\<lparr>sh_queue := False\<rparr>)
               else (Approve_store msg checked
                       (meta\<lparr>fm_acl := grant (ar_username req) (ar_requested_access req) (fm_acl meta)\<rparr>), sh)) }"
| "task_step env now (Approve_store msg checked meta) sh = do {
     req \<leftarrow> request_at msg sh;
     Some (Approve_cache msg checked meta, set_trie (ar_filename req) meta sh) }"
| "task_step env now (Approve_cache msg checked meta) sh = do {
     req \<leftarrow> request_at msg sh;
     sh' \<leftarrow> set_cache (ar_filename req) meta sh;
     Some (Approve_remove msg checked, sh') }"
| "task_step env now (Approve_remove msg checked) sh =
     Some (Done msg (reply SUCCESS), (set_requests (remove_nth (nat (msg_sentence_index msg))) sh)\<lparr>sh_queue := False\<rparr>)"
| "task_step env now (Deny_lock msg) sh =
     Some (if sh_queue sh then (Deny_lock msg, sh)
           else case request_at msg sh of
               None \<Rightarrow> (Done msg (reply ERR_INVALID_INDEX), sh)
             | Some req \<Rightarrow> (Deny_owner msg req, sh\<lparr>sh_queue := True\<rparr>))"
| "task_step env now (Deny_owner msg checked) sh = do {
     req \<leftarrow> request_at msg sh;
     Some (if \<not> owned_by (ar_filename req) (msg_sender msg) (sh_nm sh)
           then (Done msg (reply ERR_NOT_OWNER), sh\<lparr>sh_queue := False\<rparr>) else (Deny_remove msg checked, sh)) }"
| "task_step env now (Deny_remove msg checked) sh =
     Some (Done msg (reply SUCCESS), (set_requests (remove_nth (nat (msg_sentence_index msg))) sh)\<lparr>sh_queue := False\<rparr>)"
| "task_step env now (Folder_exists msg) sh =
     Some (if \<not> is_root (msg_target_path msg) \<and> folder_trie_search (nm_folder_trie (sh_nm sh)) (msg_target_path msg) = None
           then Done msg (init_message\<lparr>msg_type := type_code MSG_DATA, msg_status := ERR_FILE_NOT_FOUND\<rparr>) else Folder_files msg, sh)"
| "task_step env now (Folder_files msg) sh =
     Some (Folder_entry msg (trie_get_all_files (nm_file_trie (sh_nm sh)) MAX_FILES) [], sh)"
| "task_step env now (Folder_entry msg [] buffer) sh =
     Some (Done msg (data_reply (if buffer = [] then ''(empty folder)'' @ [CHR 0x0A] else buffer)), sh)"
| "task_step env now (Folder_entry msg (m # ms) buffer) sh =
     (let matches = (if is_root (msg_target_path msg) then fm_folder_path m = [] else fm_folder_path m = msg_target_path msg) in
      Some (Folder_entry msg ms
        (if matches \<and> check_access (fm_filename m) (msg_sender msg) ACCESS_READ (sh_nm sh)
         then buffer @ fm_filename m @ [CHR 0x0A] else buffer), sh))"
| "task_step env now (View_files msg) sh =
     (let files = trie_get_all_files (nm_file_trie (sh_nm sh)) MAX_FILES in
      Some (if has_flag CHR ''l'' (msg_data msg) then View_index msg [] files else View_entry msg files [], sh))"
| "task_step env now (View_index msg seen []) sh = Some (View_entry msg seen view_header, sh)"
| "task_step env now (View_index msg seen (m # ms)) sh =
     Some (case active_server_index (fm_ss_id m) (sh_nm sh) of
             None \<Rightarrow> View_index msg (seen @ [m]) ms
           | Some i \<Rightarrow> View_ask msg seen m ms i, sh)"
| "task_step env now (View_ask msg seen m ms i) sh =
     (if waits_for i sh then Some (View_ask msg seen m ms i, sh)
      else
        let (ret, resp, sh1) = exchange env i (info_request (fm_filename m)) sh in
        Some (if ret = 0 \<and> msg_status resp = SUCCESS
              then (View_store msg seen (scan_info (msg_data resp) m) ms i, sh1\<lparr>sh_sockets := i # sh_sockets sh1\<rparr>)
              else (View_index msg (seen @ [m]) ms, sh1)))"
| "task_step env now (View_store msg seen m ms i) sh = Some (View_cache msg seen m ms i, set_trie (fm_filename m) m sh)"
| "task_step env now (View_cache msg seen m ms i) sh = do {
     sh' \<leftarrow> set_cache (fm_filename m) m sh;
     Some (View_index msg (seen @ [m]) ms, sh'\<lparr>sh_sockets := remove1 i (sh_sockets sh')\<rparr>) }"
| "task_step env now (View_entry msg [] buffer) sh = Some (Done msg (data_reply buffer), sh)"
| "task_step env now (View_entry msg (m # ms) buffer) sh =
     Some (View_entry msg ms
       (if has_flag CHR ''a'' (msg_data msg) \<or> check_access (fm_filename m) (msg_sender msg) ACCESS_READ (sh_nm sh)
        then buffer @ view_line env (has_flag CHR ''l'' (msg_data msg)) m else buffer), sh)"
| "task_step env now (Info_search msg) sh =
     Some (case trie_search (nm_file_trie (sh_nm sh)) (msg_filename msg) of
             None \<Rightarrow> Done msg (init_message\<lparr>msg_type := type_code MSG_DATA, msg_status := ERR_FILE_NOT_FOUND\<rparr>)
           | Some meta \<Rightarrow> Find_lookup (For_info meta) msg, sh)"
| "task_step env now (Exec_check msg) sh =
     Some (if \<not> check_access (msg_filename msg) (msg_sender msg) ACCESS_READ (sh_nm sh)
           then Done msg (reply ERR_ACCESS_DENIED) else Find_lookup For_exec msg, sh)"
| "task_step env now (Find_lookup p msg) sh = do {
     (cached, cache) \<leftarrow> cache_get (nm_cache (sh_nm sh)) (msg_filename msg);
     Some (case cached of Some meta \<Rightarrow> found_server p msg (fm_ss_id meta) | None \<Rightarrow> Find_search p msg,
           sh\<lparr>sh_nm := (sh_nm sh)\<lparr>nm_cache := cache\<rparr>\<rparr>) }"
| "task_step env now (Find_search p msg) sh =
     Some (case trie_search (nm_file_trie (sh_nm sh)) (msg_filename msg) of
             None \<Rightarrow> found_server p msg (-1)
           | Some meta \<Rightarrow> Find_fill p msg meta, sh)"
| "task_step env now (Find_fill p msg meta) sh =
     map_option (Pair (found_server p msg (fm_ss_id meta))) (set_cache (msg_filename msg) meta sh)"
| "task_step env now (Info_index msg meta ss_id) sh =
     Some (case (if ss_id \<ge> 0 then server_index ss_id (sh_nm sh) else None) of
             None \<Rightarrow> Done msg (info_reply env meta)
           | Some i \<Rightarrow> Info_ask msg meta i, sh)"
| "task_step env now (Info_ask msg meta i) sh =
     (if waits_for i sh then Some (Info_ask msg meta i, sh)
      else
        let (ret, resp, sh1) = exchange env i (info_request (msg_filename msg)) sh in
        Some (Done msg (info_reply env (if ret = 0 \<and> msg_status resp = SUCCESS then scan_info (msg_data resp) meta else meta)), sh1))"
| "task_step env now (Exec_index msg ss_id) sh =
     Some (if ss_id < 0 then Done msg (reply ERR_FILE_NOT_FOUND)
           else (case server_index ss_id (sh_nm sh) of
               None \<Rightarrow> Done msg (reply ERR_SS_UNAVAILABLE)
             | Some i \<Rightarrow> Exec_ask msg i), sh)"
| "task_step env now (Exec_ask msg i) sh =
     (if waits_for i sh then Some (Exec_ask msg i, sh)
      else
        let (_, resp, sh1) = exchange env i ((info_request (msg_filename msg))\<lparr>msg_data := ''READ_CONTENT''\<rparr>) sh in
        Some (if msg_status resp \<noteq> SUCCESS then Done msg (reply (msg_status resp)) else Exec_shell msg (msg_data resp), sh1))"
| "task_step env now (Exec_shell msg command) sh =
     (let (printed, w1) = env_shell env command (sh_world sh) in
      Some (case printed of
              None \<Rightarrow> Done msg (reply ERR_SERVER_ERROR)
            | Some out \<Rightarrow> Done msg ((reply SUCCESS)\<lparr>msg_data := reply_data (cstr (take (MAX_BUFFER - 1) out))\<rparr>),
            sh\<lparr>sh_world := w1\<rparr>))"
| "task_step env now (List_clients msg) sh =
     (let nl = [CHR 0x0A]; nm = sh_nm sh in
      Some (List_registered msg (list_users ('' (online)'' @ nl)
              (map ci_username (take (nm_client_count nm) (nm_client_list nm))) (''=== Connected Users ==='' @ nl)), sh))"
| "task_step env now (List_registered msg online) sh =
     (let nl = [CHR 0x0A] in
      Some (Done msg (data_reply (list_users nl (map ru_username (nm_registered_users (sh_nm sh)))
              (online @ nl @ ''=== All Registered Users ==='' @ nl))), sh))"

section \<open>A request alone\<close>

text \<open>What a thread comes to when no other runs: enough steps give \<open>res\<close>.\<close>

definition returns :: "'w environment \<Rightarrow> time \<Rightarrow> nm_task \<Rightarrow> 'w shared \<Rightarrow> (nm_task \<times> 'w shared) option \<Rightarrow> bool" where
  "returns env now t sh res \<longleftrightarrow> (\<exists>n. solo (task_step env) now n t sh = res)"

lemma returns_solo: "solo (task_step env) now n t sh = res \<Longrightarrow> returns env now t sh res"
  by (auto simp: returns_def)

lemma returns_end: "returns env now t sh (Some (t, sh))"
  by (rule returns_solo [of _ _ 0]) simp

lemma returns_step:
  assumes "task_step env now t sh = Some (t', sh')" and "returns env now t' sh' res"
  shows "returns env now t sh res"
proof -
  obtain n where "solo (task_step env) now n t' sh' = res" using assms(2) by (auto simp: returns_def)
  with assms(1) show ?thesis by (intro returns_solo [of _ _ "Suc n"]) simp
qed

lemma returns_next:
  assumes "case task_step env now t sh of None \<Rightarrow> res = None | Some (t', sh') \<Rightarrow> returns env now t' sh' res"
  shows "returns env now t sh res"
  using assms returns_step [of env now t sh] returns_solo [of env now 1 t sh]
  by (cases "task_step env now t sh") auto

lemma unlocked_sel [simp]:
  "sh_queue (unlocked nm w) = False" "sh_sockets (unlocked nm w) = []" "sh_nm (unlocked nm w) = nm" "sh_world (unlocked nm w) = w"
  "\<not> waits_for i (unlocked nm w)" "(unlocked nm w)\<lparr>sh_nm := nm'\<rparr> = unlocked nm' w" "(unlocked nm w)\<lparr>sh_world := w'\<rparr> = unlocked nm w'"
  "(unlocked nm w)\<lparr>sh_queue := False\<rparr> = unlocked nm w"
  by (simp_all add: unlocked_def waits_for_def)

lemma handler_solo:
  "solo (task_step env) now n (Handler t) (unlocked nm w) =
     map_option (\<lambda>(t', nm', w'). (Handler t', unlocked nm' w')) (solo (nm_thread_step env) now n t (nm, w))"
proof (induction n arbitrary: t nm w)
  case (Suc n)
  show ?case
  proof (cases "nm_thread_step env now t (nm, w)")
    case (Some p)
    obtain t' nm' w' where "p = (t', nm', w')" by (cases p) auto
    with Some Suc show ?thesis by simp
  qed simp
qed simp

lemma done_solo [simp]: "solo (task_step env) now n (Done msg r) sh = Some (Done msg r, sh)"
  by (rule solo_stays) simp

lemma set_store:
  "set_cache f m (set_trie f m sh) = map_option (\<lambda>nm'. sh\<lparr>sh_nm := nm'\<rparr>) (store_metadata f m (sh_nm sh))"
  by (cases "cache_put (nm_cache (sh_nm sh)) f m") (simp_all add: set_cache_def set_trie_def store_metadata_def)

lemma ask_solo:
  "solo (task_step env) now 8 (Ask_search msg) (unlocked nm w) =
     (case handle_requestaccess now msg nm of (r, nm') \<Rightarrow> Some (Done msg r, unlocked nm' w))"
  by (simp add: solo_numeral handle_requestaccess_def Let_def set_requests_def del: MAX_FILES_def)

lemma approve_solo:
  "solo (task_step env) now 8 (Approve_lock msg) (unlocked nm w) =
     map_option (\<lambda>(r, nm'). (Done msg r, unlocked nm' w)) (handle_approverequest msg nm)"
  by (simp add: solo_numeral handle_approverequest_def Let_def request_at_def store_metadata_def set_cache_def set_trie_def
      set_requests_def unlocked_def map_bind bind_map_option comp_def split: option.split)

lemma deny_solo:
  "solo (task_step env) now 8 (Deny_lock msg) (unlocked nm w) =
     (case handle_denyrequest msg nm of (r, nm') \<Rightarrow> Some (Done msg r, unlocked nm' w))"
  by (simp add: solo_numeral handle_denyrequest_def Let_def request_at_def set_requests_def unlocked_def)

lemma list_solo: "solo (task_step env) now 8 (List_clients msg) (unlocked nm w) = Some (Done msg (handle_list nm), unlocked nm w)"
  by (simp add: solo_numeral handle_list_def list_text_def data_reply_def Let_def)

lemma set_cache_unlocked: "set_cache f m (unlocked nm w) = map_option (\<lambda>c. unlocked (nm\<lparr>nm_cache := c\<rparr>) w) (cache_put (nm_cache nm) f m)"
  by (simp add: set_cache_def)

lemma find_returns:
  assumes "\<And>id nm1. returns env now (found_server p msg id) (unlocked nm1 w) (g (id, nm1))"
  shows "returns env now (Find_lookup p msg) (unlocked nm w) (Option.bind (find_ss_for_file (msg_filename msg) nm) g)"
proof (cases "cache_get (nm_cache nm) (msg_filename msg)")
  case None
  then show ?thesis by (intro returns_next) (simp add: find_ss_for_file_def)
next
  case (Some q)
  obtain cached c where q: "cache_get (nm_cache nm) (msg_filename msg) = Some (cached, c)" using Some by (cases q) auto
  show ?thesis
  proof (cases cached)
    case Some
    with q assms show ?thesis by (intro returns_next) (simp add: find_ss_for_file_def)
  next
    case None
    have "returns env now (Find_search p msg) (unlocked (nm\<lparr>nm_cache := c\<rparr>) w) (Option.bind (find_ss_for_file (msg_filename msg) nm) g)"
    proof (cases "trie_search (nm_file_trie nm) (msg_filename msg)")
      case None
      with q \<open>cached = None\<close> assms show ?thesis by (intro returns_next) (simp add: find_ss_for_file_def)
    next
      case (Some m)
      have "returns env now (Find_fill p msg m) (unlocked (nm\<lparr>nm_cache := c\<rparr>) w) (Option.bind (find_ss_for_file (msg_filename msg) nm) g)"
        using q \<open>cached = None\<close> Some assms
        by (intro returns_next) (cases "cache_put c (msg_filename msg) m"; simp add: find_ss_for_file_def set_cache_unlocked)
      with Some show ?thesis by (intro returns_next) simp
    qed
    with None q show ?thesis by (intro returns_next) simp
  qed
qed

lemma exchange_unlocked:
  "exchange env i req (unlocked nm w) = (case server_rpc env nm i req w of (ret, resp, w1) \<Rightarrow> (ret, resp, unlocked nm w1))"
  by (simp add: exchange_def)

lemma exec_returns:
  "returns env now (Exec_check msg) (unlocked nm w)
     (map_option (\<lambda>(r, nm', w'). (Done msg r, unlocked nm' w')) (handle_exec env msg nm w))"
proof (cases "check_access (msg_filename msg) (msg_sender msg) ACCESS_READ nm")
  case True
  have "returns env now (Find_lookup For_exec msg) (unlocked nm w)
     (map_option (\<lambda>(r, nm', w'). (Done msg r, unlocked nm' w')) (handle_exec env msg nm w))"
    using True unfolding handle_exec_def
    by (simp add: map_bind)
      (rule find_returns, rule returns_solo [of _ _ 3],
        simp add: found_server_def solo_numeral exchange_unlocked split_beta Let_def split: option.split)
  with True show ?thesis by (intro returns_next) simp
qed (intro returns_next; simp add: handle_exec_def returns_end)

lemma info_returns:
  "returns env now (Info_search msg) (unlocked nm w)
     (map_option (\<lambda>(r, nm', w'). (Done msg r, unlocked nm' w')) (handle_info env msg nm w))"
proof (cases "trie_search (nm_file_trie nm) (msg_filename msg)")
  case (Some m)
  have "returns env now (Find_lookup (For_info m) msg) (unlocked nm w)
     (map_option (\<lambda>(r, nm', w'). (Done msg r, unlocked nm' w')) (handle_info env msg nm w))"
    using Some unfolding handle_info_def
    by (simp add: map_bind Let_def)
      (rule find_returns, rule returns_solo [of _ _ 2],
        simp add: found_server_def solo_numeral exchange_unlocked split_beta Let_def info_reply_def split: option.split)
  with Some show ?thesis by (intro returns_next) simp
qed (intro returns_next; simp add: handle_info_def reply_def returns_end)

text \<open>The loops over the files and over the queue.\<close>

lemma folder_entries:
  assumes "P = (\<lambda>f. (if is_root (msg_target_path msg) then fm_folder_path f = [] else fm_folder_path f = msg_target_path msg)
      \<and> check_access (fm_filename f) (msg_sender msg) ACCESS_READ nm)"
  shows "returns env now (Folder_entry msg ms buffer) (unlocked nm w)
     (Some (Done msg (data_reply (let b = buffer @ concat (map (\<lambda>f. fm_filename f @ [CHR 0x0A]) (filter P ms))
       in if b = [] then ''(empty folder)'' @ [CHR 0x0A] else b)), unlocked nm w))"
proof (induction ms arbitrary: buffer)
  case Nil
  show ?case by (intro returns_next) (simp add: returns_end)
next
  case (Cons m ms)
  have "task_step env now (Folder_entry msg (m # ms) buffer) (unlocked nm w) =
      Some (Folder_entry msg ms (if P m then buffer @ fm_filename m @ [CHR 0x0A] else buffer), unlocked nm w)"
    by (simp add: assms Let_def)
  with Cons [of "if P m then buffer @ fm_filename m @ [CHR 0x0A] else buffer"] show ?case
    by (intro returns_next) (cases "P m"; simp)
qed

lemma folder_returns: "returns env now (Folder_exists msg) (unlocked nm w) (Some (Done msg (handle_viewfolder msg nm), unlocked nm w))"
proof (cases "\<not> is_root (msg_target_path msg) \<and> folder_trie_search (nm_folder_trie nm) (msg_target_path msg) = None")
  case True
  then show ?thesis by (intro returns_next) (simp add: handle_viewfolder_def Let_def reply_def returns_end)
next
  case False
  let ?P = "\<lambda>f. (if is_root (msg_target_path msg) then fm_folder_path f = [] else fm_folder_path f = msg_target_path msg)
      \<and> check_access (fm_filename f) (msg_sender msg) ACCESS_READ nm"
  have eq: "handle_viewfolder msg nm = data_reply (let b = [] @ concat (map (\<lambda>f. fm_filename f @ [CHR 0x0A])
       (filter ?P (trie_get_all_files (nm_file_trie nm) MAX_FILES)))
     in if b = [] then ''(empty folder)'' @ [CHR 0x0A] else b)"
    unfolding handle_viewfolder_def Let_def if_not_P [OF False] data_reply_def by (simp cong: if_cong split del: if_split)
  have "returns env now (Folder_files msg) (unlocked nm w) (Some (Done msg (handle_viewfolder msg nm), unlocked nm w))"
    unfolding eq by (rule returns_step [OF _ folder_entries [OF refl]]) simp
  with False show ?thesis by (intro returns_next) auto
qed

lemma view_entries:
  assumes "P = (\<lambda>m. has_flag CHR ''a'' (msg_data msg) \<or> check_access (fm_filename m) (msg_sender msg) ACCESS_READ nm)"
  shows "returns env now (View_entry msg ms buffer) (unlocked nm w)
     (Some (Done msg (data_reply (buffer @ concat (map (view_line env (has_flag CHR ''l'' (msg_data msg))) (filter P ms)))),
       unlocked nm w))"
proof (induction ms arbitrary: buffer)
  case Nil
  show ?case by (intro returns_next) (simp add: returns_end)
next
  case (Cons m ms)
  let ?l = "view_line env (has_flag CHR ''l'' (msg_data msg)) m"
  have "task_step env now (View_entry msg (m # ms) buffer) (unlocked nm w) =
      Some (View_entry msg ms (if P m then buffer @ ?l else buffer), unlocked nm w)"
    by (simp add: assms)
  with Cons [of "if P m then buffer @ ?l else buffer"] show ?case by (intro returns_next) (cases "P m"; simp)
qed

lemma socket_back: "(unlocked nm w)\<lparr>sh_sockets := [i], sh_nm := nm', sh_sockets := []\<rparr> = unlocked nm' w"
  by (simp add: unlocked_def)

lemma view_refresh:
  assumes "\<And>files nm1 w1. returns env now (View_entry msg (seen @ files) view_header) (unlocked nm1 w1) (g (files, nm1, w1))"
  shows "returns env now (View_index msg seen ms) (unlocked nm w) (Option.bind (refresh_files env ms nm w) g)"
  using assms
proof (induction ms arbitrary: seen nm w g)
  case Nil
  show ?case by (rule returns_next) (use Nil [of "[]"] in simp)
next
  case (Cons m ms)
  have ih: "returns env now (View_index msg (seen @ [m1]) ms) (unlocked nm1 w1)
      (Option.bind (refresh_files env ms nm1 w1) (\<lambda>(ms1, nm2, w2). g (m1 # ms1, nm2, w2)))" for m1 nm1 w1
    by (rule Cons.IH) (use Cons.prems [of "m1 # _"] in simp)
  show ?case
  proof (cases "active_server_index (fm_ss_id m) nm")
    case None
    with ih show ?thesis by (intro returns_next) (simp add: case_prod_unfold)
  next
    case (Some i)
    obtain ret resp w1 where r: "server_rpc env nm i (info_request (fm_filename m)) w = (ret, resp, w1)" by (cases "server_rpc env nm i (info_request (fm_filename m)) w") auto
    let ?m = "scan_info (msg_data resp) m"
    let ?res = "Option.bind (refresh_files env (m # ms) nm w) g"
    have "returns env now (View_ask msg seen m ms i) (unlocked nm w) ?res"
    proof (cases "ret = 0 \<and> msg_status resp = SUCCESS")
      case True
      let ?sh = "(unlocked nm w1)\<lparr>sh_sockets := [i]\<rparr>"
      have "returns env now (View_cache msg seen ?m ms i) (set_trie (fm_filename ?m) ?m ?sh) ?res"
      proof (cases "store_metadata (fm_filename m) ?m nm")
        case None
        with True r Some show ?thesis by (intro returns_next) (simp add: set_store)
      next
        case (Some nm1)
        with True r \<open>active_server_index (fm_ss_id m) nm = Some i\<close> ih [of ?m nm1 w1] show ?thesis
          by (intro returns_next) (simp add: set_store case_prod_unfold socket_back)
      qed
      then have "returns env now (View_store msg seen ?m ms i) ?sh ?res" by (intro returns_next) simp
      with True r show ?thesis by (intro returns_next) (simp add: exchange_unlocked)
    next
      case False
      with r Some ih [of m nm w1] show ?thesis by (intro returns_next) (auto simp: exchange_unlocked case_prod_unfold)
    qed
    with Some show ?thesis by (intro returns_next) simp
  qed
qed

lemma view_returns:
  "returns env now (View_files msg) (unlocked nm w)
     (map_option (\<lambda>(r, nm', w'). (Done msg r, unlocked nm' w')) (handle_view env msg nm w))"
proof (cases "has_flag CHR ''l'' (msg_data msg)")
  case True
  have "returns env now (View_index msg [] (trie_get_all_files (nm_file_trie nm) MAX_FILES)) (unlocked nm w)
     (map_option (\<lambda>(r, nm', w'). (Done msg r, unlocked nm' w')) (handle_view env msg nm w))"
    unfolding handle_view_def using True
    by (simp add: map_bind Let_def del: MAX_FILES_def)
      (rule view_refresh, use view_entries [OF refl, where msg = msg and buffer = view_header] True in \<open>simp add: data_reply_def\<close>)
  with True show ?thesis by (intro returns_next) simp
next
  case False
  then show ?thesis
    using view_entries [OF refl, of env now msg "trie_get_all_files (nm_file_trie nm) MAX_FILES" "[]" nm w]
    by (intro returns_next) (simp add: handle_view_def Let_def data_reply_def)
qed

lemma requests_entries:
  assumes "ms = drop i (nm_access_requests nm)"
  shows "returns env now (Requests_entry msg i buffer found) ((unlocked nm w)\<lparr>sh_queue := True\<rparr>)
     (let mine = filter (\<lambda>(i, r). owned_by (ar_filename r) (msg_sender msg) nm) (enumerate i ms) in
      Some (Done msg (data_reply (if \<not> found \<and> mine = [] then ''No pending access requests for your files.'' @ [CHR 0x0A]
              else buffer @ concat (map (request_line env) mine))), unlocked nm w))"
  using assms
proof (induction ms arbitrary: i buffer found)
  case Nil
  then show ?case by (intro returns_next) (simp add: returns_end unlocked_def)
next
  case (Cons r rs)
  let ?reqs = "nm_access_requests nm"
  have r: "i < length ?reqs" "?reqs ! i = r" "rs = drop (Suc i) ?reqs"
    using Cons.prems by (metis drop_all leI list.distinct(1), metis hd_drop_conv_nth drop_all leI list.distinct(1) list.sel(1), metis drop_Suc list.sel(3) tl_drop)
  have step: "task_step env now (Requests_entry msg i buffer found) ((unlocked nm w)\<lparr>sh_queue := True\<rparr>) =
      Some (if owned_by (ar_filename r) (msg_sender msg) nm then Requests_entry msg (Suc i) (buffer @ request_line env (i, r)) True
            else Requests_entry msg (Suc i) buffer found, (unlocked nm w)\<lparr>sh_queue := True\<rparr>)"
    using r(1,2) by (simp add: Let_def)
  show ?case
    by (rule returns_step [OF step], cases "owned_by (ar_filename r) (msg_sender msg) nm")
      (use Cons.IH [OF r(3), of "buffer @ request_line env (i, r)" True] Cons.IH [OF r(3), of buffer found]
        in \<open>simp_all add: Let_def split del: if_split\<close>)
qed

lemma requests_returns:
  "returns env now (Requests_lock msg) (unlocked nm w) (Some (Done msg (handle_viewrequests env msg nm), unlocked nm w))"
  by (rule returns_next)
    (use requests_entries [of "nm_access_requests nm" 0 nm env now msg "[]" False w]
      in \<open>simp add: handle_viewrequests_def data_reply_def Let_def split del: if_split cong: if_cong\<close>)

lemma task_returns:
  "returns env now (start_task response msg) (unlocked nm w)
     (map_option (\<lambda>(r, _, nm', w'). (Done msg r, unlocked nm' w')) (dispatch env now response msg nm w))"
proof (cases "start_thread response msg")
  case (Some t)
  then show ?thesis
    by (intro returns_solo [of _ _ 8])
      (simp add: start_task_def handler_solo thread_is_handler [OF Some] option.map_comp comp_def case_prod_unfold)
next
  case None
  note solos = ask_solo approve_solo deny_solo list_solo
  note returns = exec_returns info_returns folder_returns view_returns requests_returns solos [THEN returns_solo]
  show ?thesis
  proof (cases "type_of_code (msg_type msg)")
    case None
    then show ?thesis by (simp add: start_task_def start_thread_def dispatch_def Let_def returns_end)
  next
    case (Some ty)
    with None show ?thesis
      by (cases ty) (use returns [of env now msg nm w] in
        \<open>simp_all add: start_task_def start_thread_def dispatch_def Let_def returns_end option.map_comp comp_def case_prod_unfold\<close>)
  qed
qed

text \<open>
  C20. The steps of any request of a client, run without interruption, are its handler: after enough of
  them the thread has the reply of the dispatch loop, the state is the one the loop leaves, and no mutex
  is held; they do not come to an end exactly when the handler does not.
\<close>

theorem task_alone:
  "\<exists>n. run_pool (task_step env) (replicate n (0, now)) ([start_task response msg], unlocked nm w) =
     map_option (\<lambda>(r, _, nm', w'). ([Done msg r], unlocked nm' w')) (dispatch env now response msg nm w)"
proof -
  from task_returns [of env now response msg nm w] obtain n where "solo (task_step env) now n (start_task response msg) (unlocked nm w) =
      map_option (\<lambda>(r, _, nm', w'). (Done msg r, unlocked nm' w')) (dispatch env now response msg nm w)"
    unfolding returns_def by blast
  then show ?thesis by (intro exI [of _ n]) (simp add: run_solo option.map_comp comp_def case_prod_unfold)
qed

section \<open>The queue of access requests\<close>

text \<open>A thread that holds \<open>request_mutex\<close>, and the entry it has checked.\<close>

fun in_queue :: "nm_task \<Rightarrow> bool" where
  "in_queue (Requests_entry _ _ _ _) = True"
| "in_queue (Approve_owner _ _) = True"
| "in_queue (Approve_store _ _ _) = True"
| "in_queue (Approve_cache _ _ _) = True"
| "in_queue (Approve_remove _ _) = True"
| "in_queue (Deny_owner _ _) = True"
| "in_queue (Deny_remove _ _) = True"
| "in_queue _ = False"

fun decides :: "nm_task \<Rightarrow> (message \<times> access_request) option" where
  "decides (Approve_owner msg req) = Some (msg, req)"
| "decides (Approve_store msg req _) = Some (msg, req)"
| "decides (Approve_cache msg req _) = Some (msg, req)"
| "decides (Approve_remove msg req) = Some (msg, req)"
| "decides (Deny_owner msg req) = Some (msg, req)"
| "decides (Deny_remove msg req) = Some (msg, req)"
| "decides _ = None"

abbreviation queue :: "'w shared \<Rightarrow> access_request list" where
  "queue sh \<equiv> nm_access_requests (sh_nm sh)"

definition request_key :: "access_request \<Rightarrow> string \<times> string \<times> int" where
  "request_key r = (ar_username r, ar_filename r, ar_requested_access r)"

definition queue_valid :: "access_request list \<Rightarrow> bool" where
  "queue_valid reqs \<longleftrightarrow> distinct (map request_key reqs) \<and> length reqs \<le> MAX_FILES * 10"

lemma queue_valid_remove: "queue_valid reqs \<Longrightarrow> queue_valid (remove_nth k reqs)"
  using set_take_disj_set_drop_if_distinct [of "map request_key reqs" k "Suc k"]
    distinct_take [of "map request_key reqs" k] distinct_drop [of "map request_key reqs" "Suc k"]
  by (auto simp: queue_valid_def remove_nth_def take_map drop_map simp del: MAX_FILES_def)

lemma handler_keeps_queue:
  "nm_thread_step env now t (nm, w) = Some (t', nm', w') \<Longrightarrow> nm_access_requests nm' = nm_access_requests nm"
  by (cases t) (auto simp: bind_eq_Some_conv Let_def split_beta get_next_ss_round_robin_def split: if_splits option.splits)

lemma set_cache_frame:
  "set_cache f m sh = Some sh' \<Longrightarrow> queue sh' = queue sh \<and> sh_queue sh' = sh_queue sh"
  by (auto simp: set_cache_def)

lemma found_outside [simp]: "\<not> in_queue (found_server p msg k)"
  by (simp add: found_server_def split: purpose.split)

lemma outside_step:
  assumes "task_step env now t sh = Some (t', sh')" and "\<not> in_queue t"
  shows "in_queue t' \<and> \<not> sh_queue sh \<and> sh_queue sh' \<and> queue sh' = queue sh
        \<and> (\<forall>msg req. decides t' = Some (msg, req) \<longrightarrow> request_at msg sh' = Some req)
    \<or> \<not> in_queue t' \<and> sh_queue sh' = sh_queue sh
        \<and> (queue sh' = queue sh \<or> \<not> sh_queue sh \<and> (\<exists>r. queue sh' = queue sh @ [r] \<and> request_key r \<notin> request_key ` set (queue sh)
              \<and> length (queue sh) < MAX_FILES * 10))"
proof (cases t)
  case (Handler h)
  with assms(1) show ?thesis by (auto dest: handler_keeps_queue split: if_splits)
next
  case (Ask_queue msg)
  with assms(1) show ?thesis
    by (auto simp: Let_def set_requests_def request_key_def list_ex_iff simp del: MAX_FILES_def split: if_splits) blast+
next
  case (Folder_entry msg ms buffer)
  with assms show ?thesis by (cases ms) (auto simp: Let_def)
next
  case (View_entry msg ms buffer)
  with assms show ?thesis by (cases ms) auto
next
  case (View_index msg seen ms)
  with assms show ?thesis by (cases ms) (auto split: option.splits)
next
  case (Approve_lock msg)
  with assms show ?thesis by (auto simp: request_at_def split: if_splits option.splits)
next
  case (Deny_lock msg)
  with assms show ?thesis by (auto simp: request_at_def split: if_splits option.splits)
qed (use assms in \<open>auto simp: bind_eq_Some_conv Let_def set_trie_def exchange_def split_beta
    dest: set_cache_frame split: if_splits option.splits\<close>)

lemma inside_step:
  assumes "task_step env now t sh = Some (t', sh')" and "in_queue t"
  shows "in_queue t' \<and> sh_queue sh' = sh_queue sh \<and> queue sh' = queue sh \<and> decides t' = decides t
    \<or> \<not> in_queue t' \<and> \<not> sh_queue sh' \<and> (queue sh' = queue sh \<or> (\<exists>k. queue sh' = remove_nth k (queue sh)))"
  using assms
  by (cases t) (auto simp: bind_eq_Some_conv Let_def set_requests_def set_trie_def dest: set_cache_frame split: if_splits option.splits)

definition queue_ok :: "nm_task list \<Rightarrow> 'w shared \<Rightarrow> bool" where
  "queue_ok ts sh \<longleftrightarrow>
     (sh_queue sh \<longleftrightarrow> (\<exists>i < length ts. in_queue (ts ! i)))
     \<and> (\<forall>i < length ts. \<forall>j < length ts. in_queue (ts ! i) \<and> in_queue (ts ! j) \<longrightarrow> i = j)
     \<and> (\<forall>i < length ts. \<forall>msg req. decides (ts ! i) = Some (msg, req) \<longrightarrow> request_at msg sh = Some req)
     \<and> queue_valid (queue sh)"

lemma decides_in_queue: "decides t = Some p \<Longrightarrow> in_queue t"
  by (cases t) simp_all

lemma request_at_cong: "queue sh' = queue sh \<Longrightarrow> request_at msg sh' = request_at msg sh"
  by (simp add: request_at_def)

lemma queue_ok_step:
  assumes ok: "queue_ok ts sh" and i: "i < length ts" and st: "task_step env now (ts ! i) sh = Some (t', sh')"
  shows "queue_ok (ts[i := t']) sh'"
proof (cases "in_queue (ts ! i)")
  case True
  have alone: "\<not> in_queue (ts ! j)" "decides (ts ! j) = None" if "j < length ts" "j \<noteq> i" for j
    using ok i True that decides_in_queue unfolding queue_ok_def by (blast, metis option.exhaust)
  have locked: "sh_queue sh" and own: "decides (ts ! i) = Some (msg, req) \<Longrightarrow> request_at msg sh = Some req" for msg req
    using ok i True unfolding queue_ok_def by blast+
  have "queue_valid (queue sh)" using ok by (simp add: queue_ok_def)
  with inside_step [OF st True] queue_valid_remove have valid: "queue_valid (queue sh')" by metis
  from inside_step [OF st True] show ?thesis
  proof
    assume "in_queue t' \<and> sh_queue sh' = sh_queue sh \<and> queue sh' = queue sh \<and> decides t' = decides (ts ! i)"
    with alone locked own valid i request_at_cong [of sh' sh] show ?thesis
      by (auto simp: queue_ok_def nth_list_update)
  next
    assume "\<not> in_queue t' \<and> \<not> sh_queue sh' \<and> (queue sh' = queue sh \<or> (\<exists>k. queue sh' = remove_nth k (queue sh)))"
    with alone decides_in_queue [of t'] valid i show ?thesis
      by (auto simp: queue_ok_def nth_list_update)
  qed
next
  case False
  have none: "decides (ts ! j) = None" if "j < length ts" "\<not> sh_queue sh" for j
    using ok that decides_in_queue unfolding queue_ok_def by (metis option.exhaust)
  from outside_step [OF st False] show ?thesis
  proof
    assume "in_queue t' \<and> \<not> sh_queue sh \<and> sh_queue sh' \<and> queue sh' = queue sh
        \<and> (\<forall>msg req. decides t' = Some (msg, req) \<longrightarrow> request_at msg sh' = Some req)"
    with ok none i show ?thesis by (auto simp: queue_ok_def nth_list_update)
  next
    assume s: "\<not> in_queue t' \<and> sh_queue sh' = sh_queue sh
        \<and> (queue sh' = queue sh \<or> \<not> sh_queue sh \<and> (\<exists>r. queue sh' = queue sh @ [r] \<and> request_key r \<notin> request_key ` set (queue sh)
              \<and> length (queue sh) < MAX_FILES * 10))"
    then have "queue_valid (queue sh')" using ok by (auto simp: queue_ok_def queue_valid_def simp del: MAX_FILES_def)
    moreover have "request_at msg sh' = Some req" if "j < length ts" "decides (ts ! j) = Some (msg, req)" for j msg req
      using ok s that none request_at_cong [of sh' sh msg] unfolding queue_ok_def by fastforce
    moreover have "(\<exists>j < length ts. in_queue (ts[i := t'] ! j)) \<longleftrightarrow> (\<exists>j < length ts. in_queue (ts ! j))"
      using s i False by (metis nth_list_update_eq nth_list_update_neq)
    ultimately show ?thesis
      using ok s i False decides_in_queue [of t'] by (simp add: queue_ok_def) (auto simp: nth_list_update)
  qed
qed

interpretation request_queue: pool_invariant "task_step env" queue_ok for env
  by unfold_locales (rule queue_ok_step)

lemma start_outside [simp]: "\<not> in_queue (start_task response msg)"
  by (simp add: start_task_def split: option.split message_type.split)


definition asked_server :: name_server where
  "asked_server = (small_server [])\<lparr>nm_access_requests :=
     [\<lparr>ar_username = ''bob'', ar_filename = ''az'', ar_requested_access = ACCESS_READ, ar_request_time = 0\<rparr>]\<rparr>"


text \<open>
  C32. VIEW with \<open>-l\<close> can undo a revocation, whoever sends it. Its thread copies every entry of the index
  and stores a copy back when the file's storage server has answered. When the owner's REMACCESS runs in
  between, it answers \<open>SUCCESS\<close>, and the user it names may read the file afterwards. Shown for the first
  file of the index.
\<close>

theorem view_undoes_revocation:
  assumes "has_flag CHR ''l'' (msg_data vw)" and "msg_type rv = type_code MSG_REMACCESS" and "msg_filename rv = f"
    and "trie_get_all_files (nm_file_trie nm) MAX_FILES = m # ms" and "fm_filename m = f"
    and "trie_search (nm_file_trie nm) f = Some m" and "fm_owner m = msg_sender rv"
    and "acl_check (msg_target_user rv) ACCESS_READ (fm_acl m)"
    and "active_server_index (fm_ss_id m) nm = Some i"
    and "env_rpc env (si_sock (nm_ss_list nm ! i)) (info_request f) w = (0, resp, w1)" and "msg_status resp = SUCCESS"
    and "cache_rel (nm_cache nm) es" and "f \<in> fst ` set es" and "length f < MAX_FILENAME"
  shows "\<exists>sh. run_pool (task_step env) (replicate 2 (0, now) @ replicate 3 (1, now) @ replicate 3 (0, now))
       ([View_files vw, Handler (Access_search rv)], unlocked nm w)
     = Some ([View_index vw [scan_info (msg_data resp) m] ms, Done rv (reply SUCCESS)], sh)
     \<and> check_access f (msg_target_user rv) ACCESS_READ (sh_nm sh)"
proof -
  let ?m1 = "m\<lparr>fm_acl := revoke (msg_target_user rv) (fm_acl m)\<rparr>" and ?m2 = "scan_info (msg_data resp) m"
  obtain c1 where c1: "cache_put (nm_cache nm) f ?m1 = Some c1" "cache_rel c1 (lru_store f ?m1 es)"
    using put_lru [OF assms(12,14), of ?m1] assms(13) by auto
  obtain c2 where c2: "cache_put c1 f ?m2 = Some c2"
    using put_lru [OF c1(2) assms(14), of ?m2] keys_kept(2) [OF assms(13)] by auto
  let ?t1 = "snd (trie_update f ?m1 (nm_file_trie nm))"
  let ?nm1 = "nm\<lparr>nm_file_trie := ?t1, nm_cache := c1\<rparr>"
  let ?nm2 = "nm\<lparr>nm_file_trie := snd (trie_update f ?m2 ?t1), nm_cache := c2\<rparr>"
  have rpc: "server_rpc env ?nm1 i (info_request f) w = (0, resp, w1)" using assms(10) by (simp add: server_rpc_def)
  have "run_pool (task_step env) (replicate 2 (0, now) @ replicate 3 (1, now) @ replicate 3 (0, now))
       ([View_files vw, Handler (Access_search rv)], unlocked nm w)
     = run_pool (task_step env) (replicate 3 (1, now) @ replicate 3 (0, now))
       ([View_ask vw [] m ms i, Handler (Access_search rv)], unlocked nm w)"
    using assms(1,4,9) by (simp add: numeral_eq_Suc del: MAX_FILES_def)
  also have "\<dots> = run_pool (task_step env) (replicate 3 (0, now)) ([View_ask vw [] m ms i, Done rv (reply SUCCESS)], unlocked ?nm1 w)"
    using assms(2,3,6,7) c1(1) by (simp add: numeral_eq_Suc)
  also have "\<dots> = Some ([View_index vw [?m2] ms, Done rv (reply SUCCESS)], unlocked ?nm2 w1)"
    using assms(5,11) rpc c2 by (simp add: numeral_eq_Suc exchange_def waits_for_def set_trie_def set_cache_def unlocked_def)
  finally have "run_pool (task_step env) (replicate 2 (0, now) @ replicate 3 (1, now) @ replicate 3 (0, now))
       ([View_files vw, Handler (Access_search rv)], unlocked nm w)
     = Some ([View_index vw [?m2] ms, Done rv (reply SUCCESS)], unlocked ?nm2 w1)" .
  moreover have "check_access f (msg_target_user rv) ACCESS_READ ?nm2"
    using assms(6,8) by (simp add: check_access_rights rights_def search_update)
  ultimately show ?thesis by (intro exI [of _ "unlocked ?nm2 w1"]) simp
qed

theorem view_undoes_revocation_witness:
  "\<exists>nm m sh. run_pool (task_step quiet_world)
        (replicate 2 (0, 5) @ replicate 3 (1, 5) @ replicate 3 (0, 5))
       ([View_files ((user_request MSG_VIEW ''cy'' [])\<lparr>msg_data := ''-l''\<rparr>),
         Handler (Access_search ((user_request MSG_REMACCESS ''ann'' ''az'')\<lparr>msg_target_user := ''bob''\<rparr>))], unlocked nm ())
     = Some ([View_index ((user_request MSG_VIEW ''cy'' [])\<lparr>msg_data := ''-l''\<rparr>) [m] [],
         Done ((user_request MSG_REMACCESS ''ann'' ''az'')\<lparr>msg_target_user := ''bob''\<rparr>) (reply SUCCESS)], sh)
     \<and> check_access ''az'' ''bob'' ACCESS_READ (sh_nm sh)"
proof -
  let ?acl = "[\<lparr>acl_username = ''bob'', acl_access = ACCESS_READ\<rparr>]"
  let ?m = "blank_metadata\<lparr>fm_filename := ''az'', fm_owner := ''ann'', fm_acl := ?acl\<rparr>"
  let ?vw = "(user_request MSG_VIEW ''cy'' [])\<lparr>msg_data := ''-l''\<rparr>" and ?rv = "(user_request MSG_REMACCESS ''ann'' ''az'')\<lparr>msg_target_user := ''bob''\<rparr>"
  let ?s = "\<lparr>si_id = 0, si_ip = [], si_nm_port = 0, si_client_port = 0, si_sock = 4,
     si_hb_sock = -1, si_active = True, si_last_heartbeat = 0, si_files = []\<rparr>"
  obtain c where c: "cache_rel c [(''az'', ?m)]" using singleton_cache [of CACHE_SIZE ?m] by auto
  let ?nm = "(small_server ?acl)\<lparr>nm_cache := c, nm_ss_list := [?s]\<rparr>"
  have flag: "has_flag CHR ''l'' (msg_data ?vw)" by (simp, code_simp)
  have kinds: "msg_type ?rv = type_code MSG_REMACCESS" "msg_filename ?rv = ''az''" by (simp_all add: user_request_def)
  have "trie_search (nm_file_trie ?nm) k = (if k = ''az'' then Some ?m else None)" for k
    by (simp add: small_server_def init_trie_def search_insert byte_index_def)
  then obtain es where es: "trie_get_all_files (nm_file_trie ?nm) MAX_FILES = map snd (take MAX_FILES es)" "sorted_wrt (<) (map fst es)"
    "\<And>k m'. (k, m') \<in> set es \<longleftrightarrow> (if k = ''az'' then Some ?m else None) = Some m'"
    using get_all_files_sorted [of "nm_file_trie ?nm" MAX_FILES] by auto
  have "es = [(''az'', ?m)]"
  proof (cases es)
    case Nil
    with es(3) [of "''az''" ?m] show ?thesis by simp
  next
    case (Cons p ps)
    have az: "q = (''az'', ?m)" if "q \<in> set es" for q using es(3) [of "fst q" "snd q"] that by (cases q) (auto split: if_splits)
    have "ps = []"
    proof (cases ps)
      case (Cons q qs)
      have "p = q" using az [of p] az [of q] \<open>es = p # ps\<close> Cons by simp
      with es(2) \<open>es = p # ps\<close> Cons show ?thesis by simp
    qed
    with az [of p] Cons show ?thesis by simp
  qed
  with es(1) have files: "trie_get_all_files (nm_file_trie ?nm) MAX_FILES = [?m]" "fm_filename ?m = ''az''" by simp_all
  have entry: "trie_search (nm_file_trie ?nm) ''az'' = Some ?m" "fm_owner ?m = msg_sender ?rv"
    "acl_check (msg_target_user ?rv) ACCESS_READ (fm_acl ?m)"
    by (simp_all add: small_server_simps user_request_def acl_check_def acl_grants_def)
  have server: "active_server_index (fm_ss_id ?m) ?nm = Some 0"
    "env_rpc quiet_world (si_sock (nm_ss_list ?nm ! 0)) (info_request ''az'') () = (0, reply SUCCESS, ())" "msg_status (reply SUCCESS) = SUCCESS"
    by (simp_all add: active_server_index_def blank_metadata_def reply_def quiet_world_def)
  have cached: "cache_rel (nm_cache ?nm) [(''az'', ?m)]" "''az'' \<in> fst ` set [(''az'', ?m)]" "length ''az'' < MAX_FILENAME"
    using c by simp_all
  from view_undoes_revocation [OF flag kinds files entry server cached, of 5] show ?thesis
    by (simp add: user_request_simps) blast
qed

end
