(* ===== verification/Races.thy ===== *)
theory Races
  imports NameThreads Deployment
begin

text \<open>
  Threads of the name server on top of the storage servers: any number of CREATE requests at once.
  With one storage server its disk decides the race; with two, both creators are told \<open>SUCCESS\<close>.
\<close>

section \<open>Creates on one storage server\<close>

fun creating :: "nm_thread \<Rightarrow> bool" where
  "creating (Create_search _) = True"
| "creating (Create_place _) = True"
| "creating (Create_index _ _) = True"
| "creating (Create_forward _ _ _) = True"
| "creating (Create_insert _ _) = True"
| "creating (Create_cache _ _) = True"
| "creating (Finished _ _) = True"
| "creating _ = False"

text \<open>The storage server made the file for this thread; its entry is in the index.\<close>

fun winning :: "string \<Rightarrow> nm_thread \<Rightarrow> bool" where
  "winning f (Create_insert msg _) = (msg_filename msg = f)"
| "winning f (Create_cache msg _) = (msg_filename msg = f)"
| "winning f (Finished msg r) = (msg_filename msg = f \<and> msg_status r = SUCCESS)"
| "winning f _ = False"

fun entered :: "string \<Rightarrow> string \<Rightarrow> nm_thread \<Rightarrow> bool" where
  "entered f u (Create_cache msg _) = (msg_filename msg = f \<and> msg_sender msg = u)"
| "entered f u (Finished msg r) = (msg_filename msg = f \<and> msg_sender msg = u \<and> msg_status r = SUCCESS)"
| "entered f u _ = False"

fun_cases creatingE: "creating t"

abbreviation file_there :: "string \<Rightarrow> storage \<Rightarrow> bool" where
  "file_there f s \<equiv> content (ss_disk s) (file_path s f) \<noteq> None"

lemma create_file_frame:
  "ss_path (snd (create_file_ss now g s)) = ss_path s"
  "file_there f s \<Longrightarrow> file_there f (snd (create_file_ss now g s))"
  "fst (create_file_ss now g s) = SUCCESS \<Longrightarrow> \<not> file_there g s \<and> file_there g (snd (create_file_ss now g s))"
  by (auto simp: create_file_ss_def Let_def path_exists_def content_def put_file_def file_path_def split: if_splits)

lemma rights_insert:
  "rights (nm\<lparr>nm_file_trie := snd (trie_insert k m (nm_file_trie nm))\<rparr>) f =
     (if f = k \<and> ascii k then Some (fm_owner m, fm_acl m) else rights nm f)"
  by (simp add: rights_def search_insert)

lemma round_robin_rights: "get_next_ss_round_robin nm = (i, nm') \<Longrightarrow> rights nm' = rights nm"
  by (auto simp: get_next_ss_round_robin_def Let_def rights_def fun_eq_iff split: if_splits)

text \<open>
  What a step of a creating thread does to a name: it makes the file, enters it in the index as the
  thread's own, or leaves both alone.
\<close>

definition step_kind :: "string \<Rightarrow> nm_thread \<Rightarrow> name_server \<Rightarrow> storage \<Rightarrow> nm_thread \<Rightarrow> name_server \<Rightarrow> storage \<Rightarrow> bool" where
  "step_kind f t nm s t' nm' s' \<longleftrightarrow>
     creating t' \<and> ss_path s' = ss_path s \<and> (file_there f s \<longrightarrow> file_there f s') \<and>
     (winning f t' \<longrightarrow> winning f t \<or> \<not> file_there f s \<and> file_there f s') \<and>
     (\<forall>u. entered f u t' \<longrightarrow> entered f u t \<or> winning f t \<and> (ascii f \<longrightarrow> rights nm' f = Some (u, []))) \<and>
     (rights nm' f = rights nm f \<or> winning f t \<and> (\<forall>u. \<not> entered f u t))"

lemma forward_step:
  assumes "nm_thread_step (deployment readdir later shell show_time) now (Create_forward msg k i) (nm, s) = Some (t', nm', s')"
  shows "step_kind f (Create_forward msg k i) nm s t' nm' s'"
proof (cases "fst (create_file_ss later (msg_filename msg) s) = SUCCESS")
  case True
  with assms have "t' = Create_insert msg k" "nm' = nm" "s' = snd (create_file_ss later (msg_filename msg) s)"
    by (simp_all add: nm_request_create)
  with create_file_frame(1) create_file_frame(2) [of s f later "msg_filename msg"] create_file_frame(3) [OF True]
  show ?thesis by (auto simp: step_kind_def)
next
  case False
  with assms have "t' = Finished msg (reply (fst (create_file_ss later (msg_filename msg) s)))" "nm' = nm"
    "s' = snd (create_file_ss later (msg_filename msg) s)"
    by (simp_all add: nm_request_create)
  with False create_file_frame(1) create_file_frame(2) [of s f later "msg_filename msg"]
  show ?thesis by (simp add: step_kind_def reply_def)
qed

lemma create_step:
  assumes "nm_thread_step (deployment readdir later shell show_time) now t (nm, s) = Some (t', nm', s')" and "creating t"
  shows "step_kind f t nm s t' nm' s'"
proof (cases t)
  case (Create_forward msg k i)
  with assms(1) show ?thesis using forward_step by blast
next
  case (Create_insert msg k)
  with assms(1) have "t' = Create_cache msg (new_metadata now k msg)" "s' = s"
    "nm' = nm\<lparr>nm_file_trie := snd (trie_insert (msg_filename msg) (new_metadata now k msg) (nm_file_trie nm))\<rparr>"
    by (simp_all add: Let_def)
  with Create_insert show ?thesis by (auto simp: step_kind_def rights_insert new_metadata_def blank_metadata_def)
next
  case (Create_place msg)
  obtain k nm1 where "get_next_ss_round_robin nm = (k, nm1)" by force
  with Create_place assms(1) round_robin_rights [OF this] show ?thesis by (auto simp: step_kind_def reply_def split: if_splits)
next
  case (Create_cache msg m)
  with assms(1) obtain c where "t' = Finished msg (reply SUCCESS)" "s' = s" "nm' = nm\<lparr>nm_cache := c\<rparr>"
    by (auto simp: bind_eq_Some_conv)
  with Create_cache show ?thesis by (simp add: step_kind_def rights_def)
qed (use assms in \<open>auto simp: step_kind_def reply_def split: if_splits option.splits\<close>)

lemma count_update:
  "i < length xs \<Longrightarrow> length (filter P (xs[i := y])) + of_bool (P (xs ! i)) = length (filter P xs) + of_bool (P y)"
proof (induction xs arbitrary: i)
  case (Cons x xs)
  then show ?case by (cases i) auto
qed simp

lemma at_most_one:
  assumes "length (filter P xs) \<le> 1" and "i < length xs" and "j < length xs" and "P (xs ! i)" and "P (xs ! j)"
  shows "i = j"
proof (rule ccontr)
  assume "i \<noteq> j"
  then have "{i, j} \<subseteq> {k. k < length xs \<and> P (xs ! k)}" "card {i, j} = 2" using assms by auto
  moreover have "finite {k. k < length xs \<and> P (xs ! k)}" by simp
  ultimately have "2 \<le> length (filter P xs)" unfolding length_filter_conv_card by (metis card_mono)
  with assms(1) show False by simp
qed

text \<open>At most one thread has won a name, and only if the file is there; the index names the winner.\<close>

definition one_winner :: "string \<Rightarrow> nm_thread list \<Rightarrow> name_server \<Rightarrow> storage \<Rightarrow> bool" where
  "one_winner f ts nm s \<longleftrightarrow>
     (\<forall>t \<in> set ts. creating t) \<and> length (filter (winning f) ts) \<le> of_bool (file_there f s) \<and>
     (\<forall>t \<in> set ts. \<forall>u. entered f u t \<and> ascii f \<longrightarrow> rights nm f = Some (u, []))"

lemma entered_winning: "entered f u t \<Longrightarrow> winning f t"
  by (cases t) auto

lemma one_winner_step:
  assumes "one_winner f ts nm s" and "i < length ts" and "step_kind f (ts ! i) nm s t' nm' s'"
  shows "one_winner f (ts[i := t']) nm' s'"
proof -
  note k = assms(3) [unfolded step_kind_def]
  note w = assms(1) [unfolded one_winner_def]
  have le: "length (filter (winning f) ts) \<le> 1" using w by (auto simp: of_bool_def split: if_splits)
  have count: "length (filter (winning f) (ts[i := t'])) \<le> of_bool (file_there f s')"
    using count_update [OF assms(2), of "winning f" t'] k w by (auto simp: of_bool_def split: if_splits)
  have index: "rights nm' f = Some (u, [])" if "t \<in> set (ts[i := t'])" "entered f u t" "ascii f" for t u
  proof -
    from that(1) have "\<exists>j < length (ts[i := t']). ts[i := t'] ! j = t" by (simp only: in_set_conv_nth)
    then obtain j where j: "j < length ts" "t = ts[i := t'] ! j" by force
    show ?thesis
    proof (cases "j = i")
      case True
      with j have "t = t'" by simp
      with that k w assms(2) show ?thesis by (metis nth_mem)
    next
      case False
      with j have t: "t = ts ! j" by simp
      then have "\<not> winning f (ts ! i)"
        using at_most_one [OF le assms(2) j(1)] entered_winning [OF that(2)] False by blast
      with k w t j(1) that show ?thesis by (metis nth_mem)
    qed
  qed
  have "\<forall>t \<in> set (ts[i := t']). creating t"
    using w k by (auto dest!: set_update_subset_insert [THEN subsetD])
  with count index show ?thesis by (simp add: one_winner_def)
qed

interpretation race: pool_invariant "nm_thread_step (deployment readdir later shell show_time)" "\<lambda>ts (nm, s). one_winner f ts nm s"
  for readdir later shell show_time f
proof
  fix ts now i t and p p' :: "name_server \<times> storage"
  assume "case p of (nm, s) \<Rightarrow> one_winner f ts nm s" and i: "i < length ts"
    and st: "nm_thread_step (deployment readdir later shell show_time) now (ts ! i) p = Some (t, p')"
  then obtain nm s nm' s' where p: "p = (nm, s)" "p' = (nm', s')" and w: "one_winner f ts nm s" by (cases p; cases p') auto
  have "creating (ts ! i)" using w i by (simp add: one_winner_def)
  with one_winner_step [OF w i create_step [OF st [unfolded p]]] p show "case p' of (nm, s) \<Rightarrow> one_winner f (ts[i := t]) nm s"
    by simp
qed


lemma create_again:
  "create_file_ss now f s = (SUCCESS, s') \<Longrightarrow> create_file_ss later f s' = (ERR_FILE_EXISTS, s')"
  by (auto simp: create_file_ss_def Let_def path_exists_def put_file_def file_path_def split: if_splits)

lemma demo_create: "\<exists>s'. create_file_ss 5 ''az'' (demo_server []) = (SUCCESS, s')"
  by (simp add: create_file_ss_def Let_def demo_path path_exists_def can_write_def dirname_def) (simp add: demo_server_def)


section \<open>Creates on two storage servers\<close>

text \<open>Two storage servers; the first one is reached through the socket \<open>a\<close>.\<close>

definition two_servers :: "time \<Rightarrow> int \<Rightarrow> (storage \<times> storage) environment" where
  "two_servers now a =
     \<lparr>env_rpc = (\<lambda>sock msg (s1, s2).
        if sock = a then case nm_request (\<lambda>_ _. None) now msg s1 of (r, s1') \<Rightarrow> (0, r, (s1', s2))
        else case nm_request (\<lambda>_ _. None) now msg s2 of (r, s2') \<Rightarrow> (0, r, (s1, s2'))),
      env_shell = (\<lambda>_ w. (None, w)), env_strftime = (\<lambda>_. [])\<rparr>"

text \<open>
  Two storage servers do not decide it. Two users create the same name at once, and round robin
  sends them to different servers: both are told \<open>SUCCESS\<close>, both servers make the file, and the
  index names only the one whose thread wrote last. The other user has no access to the file he or
  she was told is created.
\<close>

lemma create_race_two_servers:
  assumes "nm_ss_list nm = [a, b]" and "si_id a \<noteq> si_id b" and "0 \<le> si_id a" and "0 \<le> si_id b"
    and "si_sock a \<noteq> si_sock b" and "even (nm_next_ss_id nm)"
    and "trie_search (nm_file_trie nm) f = None" and "ascii f" and "length f < MAX_FILENAME"
    and "cache_rel (nm_cache nm) es" and "length es < lc_capacity (nm_cache nm)"
    and "create_file_ss now f s1 = (SUCCESS, s1')" and "create_file_ss now f s2 = (SUCCESS, s2')"
    and "msg_filename m1 = f" and "msg_filename m2 = f" and "msg_sender m1 \<noteq> msg_sender m2"
  shows "\<exists>nm'. run_threads (two_servers now (si_sock a)) (concat (replicate 6 [(0, now), (1, now)]))
      ([Create_search m1, Create_search m2], nm, (s1, s2))
    = Some ([Finished m1 (reply SUCCESS), Finished m2 (reply SUCCESS)], nm', (s1', s2'))
    \<and> rights nm' f = Some (msg_sender m2, []) \<and> (\<forall>required. \<not> check_access f (msg_sender m1) required nm')"
proof -
  let ?d1 = "new_metadata now (si_id a) m1" and ?d2 = "new_metadata now (si_id b) m2"
  obtain c1 where c1: "cache_put (nm_cache nm) f ?d1 = Some c1" "cache_rel c1 (lru_store f ?d1 es)"
    using put_lru [OF assms(10,9), of ?d1] assms(11) by auto
  obtain c2 where c2: "cache_put c1 f ?d2 = Some c2"
    using put_lru [OF c1(2) assms(9), of ?d2] by (auto simp: lru_store_def)
  have odd: "Suc (nm_next_ss_id nm) mod 2 = 1" "nm_next_ss_id nm mod 2 = 0" using assms(6) by presburger+
  let ?t = "snd (trie_insert f ?d2 (snd (trie_insert f ?d1 (nm_file_trie nm))))"
  let ?nm' = "nm\<lparr>nm_next_ss_id := nm_next_ss_id nm + 2, nm_file_trie := ?t, nm_cache := c2\<rparr>"
  have "run_threads (two_servers now (si_sock a)) (concat (replicate 6 [(0, now), (1, now)]))
      ([Create_search m1, Create_search m2], nm, (s1, s2))
    = Some ([Finished m1 (reply SUCCESS), Finished m2 (reply SUCCESS)], ?nm', (s1', s2'))"
    using assms(1-5,7,12-15) c1(1) c2 odd
    by (simp add: numeral_eq_Suc get_next_ss_round_robin_def Let_def server_index_def server_rpc_def two_servers_def
        nm_request_create)
  moreover have "rights ?nm' f = Some (msg_sender m2, [])"
    using assms(8) by (simp add: rights_def search_insert new_metadata_def blank_metadata_def)
  moreover from this have "\<not> check_access f (msg_sender m1) required ?nm'" for required
    using assms(16) by (simp add: check_access_rights acl_check_def)
  ultimately show ?thesis by blast
qed


end
