(* ===== verification/SessionThreads.thy ===== *)
theory SessionThreads
  imports StorageServer ThreadPool
begin

text \<open>
  The threads of a storage server (\<open>ss.c\<close>). The requests that edit, LOCK, WRITE, UNLOCK and CANCEL, are cut
  at the places where they take and give back a lock, and UNDO between what it does to the disk; READ and
  STREAM look at the disk once, and a request of the name server is one step. \<open>get_write_session\<close> returns a pointer into the array
  \<open>write_sessions\<close> and gives the lock back; \<open>remove_write_session\<close> moves the sessions behind the
  removed one down. A pointer is an index here, so that it can come to mean another session.
\<close>

section \<open>Threads\<close>

datatype ss_thread =
    Lock_check message
  | Lock_take message
  | Lock_count message
  | Lock_session message int
  | Lock_fill message int nat
  | Lock_copy message nat
  | Write_find message
  | Write_parse message nat
  | Write_save message nat file_content
  | Commit_find message
  | Commit_enqueue message nat
  | Drop_session message
  | Commit_remove message
  | Commit_process message
  | Cancel_find message
  | Cancel_remove message
  | Release message int
  | Answered message int
  | Undo_check message
  | Undo_copy message
  | Undo_unlink message
  | Serve message
  | Nm_serve message
  | Replied message "message list"

definition start_request :: "message \<Rightarrow> ss_thread" where
  "start_request msg =
     (case type_of_code (msg_type msg) of
        Some MSG_LOCK_SENTENCE \<Rightarrow> Lock_check msg
      | Some MSG_WRITE \<Rightarrow> Write_find msg
      | Some MSG_UNLOCK_SENTENCE \<Rightarrow> Commit_find msg
      | Some MSG_CANCEL_WRITE \<Rightarrow> Cancel_find msg
      | Some MSG_UNDO \<Rightarrow> Undo_check msg
      | _ \<Rightarrow> Serve msg)"

abbreviation session_for :: "message \<Rightarrow> storage \<Rightarrow> nat option" where
  "session_for msg s \<equiv> find_session (msg_filename msg) (msg_sender msg) (msg_sentence_index msg) s"

text \<open>What a pointer reads; behind the last session it is what an ended session left there, not modelled.\<close>

definition session_at :: "nat \<Rightarrow> storage \<Rightarrow> write_session option" where
  "session_at k s = (if k < length (ss_sessions s) then Some (ss_sessions s ! k) else None)"

definition draft :: "storage \<Rightarrow> write_session \<Rightarrow> file_content" where
  "draft s w = (case parse_file (ss_disk s) (ws_temp_filepath w) of
      None \<Rightarrow> empty_sentence_content
    | Some fc \<Rightarrow> if sentence_count fc = 0 then empty_sentence_content else fc)"

fun ss_thread_step ::
    "(disk \<Rightarrow> string \<Rightarrow> string list option) \<Rightarrow> time \<Rightarrow> ss_thread \<Rightarrow> storage \<Rightarrow> (ss_thread \<times> storage) option" where
  "ss_thread_step readdir now (Lock_check msg) s =
     Some (if lock_index_valid s (msg_filename msg) (msg_sentence_index msg) then Lock_take msg
           else Answered msg ERR_INVALID_INDEX, s)"
| "ss_thread_step readdir now (Lock_take msg) s =
     (let (st, t) = lock_sentence_ss now (msg_filename msg) (msg_sentence_index msg) (msg_sender msg) (ss_locks s)
      in Some (if st = SUCCESS then Lock_count msg else Answered msg st, s\<lparr>ss_locks := t\<rparr>))"
| "ss_thread_step readdir now (Lock_count msg) s =
     Some (Lock_session msg (case parse_file (ss_disk s) (file_path s (msg_filename msg)) of
             Some fc \<Rightarrow> int (sentence_count fc) | None \<Rightarrow> 0), s)"
| "ss_thread_step readdir now (Lock_session msg count) s =
     Some (case get_write_session (msg_filename msg) (msg_sender msg) (msg_sentence_index msg) True s of
             None \<Rightarrow> (Release msg ERR_SERVER_ERROR, s)
           | Some (k, s1) \<Rightarrow> (Lock_fill msg count k, s1))"
| "ss_thread_step readdir now (Lock_fill msg count k) s = do {
     w \<leftarrow> session_at k s;
     Some (Lock_copy msg k,
           s\<lparr>ss_sessions := (ss_sessions s)[k := w\<lparr>ws_original_count := count, ws_lock_time := now\<rparr>]\<rparr>) }"
| "ss_thread_step readdir now (Lock_copy msg k) s = do {
     w \<leftarrow> session_at k s;
     let temp = ws_temp_filepath w;
     Some (case copy_file now (file_path s (msg_filename msg)) temp (ss_disk s) of
             No_source \<Rightarrow> if \<not> can_write (ss_disk s) temp then (Drop_session msg, s)
                          else (Answered msg SUCCESS, s\<lparr>ss_disk := put_file now temp [] (ss_disk s)\<rparr>)
           | No_target \<Rightarrow> (Drop_session msg, s)
           | Copied d \<Rightarrow> (Answered msg SUCCESS, s\<lparr>ss_disk := d\<rparr>)) }"
| "ss_thread_step readdir now (Write_find msg) s =
     Some (case session_for msg s of None \<Rightarrow> Answered msg ERR_INVALID_OPERATION | Some k \<Rightarrow> Write_parse msg k, s)"
| "ss_thread_step readdir now (Write_parse msg k) s = do {
     w \<leftarrow> session_at k s;
     let fc = draft s w;
     let i = msg_sentence_index msg;
     if i < 0 \<or> i > int (sentence_count fc) then Some (Answered msg ERR_INVALID_INDEX, s)
     else do {
       (new_sentences, fc') \<leftarrow> insert_word_in_sentence fc i (msg_word_index msg) (msg_data msg);
       Some (if new_sentences < 0 then Answered msg ERR_INVALID_INDEX else Write_save msg k fc', s) } }"
| "ss_thread_step readdir now (Write_save msg k fc) s = do {
     w \<leftarrow> session_at k s;
     let (ret, d) = write_file_content now (ws_temp_filepath w) fc (ss_disk s);
     Some (if ret \<noteq> 0 then (Answered msg ERR_SERVER_ERROR, s) else (Answered msg SUCCESS, s\<lparr>ss_disk := d\<rparr>)) }"
| "ss_thread_step readdir now (Commit_find msg) s =
     Some (case session_for msg s of None \<Rightarrow> Release msg SUCCESS | Some k \<Rightarrow> Commit_enqueue msg k, s)"
| "ss_thread_step readdir now (Commit_enqueue msg k) s = do {
     w \<leftarrow> session_at k s;
     let (result, qs) = enqueue_commit (msg_filename msg)
       \<lparr>ce_filename = msg_filename msg, ce_username = msg_sender msg, ce_sentence_idx = msg_sentence_index msg,
        ce_original_count = ws_original_count w, ce_temp_filepath = ws_temp_filepath w,
        ce_lock_time = ws_lock_time w\<rparr> (ss_queues s);
     Some (if result \<noteq> 0 then (Drop_session msg, s) else (Commit_remove msg, s\<lparr>ss_queues := qs\<rparr>)) }"
| "ss_thread_step readdir now (Drop_session msg) s =
     Some (Release msg ERR_SERVER_ERROR, remove_write_session (msg_filename msg) (msg_sender msg) (msg_sentence_index msg) s)"
| "ss_thread_step readdir now (Commit_remove msg) s =
     Some (Commit_process msg,
           case session_for msg s of None \<Rightarrow> s | Some k \<Rightarrow> s\<lparr>ss_sessions := remove_nth k (ss_sessions s)\<rparr>)"
| "ss_thread_step readdir now (Commit_process msg) s =
     Some (Release msg SUCCESS, snd (process_commit_queue now (msg_filename msg) s))"
| "ss_thread_step readdir now (Cancel_find msg) s =
     Some (case session_for msg s of None \<Rightarrow> Release msg SUCCESS | Some _ \<Rightarrow> Cancel_remove msg, s)"
| "ss_thread_step readdir now (Cancel_remove msg) s =
     Some (Release msg SUCCESS, remove_write_session (msg_filename msg) (msg_sender msg) (msg_sentence_index msg) s)"
| "ss_thread_step readdir now (Release msg st) s =
     (let (st2, t) = unlock_sentence_ss (msg_filename msg) (msg_sentence_index msg) (msg_sender msg) (ss_locks s)
      in Some (Answered msg (if st = SUCCESS then st2 else st), s\<lparr>ss_locks := t\<rparr>))"
| "ss_thread_step readdir now (Answered msg st) s = Some (Answered msg st, s)"
| "ss_thread_step readdir now (Undo_check msg) s =
     Some (if undo_backup_exists (file_path s (msg_filename msg)) (ss_disk s) then Undo_copy msg
           else Answered msg ERR_INVALID_OPERATION, s)"
| "ss_thread_step readdir now (Undo_copy msg) s =
     (let filepath = file_path s (msg_filename msg); d = ss_disk s in
      Some (if \<not> path_exists d (undo_path filepath) then (Answered msg (-1), s)
            else case copy_file now (undo_path filepath) filepath d of
                Copied d' \<Rightarrow> (Undo_unlink msg, s\<lparr>ss_disk := d'\<rparr>)
              | _ \<Rightarrow> (Answered msg (-1), s)))"
| "ss_thread_step readdir now (Undo_unlink msg) s =
     Some (Answered msg 200, s\<lparr>ss_disk := unlink_file (undo_path (file_path s (msg_filename msg))) (ss_disk s)\<rparr>)"
| "ss_thread_step readdir now (Serve msg) s =
     map_option (\<lambda>(out, s'). (Replied msg out, s')) (client_request now msg s)"
| "ss_thread_step readdir now (Nm_serve msg) s =
     (let (reply, s') = nm_request readdir now msg s in Some (Replied msg [reply], s'))"
| "ss_thread_step readdir now (Replied msg out) s = Some (Replied msg out, s)"

section \<open>A request alone\<close>

text \<open>What the client is sent.\<close>

fun answer :: "ss_thread \<Rightarrow> message list" where
  "answer (Answered msg st) = [ack\<lparr>msg_status := st\<rparr>]"
| "answer (Replied msg out) = out"
| "answer _ = []"

lemma solo_answered [simp]: "solo (ss_thread_step readdir) now n (Answered msg st) s = Some (Answered msg st, s)"
  by (rule solo_stays) simp

lemma solo_replied [simp]: "solo (ss_thread_step readdir) now n (Replied msg out) s = Some (Replied msg out, s)"
  by (rule solo_stays) simp

lemma session_found: "session_for msg s = Some k \<Longrightarrow> session_at k s = Some (ss_sessions s ! k)"
  by (simp add: session_at_def find_session_def find_index_bound)

lemma session_made:
  assumes "get_write_session f u i True s = Some (k, s1)"
  shows "\<exists>ws. s1 = s\<lparr>ss_sessions := ws\<rparr> \<and> k < length ws"
proof (cases "find_session f u i s")
  case None
  with assms show ?thesis by (auto simp: get_write_session_def split: if_splits)
next
  case (Some j)
  then have "j < length (ss_sessions s)" by (simp add: find_session_def find_index_bound)
  moreover have "k = j" "s1 = s" using assms Some by (simp_all add: get_write_session_def)
  ultimately show ?thesis by (intro exI [of _ "ss_sessions s"]) simp
qed

lemma path_sessions [simp]: "file_path (s\<lparr>ss_sessions := ws\<rparr>) f = file_path s f"
  by (simp add: file_path_def)

lemma start_solo:
  "solo (ss_thread_step readdir) now 6 (Lock_count msg) s =
     (let f = msg_filename msg; i = msg_sentence_index msg; u = msg_sender msg;
          (st, s') = start_write_session_ss now f u i s
      in Some (Answered msg st, if st = SUCCESS then s' else s'\<lparr>ss_locks := snd (unlock_sentence_ss f i u (ss_locks s'))\<rparr>))"
proof (cases "get_write_session (msg_filename msg) (msg_sender msg) (msg_sentence_index msg) True s")
  case None
  then show ?thesis by (simp add: solo_numeral start_write_session_ss_def Let_def split_beta)
next
  case (Some p)
  then obtain k ws where g: "get_write_session (msg_filename msg) (msg_sender msg) (msg_sentence_index msg) True s =
      Some (k, s\<lparr>ss_sessions := ws\<rparr>)" and k: "k < length ws"
    using session_made by (cases p) blast
  then show ?thesis
    by (cases "copy_file now (file_path s (msg_filename msg)) (ws_temp_filepath (ws ! k)) (ss_disk s)")
      (simp_all add: solo_numeral start_write_session_ss_def session_at_def Let_def split_beta)
qed

lemma lock_solo:
  "solo (ss_thread_step readdir) now 8 (Lock_check msg) s =
     (let (st, s') = lock_request_ss now (msg_filename msg) (msg_sentence_index msg) (msg_sender msg) s
      in Some (Answered msg st, s'))"
proof (cases "lock_index_valid s (msg_filename msg) (msg_sentence_index msg)")
  case True
  have "solo (ss_thread_step readdir) now 8 (Lock_check msg) s = Option.bind (ss_thread_step readdir now (Lock_take msg) s)
      (\<lambda>(t, s'). solo (ss_thread_step readdir) now 6 t s')"
    using True by (simp add: solo_numeral)
  with True show ?thesis
    by (simp add: start_solo lock_request_ss_def Let_def split_beta)
qed (simp add: solo_numeral lock_request_ss_def Let_def)

lemma write_solo:
  "map_option (\<lambda>(t, s'). (answer t, s')) (solo (ss_thread_step readdir) now 8 (Write_find msg) s) =
     map_option (\<lambda>(st, s'). ([ack\<lparr>msg_status := st\<rparr>], s'))
       (write_file_ss now (msg_filename msg) (msg_sender msg) (msg_sentence_index msg) (msg_word_index msg) (msg_data msg) s)"
proof (cases "session_for msg s")
  case (Some k)
  show ?thesis
  proof (cases "insert_word_in_sentence (draft s (ss_sessions s ! k)) (msg_sentence_index msg) (msg_word_index msg) (msg_data msg)")
    case None
    with Some session_found [OF Some] show ?thesis
      by (simp add: numeral_eq_Suc write_file_ss_def draft_def Let_def)
  next
    case (Some p)
    with \<open>session_for msg s = Some k\<close> session_found [OF \<open>session_for msg s = Some k\<close>] show ?thesis
      by (cases p) (simp add: numeral_eq_Suc write_file_ss_def draft_def Let_def split_beta)
  qed
qed (simp add: numeral_eq_Suc write_file_ss_def)

lemma commit_solo:
  "solo (ss_thread_step readdir) now 8 (Commit_find msg) s =
     (let (st, s') = unlock_request_ss now (msg_filename msg) (msg_sentence_index msg) (msg_sender msg) s
      in Some (Answered msg st, s'))"
proof (cases "session_for msg s")
  case (Some k)
  with session_found [OF Some] show ?thesis
    by (simp add: numeral_eq_Suc unlock_request_ss_def commit_write_session_ss_def Let_def split_beta find_session_def)
qed (simp add: numeral_eq_Suc unlock_request_ss_def commit_write_session_ss_def Let_def split_beta)

lemma cancel_solo:
  "solo (ss_thread_step readdir) now 8 (Cancel_find msg) s =
     (let (st, s') = cancel_request_ss (msg_filename msg) (msg_sentence_index msg) (msg_sender msg) s
      in Some (Answered msg st, s'))"
  by (cases "session_for msg s") (simp_all add: numeral_eq_Suc cancel_request_ss_def cancel_write_session_ss_def Let_def split_beta)

lemma undo_solo:
  "solo (ss_thread_step readdir) now 8 (Undo_check msg) s =
     (let (st, s') = undo_request_ss now (msg_filename msg) s in Some (Answered msg st, s'))"
  by (cases "copy_file now (undo_path (file_path s (msg_filename msg))) (file_path s (msg_filename msg)) (ss_disk s)")
    (simp_all add: solo_numeral undo_request_ss_def undo_backup_exists_def restore_from_undo_def Let_def file_path_def)

text \<open>
  The steps of a request of a client, run without interruption, are the request: the same answers and
  the same state.
\<close>

lemma request_solo:
  "map_option (\<lambda>(t, s'). (answer t, s')) (solo (ss_thread_step readdir) now 8 (start_request msg) s) = client_request now msg s"
proof -
  have serve: "map_option (\<lambda>(t, s'). (answer t, s')) (solo (ss_thread_step readdir) now 8 (Serve msg) s) = client_request now msg s"
    by (cases "client_request now msg s") (simp_all add: solo_numeral split_beta)
  have kinds: "start_request msg = Serve msg \<or> type_of_code (msg_type msg) \<in>
      Some ` {MSG_LOCK_SENTENCE, MSG_WRITE, MSG_UNLOCK_SENTENCE, MSG_CANCEL_WRITE, MSG_UNDO}"
  proof (cases "type_of_code (msg_type msg)")
    case (Some ty)
    then show ?thesis by (cases ty) (simp_all add: start_request_def)
  qed (simp add: start_request_def)
  show ?thesis
  proof (cases "start_request msg = Serve msg")
    case False
    with kinds show ?thesis
      by (auto simp: start_request_def client_request_def Let_def lock_solo write_solo [unfolded case_prod_unfold]
          commit_solo cancel_solo undo_solo case_prod_unfold)
  qed (simp add: serve)
qed

lemma request_thread_alone:
  "map_option (\<lambda>(ts, s'). (concat (map answer ts), s')) (run_pool (ss_thread_step readdir) (replicate 8 (0, now)) ([start_request msg], s)) =
    client_request now msg s"
  using request_solo [of readdir now msg s] unfolding run_solo by (simp add: option.map_comp comp_def case_prod_unfold)

section \<open>A pointer to another session\<close>

definition outcome_disk :: "commit_outcome \<Rightarrow> disk" where
  "outcome_disk out = (case out of Skipped d \<Rightarrow> d | Failed d \<Rightarrow> d | Merged d \<Rightarrow> d)"

lemma process_entry_frame:
  assumes "can_write d p" and "ce_temp_filepath e \<noteq> p"
  shows "(\<forall>d'. process_entry now p e d \<noteq> Failed d') \<and> content (outcome_disk (process_entry now p e d)) (ce_temp_filepath e) = None
    \<and> (q \<noteq> p \<and> q \<noteq> ce_temp_filepath e \<longrightarrow> content (outcome_disk (process_entry now p e d)) q = content d q)"
  using assms
  by (auto simp: process_entry_def outcome_disk_def write_file_content_def Let_def disk split: option.splits)

lemma process_one:
  assumes "get_commit_queue f (ss_queues s) = Some (n, qs)" and "cq_entries (qs ! n) = [e]"
    and "\<forall>d'. process_entry now (file_path s f) e (snd (create_undo_backup now (file_path s f) (ss_disk s))) \<noteq> Failed d'"
  shows "\<exists>qs'. snd (process_commit_queue now f s) = s\<lparr>ss_queues := qs', ss_disk :=
    outcome_disk (process_entry now (file_path s f) e (snd (create_undo_backup now (file_path s f) (ss_disk s))))\<rparr>"
  using assms
  by (cases "process_entry now (file_path s f) e (snd (create_undo_backup now (file_path s f) (ss_disk s)))")
    (auto simp: process_commit_queue_def Let_def outcome_disk_def)

lemma nth_remove_nth:
  assumes "Suc n < length xs" and "j < length xs"
  shows "remove_nth j xs ! n = xs ! (if n < j then n else Suc n)"
  using assms by (simp add: remove_nth_def nth_append min_def)

lemma remove_two_behind:
  assumes "j < k" and "Suc k < length xs"
  shows "xs ! Suc k \<in> set (remove_nth (k - 1) (remove_nth j xs))"
proof -
  let ?ys = "remove_nth j xs"
  have l: "length ?ys = length xs - 1" using assms by (simp add: length_remove_nth)
  obtain i where i: "k = Suc i" using assms(1) by (cases k) simp_all
  have y: "?ys ! k = xs ! Suc k" using assms nth_remove_nth [of k xs j] by simp
  have "remove_nth i ?ys ! i = ?ys ! k" using assms l i nth_remove_nth [of i ?ys i] by simp
  moreover have "i < length (remove_nth i ?ys)" using assms l i by (simp add: length_remove_nth)
  ultimately show ?thesis using i y nth_mem by fastforce
qed

text \<open>
  The thread that commits for \<open>mb\<close> has found its session at \<open>k\<close>; the session of \<open>ma\<close> at \<open>j < k\<close> is
  removed, and \<open>k\<close> means the next session. The entry carries the copy of that one.
\<close>

lemma moved_pointer:
  assumes "session_for mb s = Some k" and "session_for ma s = Some j" and "j < k" and "Suc k < length (ss_sessions s)"
  shows "session_at k (remove_write_session (msg_filename ma) (msg_sender ma) (msg_sentence_index ma) s) =
      Some (ss_sessions s ! Suc k)"
    and "session_for mb (remove_write_session (msg_filename ma) (msg_sender ma) (msg_sentence_index ma) s) = Some (k - 1)"
proof -
  let ?ws = "ss_sessions s"
  have nth: "remove_nth j ?ws ! n = ?ws ! (if n < j then n else Suc n)" if "Suc n < length ?ws" for n
    using nth_remove_nth [OF that, of j] assms(3,4) by simp
  have len: "length (remove_nth j ?ws) = length ?ws - 1"
    using assms(3,4) by (simp add: remove_nth_def)
  show "session_at k (remove_write_session (msg_filename ma) (msg_sender ma) (msg_sentence_index ma) s) =
      Some (ss_sessions s ! Suc k)"
    using assms(2-4) nth [of k] len by (simp add: session_at_def remove_write_session_def)
  have b: "session_is (msg_filename mb) (msg_sender mb) (msg_sentence_index mb) (?ws ! k)"
    "\<And>n. n < k \<Longrightarrow> \<not> session_is (msg_filename mb) (msg_sender mb) (msg_sentence_index mb) (?ws ! n)"
    using assms(1) by (simp_all add: find_session_def find_index_Some)
  have "find_index (session_is (msg_filename mb) (msg_sender mb) (msg_sentence_index mb)) (remove_nth j ?ws) = Some (k - 1)"
    unfolding find_index_Some
  proof (intro conjI allI impI)
    show "k - 1 < length (remove_nth j ?ws)" using len assms(3,4) by simp
    show "session_is (msg_filename mb) (msg_sender mb) (msg_sentence_index mb) (remove_nth j ?ws ! (k - 1))"
    proof -
      have "\<not> k - 1 < j" "Suc (k - 1) = k" "Suc (k - 1) < length ?ws" using assms(3,4) by simp_all
      with nth [of "k - 1"] b(1) show ?thesis by simp
    qed
    show "\<not> session_is (msg_filename mb) (msg_sender mb) (msg_sentence_index mb) (remove_nth j ?ws ! n)" if "n < k - 1" for n
      using nth [of n] that assms(3,4) b(2) by (cases "n < j") simp_all
  qed
  with assms(2) show "session_for mb (remove_write_session (msg_filename ma) (msg_sender ma) (msg_sentence_index ma) s) = Some (k - 1)"
    by (simp add: remove_write_session_def find_session_def)
qed

lemma session_frame [simp]:
  "find_session f u i (s\<lparr>ss_locks := t\<rparr>) = find_session f u i s" "find_session f u i (s\<lparr>ss_queues := qs\<rparr>) = find_session f u i s"
  "session_at k (s\<lparr>ss_locks := t\<rparr>) = session_at k s"
  by (simp_all add: find_session_def session_at_def)

lemma session_holds_lock:
  assumes "sessions_locked s" and "session_for m s = Some k"
  shows "holder (ss_locks s) (msg_filename m) (msg_sentence_index m) = Some (msg_sender m)"
proof -
  have "(msg_filename m, msg_sender m, msg_sentence_index m) \<in> set (session_keys s)"
    using assms(2) find_session_None [of "msg_filename m" "msg_sender m" "msg_sentence_index m" s] by auto
  with assms(1) show ?thesis by (auto simp: sessions_locked_def)
qed

lemma session_other_sentence:
  assumes "sessions_locked s" and "session_for m s = Some k" and "session_for m' s = Some j" and "j < k"
  shows "msg_filename m \<noteq> msg_filename m' \<or> msg_sentence_index m \<noteq> msg_sentence_index m'"
proof (cases "msg_filename m = msg_filename m'")
  case True
  let ?g = "\<lambda>(f, u :: string, i :: int). (f :: string, i)"
  have "distinct (map ?g (session_keys s))" using assms(1) by (simp add: sessions_locked_def)
  moreover have "k < length (session_keys s)" "session_keys s ! k = (msg_filename m, msg_sender m, msg_sentence_index m)"
    "session_keys s ! j = (msg_filename m', msg_sender m', msg_sentence_index m')"
    using assms(2-4) by (auto simp: find_session_key find_index_Some session_keys_def)
  ultimately show ?thesis
    using assms(4) True nth_eq_iff_index_eq [of "map ?g (session_keys s)" j k] by auto
qed simp


definition three_sessions :: storage where
  "three_sessions = (demo_server ''x. y. z.'')\<lparr>
     ss_locks := [\<lparr>fl_filename = ''a'', fl_locks = map (\<lambda>u. \<lparr>sl_locked = True, sl_by = u, sl_time = 0\<rparr>) [''ann'', ''bob'', ''cy'']\<rparr>],
     ss_sessions := map (\<lambda>(u, i). \<lparr>ws_filename = ''a'', ws_username = u, ws_sentence_idx = i,
         ws_temp_filepath = ''s/'' @ u, ws_original_count = 3, ws_lock_time = 0\<rparr>) [(''ann'', 0), (''bob'', 1), (''cy'', 2)]\<rparr>"


end
