(* ===== verification/LockedThreads.thy ===== *)
theory LockedThreads
  imports SessionThreads Deployment
begin

text \<open>
  Locks and sessions under every schedule. A thread between taking the lock and making its session
  holds the lock, and one that is about to give the lock back has no session any more; no step of a thread
  for another user, file or sentence changes that. So every session holds the lock of its sentence,
  however the requests of the clients and of the name server interleave. The name server sees less: a
  DELETE asks for the locks of a file and deletes it in two requests, and a lock taken in between is not seen.
\<close>

section \<open>Where a thread stands\<close>

fun request_of :: "ss_thread \<Rightarrow> message" where
  "request_of (Lock_check msg) = msg"
| "request_of (Lock_take msg) = msg"
| "request_of (Lock_count msg) = msg"
| "request_of (Lock_session msg _) = msg"
| "request_of (Lock_fill msg _ _) = msg"
| "request_of (Lock_copy msg _) = msg"
| "request_of (Write_find msg) = msg"
| "request_of (Write_parse msg _) = msg"
| "request_of (Write_save msg _ _) = msg"
| "request_of (Commit_find msg) = msg"
| "request_of (Commit_enqueue msg _) = msg"
| "request_of (Drop_session msg) = msg"
| "request_of (Commit_remove msg) = msg"
| "request_of (Commit_process msg) = msg"
| "request_of (Cancel_find msg) = msg"
| "request_of (Cancel_remove msg) = msg"
| "request_of (Release msg _) = msg"
| "request_of (Answered msg _) = msg"
| "request_of (Undo_check msg) = msg"
| "request_of (Undo_copy msg) = msg"
| "request_of (Undo_unlink msg) = msg"
| "request_of (Serve msg) = msg"
| "request_of (Nm_serve msg) = msg"
| "request_of (Replied msg _) = msg"

definition edit_key :: "message \<Rightarrow> string \<times> string \<times> int" where
  "edit_key msg = (msg_filename msg, msg_sender msg, msg_sentence_index msg)"

text \<open>A thread that may still change a session or a lock.\<close>

fun editing :: "ss_thread \<Rightarrow> bool" where
  "editing (Answered _ _) = False"
| "editing (Undo_check _) = False"
| "editing (Undo_copy _) = False"
| "editing (Undo_unlink _) = False"
| "editing (Serve _) = False"
| "editing (Nm_serve _) = False"
| "editing (Replied _ _) = False"
| "editing _ = True"

fun holds_lock :: "ss_thread \<Rightarrow> bool" where
  "holds_lock (Lock_count _) = True"
| "holds_lock (Lock_session _ _) = True"
| "holds_lock _ = False"

fun session_over :: "ss_thread \<Rightarrow> bool" where
  "session_over (Commit_process _) = True"
| "session_over (Release _ _) = True"
| "session_over _ = False"

fun well_started :: "ss_thread \<Rightarrow> bool" where
  "well_started (Lock_take msg) = (0 \<le> msg_sentence_index msg)"
| "well_started (Serve msg) = (start_request msg = Serve msg)"
| "well_started _ = True"

type_synonym keys = "(string \<times> string \<times> int) list"
type_synonym holders = "string \<Rightarrow> int \<Rightarrow> string option"

definition stage_ok :: "ss_thread \<Rightarrow> keys \<Rightarrow> holders \<Rightarrow> bool" where
  "stage_ok t K H \<longleftrightarrow> well_started t
     \<and> (case edit_key (request_of t) of (f, u, i) \<Rightarrow>
         (holds_lock t \<longrightarrow> H f i = Some u) \<and> (session_over t \<longrightarrow> (f, u, i) \<notin> set K))"

section \<open>What a step does to locks and sessions\<close>

definition acquired :: "string \<times> string \<times> int \<Rightarrow> holders \<Rightarrow> holders" where
  "acquired k H = (case k of (f, u, i) \<Rightarrow>
     if H f i = None \<or> H f i = Some u then H(f := (H f)(i := Some u)) else H)"

definition released :: "string \<times> string \<times> int \<Rightarrow> holders \<Rightarrow> holders" where
  "released k H = (case k of (f, u, i) \<Rightarrow> if H f i = Some u then H(f := (H f)(i := None)) else H)"

definition key_step :: "string \<times> string \<times> int \<Rightarrow> keys \<Rightarrow> holders \<Rightarrow> keys \<Rightarrow> holders \<Rightarrow> bool" where
  "key_step k K H K' H' \<longleftrightarrow>
     K' = K \<and> H' = H \<or> K' = K \<and> H' = acquired k H \<or> K' = remove1 k K \<and> H' = H
     \<or> k \<notin> set K \<and> K' = K \<and> H' = released k H
     \<or> (case k of (f, u, i) \<Rightarrow> H f i = Some u) \<and> K' = (if k \<in> set K then K else K @ [k]) \<and> H' = H"

lemma keys_locked_iff:
  "keys_locked K H \<longleftrightarrow> (\<forall>f u i. (f, u, i) \<in> set K \<longrightarrow> H f i = Some u) \<and> distinct (map (\<lambda>(f, u, i). (f, i)) K)"
  by (auto simp: keys_locked_def)

lemma key_step_locked:
  assumes "keys_locked K H" and "key_step k K H K' H'"
  shows "keys_locked K' H'"
proof -
  obtain f u i where k: "k = (f, u, i)" by (cases k) auto
  from assms(2) consider "K' = K" "H' = H" | "K' = K" "H' = acquired k H" | "K' = remove1 k K" "H' = H"
    | "k \<notin> set K" "K' = K" "H' = released k H" | "H f i = Some u" "K' = (if k \<in> set K then K else K @ [k])" "H' = H"
    unfolding key_step_def k by auto
  then show ?thesis
  proof cases
    case 2
    with assms(1) show ?thesis by (fastforce simp: keys_locked_iff acquired_def k)
  next
    case 3
    have "distinct (map (\<lambda>(f, u, i). (f, i)) (remove1 k K))"
      using assms(1) set_remove1_subset [of k K]
      unfolding keys_locked_def distinct_map by (meson distinct_remove1 inj_on_subset)
    with assms(1) 3 set_remove1_subset [of k K] show ?thesis by (auto simp: keys_locked_iff)
  next
    case 4
    have "keys_locked (remove1 (f, u, i) K) H'"
      by (rule keys_locked_remove [OF assms(1)]) (simp add: 4 released_def k)
    with 4 show ?thesis by (simp add: remove1_idem k)
  next
    case 5
    have "H = H(f := (H f)(i := Some u))" using 5(1) by (simp add: fun_eq_iff)
    from keys_locked_add [OF assms(1) _ this] 5 show ?thesis unfolding k by (simp split: if_splits)
  qed (use assms(1) in simp)
qed

lemma key_step_other:
  assumes "stage_ok t K H" and "key_step k K H K' H'" and "edit_key (request_of t) \<noteq> k"
  shows "stage_ok t K' H'"
proof -
  obtain f u i g v j where k: "k = (f, u, i)" and t: "edit_key (request_of t) = (g, v, j)"
    by (cases k; cases "edit_key (request_of t)") auto
  have "H' g j = Some v" if "H g j = Some v"
    using assms(2,3) that unfolding key_step_def k t acquired_def released_def by (auto split: if_splits)
  moreover have "(g, v, j) \<notin> set K'" if "(g, v, j) \<notin> set K"
    using assms(2,3) that set_remove1_subset [of k K] unfolding key_step_def k t by (auto split: if_splits)
  ultimately show ?thesis using assms(1) by (auto simp: stage_ok_def t)
qed

section \<open>Every step is one of them\<close>

lemma serve_frame:
  assumes "client_request now msg s = Some (out, s')" and "start_request msg = Serve msg"
  shows "session_keys s' = session_keys s" and "ss_locks s' = ss_locks s"
proof -
  have "type_of_code (msg_type msg) \<notin> Some ` {MSG_LOCK_SENTENCE, MSG_UNLOCK_SENTENCE, MSG_CANCEL_WRITE, MSG_WRITE, MSG_UNDO}"
    using assms(2) by (auto simp: start_request_def)
  with assms(1) have "session_keys s' = session_keys s \<and> ss_locks s' = ss_locks s"
    by (auto simp: client_request_def Let_def read_file_ss_def split: option.splits message_type.splits prod.splits if_splits)
  then show "session_keys s' = session_keys s" "ss_locks s' = ss_locks s" by simp_all
qed

lemma session_for_None: "session_for msg s = None \<longleftrightarrow> edit_key msg \<notin> set (session_keys s)"
  by (simp add: find_session_None edit_key_def)

lemma step_shape:
  assumes "ss_thread_step readdir now t s = Some (t', s')" and "well_started t"
  shows "request_of t' = request_of t \<and> (editing t' \<longrightarrow> editing t) \<and> well_started t'
    \<and> (holds_lock t' \<longrightarrow> holds_lock t \<or> (\<exists>msg. t = Lock_take msg))"
  using assms
  by (cases t) (auto simp: bind_eq_Some_conv Let_def lock_index_valid_def split_beta split: option.splits if_splits copy_result.splits)

lemma idle_step:
  assumes "ss_thread_step readdir now t s = Some (t', s')" and "well_started t" and "\<not> editing t"
  shows "session_keys s' = session_keys s \<and> holder (ss_locks s') = holder (ss_locks s)"
proof (cases t)
  case (Serve msg)
  with assms obtain out where "client_request now msg s = Some (out, s')" "start_request msg = Serve msg" by auto
  with serve_frame show ?thesis by metis
next
  case (Nm_serve msg)
  with assms(1) obtain reply where "nm_request readdir now msg s = (reply, s')" by (auto split: prod.splits)
  with nm_request_frame show ?thesis by blast
qed (use assms in \<open>auto simp: Let_def split: if_splits copy_result.splits\<close>)

lemma edit_step:
  assumes "ss_thread_step readdir now t s = Some (t', s')" and "stage_ok t (session_keys s) (holder (ss_locks s))"
    and "editing t" and "distinct (session_keys s)" and "length (msg_sender (request_of t)) < MAX_USERNAME"
  shows "key_step (edit_key (request_of t)) (session_keys s) (holder (ss_locks s)) (session_keys s') (holder (ss_locks s'))
    \<and> stage_ok t' (session_keys s') (holder (ss_locks s'))"
proof -
  let ?K = "session_keys s" and ?H = "holder (ss_locks s)"
  let ?goal = "\<lambda>t' s'. key_step (edit_key (request_of t)) ?K ?H (session_keys s') (holder (ss_locks s'))
      \<and> stage_ok t' (session_keys s') (holder (ss_locks s'))"
  show ?thesis
  proof (cases t)
    case (Lock_check msg)
    with assms(1) show ?thesis
      by (auto simp: key_step_def stage_ok_def lock_index_valid_def Let_def split: if_splits)
  next
    case (Lock_take msg)
    let ?f = "msg_filename msg" and ?i = "msg_sentence_index msg" and ?u = "msg_sender msg"
    from assms(2,5) Lock_take have i: "0 \<le> ?i" "length ?u < MAX_USERNAME" by (simp_all add: stage_ok_def)
    obtain st l where l: "lock_sentence_ss now ?f ?i ?u (ss_locks s) = (st, l)" by fastforce
    have st: "st = SUCCESS \<longleftrightarrow> ?H ?f ?i = None \<or> ?H ?f ?i = Some ?u"
      using locks.acquire_status [OF i(1), of now ?f ?u "ss_locks s"] l by simp
    have H': "holder l = acquired (?f, ?u, ?i) ?H"
      using locks.acquire_held [OF i, of now ?f "ss_locks s"] l by (auto simp: acquired_def fun_eq_iff)
    from assms(1) Lock_take l have eq: "t' = (if st = SUCCESS then Lock_count msg else Answered msg st)" "s' = s\<lparr>ss_locks := l\<rparr>"
      by simp_all
    have "acquired (?f, ?u, ?i) ?H ?f ?i = Some ?u" if "st = SUCCESS" using that st by (auto simp: acquired_def)
    with H' show ?thesis unfolding eq Lock_take by (auto simp: key_step_def stage_ok_def edit_key_def)
  next
    case (Lock_session msg count)
    show ?thesis
    proof (cases "get_write_session (msg_filename msg) (msg_sender msg) (msg_sentence_index msg) True s")
      case None
      then have "edit_key msg \<notin> set ?K"
        by (auto simp: get_write_session_def session_for_None [symmetric] split: option.splits)
      with None assms(1) Lock_session show ?thesis by (auto simp: key_step_def stage_ok_def edit_key_def)
    next
      case (Some r)
      obtain k s1 where r: "r = (k, s1)" by (cases r)
      note g = get_write_session_keys [OF Some [unfolded r]]
      from assms(1,2) Lock_session Some r g show ?thesis
        by (auto simp: key_step_def stage_ok_def edit_key_def)
    qed
  next
    case (Lock_fill msg count k)
    let ?w = "(ss_sessions s ! k)\<lparr>ws_original_count := count, ws_lock_time := now\<rparr>"
    from Lock_fill assms(1) have eq: "k < length (ss_sessions s)" "s' = s\<lparr>ss_sessions := (ss_sessions s)[k := ?w]\<rparr>" "t' = Lock_copy msg k"
      by (auto simp: bind_eq_Some_conv session_at_def split: if_splits)
    have "session_key ?w = session_key (ss_sessions s ! k)" by (simp add: session_key_def)
    from keys_update [OF eq(1) this] have "session_keys s' = ?K" "ss_locks s' = ss_locks s"
      by (simp_all add: eq(2)) (simp add: session_keys_def)
    with eq(3) show ?thesis by (simp add: key_step_def stage_ok_def split_beta)
  next
    case (Drop_session msg)
    with assms(1,4) show ?thesis
      by (auto simp: key_step_def stage_ok_def edit_key_def remove_write_session_keys)
  next
    case (Cancel_remove msg)
    with assms(1,4) show ?thesis
      by (auto simp: key_step_def stage_ok_def edit_key_def remove_write_session_keys)
  next
    case (Commit_remove msg)
    have keys: "session_keys s' = remove1 (edit_key msg) ?K" "ss_locks s' = ss_locks s"
      using assms(1) Commit_remove session_for_None [of msg s] remove_session_keys
      by (auto simp: edit_key_def remove1_idem split: option.splits)
    with assms(1,4) Commit_remove show ?thesis by (auto simp: key_step_def stage_ok_def split_beta)
  next
    case (Release msg st)
    let ?f = "msg_filename msg" and ?i = "msg_sentence_index msg" and ?u = "msg_sender msg"
    have "holder (snd (unlock_sentence_ss ?f ?i ?u (ss_locks s))) = released (?f, ?u, ?i) ?H"
      by (auto simp: locks.release_held released_def fun_eq_iff)
    with assms(1,2) Release show ?thesis
      by (auto simp: key_step_def stage_ok_def edit_key_def split_beta)
  next
    case (Commit_find msg)
    with assms(1) session_for_None [of msg s] show ?thesis
      by (auto simp: key_step_def stage_ok_def split_beta split: option.splits)
  next
    case (Cancel_find msg)
    with assms(1) session_for_None [of msg s] show ?thesis
      by (auto simp: key_step_def stage_ok_def split_beta split: option.splits)
  next
    case (Commit_process msg)
    with assms(1,2) show ?thesis by (auto simp: key_step_def stage_ok_def process_queue_frame)
  qed (use assms in \<open>auto simp: key_step_def stage_ok_def bind_eq_Some_conv Let_def split_beta split: option.splits if_splits copy_result.splits\<close>)
qed

section \<open>The invariant\<close>

text \<open>
  At most one thread edits for each file, user and sentence: a client waits for the answer to one
  request before it sends the next.
\<close>

definition one_client :: "ss_thread list \<Rightarrow> bool" where
  "one_client ts \<longleftrightarrow> (\<forall>i < length ts. \<forall>j < length ts. i \<noteq> j \<and> editing (ts ! i) \<and> editing (ts ! j)
     \<longrightarrow> edit_key (request_of (ts ! i)) \<noteq> edit_key (request_of (ts ! j)))"

definition threads_ok :: "ss_thread list \<Rightarrow> storage \<Rightarrow> bool" where
  "threads_ok ts s \<longleftrightarrow> sessions_locked s \<and> one_client ts
     \<and> (\<forall>t \<in> set ts. length (msg_sender (request_of t)) < MAX_USERNAME
          \<and> stage_ok t (session_keys s) (holder (ss_locks s)))"

lemma idle_stage: "\<not> editing t \<Longrightarrow> stage_ok t K H \<longleftrightarrow> well_started t"
  by (cases t) (simp_all add: stage_ok_def split_beta)

lemma threads_ok_step:
  assumes ok: "threads_ok ts s" and i: "i < length ts" and st: "ss_thread_step readdir now (ts ! i) s = Some (t', s')"
  shows "threads_ok (ts[i := t']) s'"
proof -
  let ?t = "ts ! i"
  have mem: "?t \<in> set ts" using i by simp
  have stage: "stage_ok ?t (session_keys s) (holder (ss_locks s))" and short: "length (msg_sender (request_of ?t)) < MAX_USERNAME"
    using ok mem unfolding threads_ok_def by blast+
  have "well_started ?t" using stage by (simp add: stage_ok_def)
  note shape = step_shape [OF st this]
  have locked: "keys_locked (session_keys s) (holder (ss_locks s))" using ok by (simp add: threads_ok_def sessions_locked_keys)
  then have "distinct (session_keys s)" by (simp add: keys_locked_def distinct_map)
  then have eff: "key_step (edit_key (request_of ?t)) (session_keys s) (holder (ss_locks s)) (session_keys s') (holder (ss_locks s'))
      \<and> stage_ok t' (session_keys s') (holder (ss_locks s'))"
    if "editing ?t" using edit_step [OF st stage that _ short] by blast
  have same: "session_keys s' = session_keys s \<and> holder (ss_locks s') = holder (ss_locks s)" if "\<not> editing ?t"
    using idle_step [OF st \<open>well_started ?t\<close> that] .
  have own: "stage_ok t' (session_keys s') (holder (ss_locks s'))"
    using eff shape idle_stage by (cases "editing ?t") blast+
  have others: "stage_ok (ts ! j) (session_keys s') (holder (ss_locks s'))" if "j < length ts" "j \<noteq> i" for j
  proof -
    have j: "stage_ok (ts ! j) (session_keys s) (holder (ss_locks s))" using ok that(1) by (simp add: threads_ok_def)
    show ?thesis
    proof (cases "editing ?t \<and> editing (ts ! j)")
      case True
      then have "edit_key (request_of (ts ! j)) \<noteq> edit_key (request_of ?t)"
        using ok i that unfolding threads_ok_def one_client_def by blast
      with key_step_other [OF j] eff True show ?thesis by blast
    next
      case False
      with same j idle_stage show ?thesis by metis
    qed
  qed
  have "keys_locked (session_keys s') (holder (ss_locks s'))"
  proof (cases "editing ?t")
    case True
    from key_step_locked [OF locked] eff [OF True] show ?thesis by blast
  qed (use same locked in simp)
  then have "sessions_locked s'" by (simp add: sessions_locked_keys)
  moreover have "one_client (ts[i := t'])"
    using ok shape i unfolding threads_ok_def one_client_def by (auto simp: nth_list_update)
  moreover have "length (msg_sender (request_of t)) < MAX_USERNAME \<and> stage_ok t (session_keys s') (holder (ss_locks s'))"
    if "t \<in> set (ts[i := t'])" for t
  proof -
    from that obtain j where j: "j < length ts" "t = ts[i := t'] ! j" by (auto simp: in_set_conv_nth)
    show ?thesis
    proof (cases "j = i")
      case True
      with j own shape short show ?thesis by simp
    next
      case False
      with j others ok show ?thesis by (simp add: threads_ok_def)
    qed
  qed
  ultimately show ?thesis by (simp add: threads_ok_def)
qed

interpretation sessions: pool_invariant "ss_thread_step readdir" threads_ok for readdir
  by unfold_locales (rule threads_ok_step)

lemma start_request_of [simp]: "request_of (start_request msg) = msg"
  by (simp add: start_request_def split: option.split message_type.split)

lemma start_stage: "stage_ok (start_request msg) K H"
proof (cases "start_request msg = Serve msg")
  case False
  then have "\<not> holds_lock (start_request msg)" "\<not> session_over (start_request msg)" "well_started (start_request msg)"
    by (auto simp: start_request_def split: option.split message_type.split)
  then show ?thesis by (simp add: stage_ok_def split_beta)
qed (simp add: stage_ok_def split_beta)



section \<open>A DELETE and a lock\<close>

text \<open>
  After it has answered a request of the name server the storage server serves its clients; \<open>others\<close> is
  what they do to its state before the next request of the name server.
\<close>

definition busy_deployment ::
    "(disk \<Rightarrow> string \<Rightarrow> string list option) \<Rightarrow> time \<Rightarrow> (message \<Rightarrow> storage \<Rightarrow> storage) \<Rightarrow> storage environment \<Rightarrow> storage environment" where
  "busy_deployment readdir now others env =
     env\<lparr>env_rpc := (\<lambda>sock msg s. case nm_request readdir now msg s of (resp, s') \<Rightarrow> (0, resp, others msg s'))\<rparr>"

definition client_in_between :: "time \<Rightarrow> message \<Rightarrow> message_type \<Rightarrow> message \<Rightarrow> storage \<Rightarrow> storage" where
  "client_in_between now req ty msg s =
     (if msg_type msg = type_code ty then case client_request now req s of Some (_, s') \<Rightarrow> s' | None \<Rightarrow> s else s)"

lemma start_session_disk:
  assumes "start_write_session_ss now f u i s = (SUCCESS, s')"
  shows "ss_path s' = ss_path s" and "dk_files (ss_disk s) p \<noteq> None \<Longrightarrow> dk_files (ss_disk s') p \<noteq> None"
proof -
  obtain k ws where g: "get_write_session f u i True s = Some (k, s\<lparr>ss_sessions := ws\<rparr>)"
    using assms session_made [of f u i s] by (fastforce simp: start_write_session_ss_def Let_def split: option.splits)
  have "ss_path s' = ss_path s \<and> (dk_files (ss_disk s) p \<noteq> None \<longrightarrow> dk_files (ss_disk s') p \<noteq> None)"
    using assms by (auto simp: start_write_session_ss_def Let_def g copy_file_def put_file_def
        split: copy_result.splits if_splits option.splits)
  then show "ss_path s' = ss_path s" "dk_files (ss_disk s) p \<noteq> None \<Longrightarrow> dk_files (ss_disk s') p \<noteq> None" by blast+
qed

lemma lock_request_made:
  assumes "lock_request_ss now f i u s = (SUCCESS, s1)" and "length u < MAX_USERNAME"
  shows "(f, u, i) \<in> set (session_keys s1)" and "holder (ss_locks s1) f i = Some u"
    and "ss_path s1 = ss_path s" and "dk_files (ss_disk s) p \<noteq> None \<Longrightarrow> dk_files (ss_disk s1) p \<noteq> None"
proof -
  obtain st t where l: "lock_sentence_ss now f i u (ss_locks s) = (st, t)" by fastforce
  from assms(1) l have i: "lock_index_valid s f i" and st: "st = SUCCESS"
    and new: "start_write_session_ss now f u i (s\<lparr>ss_locks := t\<rparr>) = (SUCCESS, s1)"
    by (auto simp: lock_request_ss_def Let_def split: if_splits prod.splits)
  have "0 \<le> i" using i by (auto simp: lock_index_valid_def Let_def split: if_splits)
  then have "holder t f i = Some u"
    using locks.acquire_status [of i now f u "ss_locks s"] locks.acquire_held [OF _ assms(2), of i now f "ss_locks s"] l st
    by (auto split: if_splits)
  with start_session_keys [OF new] show "holder (ss_locks s1) f i = Some u" "(f, u, i) \<in> set (session_keys s1)" by auto
  from start_session_disk [OF new] show "ss_path s1 = ss_path s"
    "dk_files (ss_disk s) p \<noteq> None \<Longrightarrow> dk_files (ss_disk s1) p \<noteq> None" by auto
qed

text \<open>
  C33. DELETE can take a file away under a session: a client whose LOCK comes after the name server has
  asked for the locks, and before it asks to delete, is told \<open>SUCCESS\<close>, and so is the owner. The
  sentence is locked and the session goes on, but the file is gone.
\<close>

theorem delete_races_lock:
  assumes "trie_search (nm_file_trie nm) (msg_filename msg) = Some meta" and "fm_owner meta = msg_sender msg"
    and "server_index (fm_ss_id meta) nm = Some n" and "cache_remove (nm_cache nm) (msg_filename msg) = Some cache"
    and "\<not> check_file_locks (msg_filename msg) (ss_locks s)"
    and "dk_files (ss_disk s) (file_path s (msg_filename msg)) \<noteq> None"
    and "msg_type req = type_code MSG_LOCK_SENTENCE" and "msg_filename req = msg_filename msg"
    and "lock_request_ss now (msg_filename req) (msg_sentence_index req) (msg_sender req) s = (SUCCESS, s1)"
    and "length (msg_sender req) < MAX_USERNAME"
  shows "\<exists>nm' s'. handle_delete (busy_deployment readdir now (client_in_between now req MSG_CHECK_LOCKS) env) msg nm s
        = Some (reply SUCCESS, nm', s')
     \<and> content (ss_disk s') (file_path s' (msg_filename msg)) = None
     \<and> holder (ss_locks s') (msg_filename msg) (msg_sentence_index req) = Some (msg_sender req)
     \<and> (msg_filename msg, msg_sender req, msg_sentence_index req) \<in> set (session_keys s')"
proof -
  let ?f = "msg_filename msg" and ?env = "busy_deployment readdir now (client_in_between now req MSG_CHECK_LOCKS) env"
  note made = lock_request_made [OF assms(9,10)]
  have c: "client_request now req s = Some ([ack\<lparr>msg_status := SUCCESS\<rparr>], s1)"
    using assms(7,9) by (simp add: client_request_def Let_def)
  have path: "file_path s1 ?f = file_path s ?f" by (simp add: file_path_def made(3))
  define s2 where "s2 = s1\<lparr>ss_disk := unlink_file (undo_path (file_path s ?f)) (unlink_file (file_path s ?f) (ss_disk s1))\<rparr>"
  have del: "delete_file_ss ?f s1 = (SUCCESS, s2)"
    using made(4) [OF assms(6)] by (simp add: delete_file_ss_def Let_def path s2_def)
  have rpc: "server_rpc ?env nm n (init_message\<lparr>msg_type := type_code MSG_CHECK_LOCKS, msg_filename := ?f\<rparr>) s =
      (0, ack\<lparr>msg_ss_id := ss_id s, msg_status := SUCCESS\<rparr>, s1)"
    using assms(5) c by (simp add: server_rpc_def busy_deployment_def nm_request_locks client_in_between_def)
  have rpc2: "server_rpc ?env nm n (init_message\<lparr>msg_type := type_code MSG_DELETE, msg_filename := ?f\<rparr>) s1 =
      (0, ack\<lparr>msg_ss_id := ss_id s1, msg_status := SUCCESS\<rparr>, s2)"
    by (simp add: server_rpc_def busy_deployment_def nm_request_def Let_def del client_in_between_def)
  have "content (ss_disk s2) (file_path s2 ?f) = None"
    by (simp add: s2_def file_path_def made(3) disk)
  moreover have "session_keys s2 = session_keys s1" "ss_locks s2 = ss_locks s1" by (simp_all add: s2_def session_keys_def)
  moreover have "\<exists>nm'. handle_delete ?env msg nm s = Some (reply SUCCESS, nm', s2)"
    using assms(1-4) by (simp add: handle_delete_def Let_def rpc rpc2)
  ultimately show ?thesis using made(1,2) assms(8) by auto
qed

theorem delete_races_lock_witness:
  "\<exists>nm' s'. handle_delete (busy_deployment (\<lambda>d p. None) 1
         (client_in_between 1 ((request MSG_LOCK_SENTENCE ''ann'' 0)\<lparr>msg_filename := ''az''\<rparr>) MSG_CHECK_LOCKS) plain)
       (user_request MSG_DELETE ''ann'' ''az'') (one_server (small_server [])) empty_storage = Some (reply SUCCESS, nm', s')
     \<and> content (ss_disk s') (file_path s' ''az'') = None \<and> holder (ss_locks s') ''az'' 0 = Some ''ann''"
proof -
  let ?nm = "one_server (small_server [])" and ?m = "user_request MSG_DELETE ''ann'' ''az''"
    and ?q = "(request MSG_LOCK_SENTENCE ''ann'' 0)\<lparr>msg_filename := ''az''\<rparr>"
    and ?meta = "blank_metadata\<lparr>fm_filename := ''az'', fm_owner := ''ann'', fm_acl := []\<rparr>"
  have m: "msg_filename ?m = ''az''" "msg_sender ?m = ''ann''" by simp_all
  have q: "msg_filename ?q = ''az''" "msg_sender ?q = ''ann''" "msg_sentence_index ?q = 0" "msg_type ?q = type_code MSG_LOCK_SENTENCE"
    by (simp_all add: request_def)
  have t: "nm_file_trie ?nm = nm_file_trie (small_server [])" "nm_cache ?nm = init_cache 100"
    by (simp_all add: one_server_def small_server_def init_name_server_def)
  have meta: "trie_search (nm_file_trie ?nm) (msg_filename ?m) = Some ?meta" by (simp add: t small_server_simps)
  have i: "server_index (fm_ss_id ?meta) ?nm = Some 0" by (simp add: server_index_def one_server_def blank_metadata_def)
  have h: "hash_string ''az'' 100 < 100" by (simp add: hash_string_less)
  have c: "cache_remove (nm_cache ?nm) (msg_filename ?m) = Some (init_cache 100)"
    unfolding t(2) m using h by (simp add: cache_remove_def init_cache_def get_probe.simps)
  have p: "file_path empty_storage ''az'' = ''s/az''" by (simp add: empty_storage_def example_paths)
  have free: "\<not> check_file_locks (msg_filename ?m) (ss_locks empty_storage)"
    by (simp add: check_file_locks_def empty_storage_def az_storage_def demo_server_def file_entry_def)
  have there: "dk_files (ss_disk empty_storage) (file_path empty_storage (msg_filename ?m)) \<noteq> None"
    unfolding m p by (simp add: empty_storage_def)
  have "edit_ready empty_storage ''az'' ''ann''" unfolding empty_storage_def by (rule example_ready) simp_all
  then have ready: "first_write_ready empty_storage ''az'' ''ann''"
    by (simp add: first_write_ready_def p) (simp add: content_def empty_storage_def)
  obtain s1 where l: "lock_request_ss 1 (msg_filename ?q) (msg_sentence_index ?q) (msg_sender ?q) empty_storage = (SUCCESS, s1)"
    by (rule lock_empty_file [OF ready, of 1], rule that) (simp add: q)
  from delete_races_lock [OF meta _ i c free there q(4) _ l, of "\<lambda>d p. None" plain] show ?thesis
    unfolding m q by simp (elim exE conjE, intro exI conjI, assumption+)
qed

end
