(* ===== verification/ServerLoops.thy ===== *)
theory ServerLoops
  imports StorageServer "HOL-Library.Monad_Syntax"
begin

text \<open>
  The program around the requests of \<open>ss.c\<close>: the arguments and the start of \<open>main\<close>, and the loops of
  its threads. What the sockets deliver is a list, in the order the loop sees it; a loop that has
  used up its list waits for more.
\<close>

section \<open>Start\<close>

text \<open>
  What \<open>getifaddrs\<close> lists: \<open>None\<close> when it fails, and for each interface its IPv4 address if it has one.
  The buffer is that of the global \<open>ss\<close>, zeroed at the start.
\<close>

definition get_system_ip :: "nat \<Rightarrow> string option list option \<Rightarrow> int \<times> string" where
  "get_system_ip buffer_size interfaces =
     (case interfaces of
        None \<Rightarrow> (-1, [])
      | Some ifs \<Rightarrow>
          (case find (\<lambda>ifa. ifa \<noteq> None \<and> ifa \<noteq> Some ''127.0.0.1'') ifs of
             Some (Some ip) \<Rightarrow> (0, strncpy (buffer_size - 1) ip)
           | _ \<Rightarrow> (-1, strncpy (buffer_size - 1) ''127.0.0.1'')))"

definition NM_SS_HB_PORT :: int where
  "NM_SS_HB_PORT = 8082"

text \<open>\<open>socket\<close> and \<open>connect\<close> to an address and a port succeed; the program ends when one of the two fails.\<close>

definition connect_to_nm_ss :: "(string \<Rightarrow> int \<Rightarrow> bool) \<Rightarrow> string \<Rightarrow> int \<Rightarrow> bool" where
  "connect_to_nm_ss connects nm_ip nm_port \<longleftrightarrow> connects nm_ip nm_port \<and> connects nm_ip NM_SS_HB_PORT"

definition ss_arguments :: "string list \<Rightarrow> string + string \<times> int \<times> int \<times> int" where
  "ss_arguments argv =
     (if length argv \<noteq> 5 then
        Inl (''Usage: '' @ hd argv @ '' <nm_ip> <nm_port> <client_port> <dir_name>'' @ [CHR 0x0A])
      else
        let nm_port = atoi (argv ! 2); client_port = atoi (argv ! 3); dir_id = atoi (argv ! 4) in
        if nm_port \<le> 0 \<or> nm_port > 65535
        then Inl (''Error: Invalid NM port number. Must be between 1 and 65535.'' @ [CHR 0x0A])
        else if client_port \<le> 0 \<or> client_port > 65535
        then Inl (''Error: Invalid client port number. Must be between 1 and 65535.'' @ [CHR 0x0A])
        else if client_port = nm_port
        then Inl (''Error: Client port and NM port cannot be the same.'' @ [CHR 0x0A])
        else Inr (argv ! 1, nm_port, client_port, dir_id))"

text \<open>
  \<open>main\<close> up to the threads. A server that runs has sent the message that registers its files, if its
  directory could be listed.
\<close>

datatype ss_start = Refused string | Not_connected | Running storage "message option"

definition ss_main ::
    "(disk \<Rightarrow> string \<Rightarrow> string list option) \<Rightarrow> string option list option \<Rightarrow> (string \<Rightarrow> int \<Rightarrow> bool) \<Rightarrow> string list \<Rightarrow> disk
     \<Rightarrow> ss_start option" where
  "ss_main readdir interfaces connects argv d =
     (case ss_arguments argv of
        Inl t \<Rightarrow> Some (Refused t)
      | Inr (nm_ip, nm_port, client_port, dir_id) \<Rightarrow>
          let s = init_storage_server (snd (get_system_ip 16 interfaces)) nm_port client_port dir_id d in
          if \<not> connect_to_nm_ss connects nm_ip nm_port then Some Not_connected
          else map_option (Running s) (scan_and_register_files readdir s))"

section \<open>Loops\<close>

datatype errno = EAGAIN | EWOULDBLOCK | EINTR | EPIPE | ECONNRESET | ENOTCONN | Errno int

definition broken :: "errno option \<Rightarrow> bool" where
  "broken e \<longleftrightarrow> e \<in> {Some EPIPE, Some ECONNRESET, Some ENOTCONN}"

text \<open>
  \<open>handle_nm_communication\<close>: a turn of its loop is a failed \<open>recv_message\<close>, or a request with the
  failure of the \<open>send_message\<close> that answers it, if it fails. The result is \<open>ss.running\<close>, the answers
  handed to \<open>send_message\<close> and the state.
\<close>

datatype nm_turn = Nm_failed errno | Nm_request time message "errno option"

fun handle_nm_communication ::
    "(disk \<Rightarrow> string \<Rightarrow> string list option) \<Rightarrow> nm_turn list \<Rightarrow> storage \<Rightarrow> bool \<times> message list \<times> storage" where
  "handle_nm_communication readdir [] s = (True, [], s)"
| "handle_nm_communication readdir (Nm_failed e # turns) s =
     (if e = EAGAIN \<or> e = EWOULDBLOCK \<or> e = EINTR then handle_nm_communication readdir turns s
      else (False, [], s))"
| "handle_nm_communication readdir (Nm_request now msg send_error # turns) s =
     (let (response, s1) = nm_request readdir now msg s in
      if broken send_error then (False, [response], s1)
      else let (running, out, s2) = handle_nm_communication readdir turns s1 in (running, response # out, s2))"

text \<open>
  \<open>handle_client_request\<close>, while \<open>ss.running\<close> holds. A failed \<open>recv_message\<close>, of a client that is gone
  too, is followed by the next one. \<open>None\<close> is a request in which the code runs into memory it does not own.
\<close>

datatype client_turn = Client_failed | Client_message time message

fun handle_client_request :: "client_turn list \<Rightarrow> storage \<Rightarrow> (message list \<times> storage) option" where
  "handle_client_request [] s = Some ([], s)"
| "handle_client_request (Client_failed # turns) s = handle_client_request turns s"
| "handle_client_request (Client_message now msg # turns) s = do {
     (out, s1) \<leftarrow> client_request now msg s;
     (rest, s2) \<leftarrow> handle_client_request turns s1;
     Some (out @ rest, s2)
   }"

text \<open>\<open>heartbeat_thread\<close>, by the failures of \<open>send_message\<close> in the turns of its loop, one in five seconds.\<close>

fun heartbeat_loop :: "storage \<Rightarrow> errno option list \<Rightarrow> bool \<times> message list" where
  "heartbeat_loop s [] = (True, [])"
| "heartbeat_loop s (e # es) =
     (if broken e then (False, [heartbeat_message s])
      else let (running, out) = heartbeat_loop s es in (running, heartbeat_message s # out))"

definition heartbeat_thread :: "storage \<Rightarrow> errno option list \<Rightarrow> bool \<times> message list" where
  "heartbeat_thread s es =
     (let (running, out) = heartbeat_loop s es in (running, heartbeat_init_message s # heartbeat_message s # out))"

section \<open>What the loops keep\<close>

lemma reachable_trans:
  assumes "ss_reachable readdir s1 s2" and "ss_reachable readdir s0 s1"
  shows "ss_reachable readdir s0 s2"
  using assms by (induction rule: ss_reachable.induct) (auto intro: more_steps)

text \<open>A thread of the server takes it from reachable states to reachable states.\<close>

lemma nm_thread_reachable:
  "handle_nm_communication readdir turns s = (running, out, s') \<Longrightarrow> ss_reachable readdir s s'"
proof (induction turns arbitrary: s running out)
  case (Cons turn turns)
  show ?case
  proof (cases turn)
    case (Nm_failed e)
    with Cons show ?thesis by (auto split: if_splits intro: start)
  next
    case (Nm_request now msg send_error)
    obtain response s1 where r: "nm_request readdir now msg s = (response, s1)" by (cases "nm_request readdir now msg s")
    have one: "ss_reachable readdir s s1" by (rule more_steps [OF start name_server [OF r]])
    obtain running1 out1 s2 where n: "handle_nm_communication readdir turns s1 = (running1, out1, s2)"
      by (cases "handle_nm_communication readdir turns s1")
    have "s' = (if broken send_error then s1 else s2)" using Cons.prems Nm_request r n by (simp split: if_splits)
    moreover have "ss_reachable readdir s1 s2 \<or> s' \<noteq> s2" using Cons.IH n by blast
    ultimately show ?thesis using one reachable_trans by (auto split: if_splits)
  qed
qed (simp add: start)

lemma client_thread_reachable:
  assumes "handle_client_request turns s = Some (out, s')"
    and "\<And>now msg. Client_message now msg \<in> set turns \<Longrightarrow> length (msg_sender msg) < MAX_USERNAME"
  shows "ss_reachable readdir s s'"
  using assms
proof (induction turns s arbitrary: out s' rule: handle_client_request.induct)
  case (3 now msg turns s)
  from "3.prems"(1) obtain o1 s1 o2 where r: "client_request now msg s = Some (o1, s1)"
    and rest: "handle_client_request turns s1 = Some (o2, s')"
    by (auto simp: bind_eq_Some_conv)
  have "ss_reachable readdir s s1"
    by (rule more_steps [OF start client [OF r]], rule "3.prems"(2) [of now]) simp
  moreover have "ss_reachable readdir s1 s'"
    by (rule "3.IH" [OF r refl rest], rule "3.prems"(2), rule list.set_intros(2))
  ultimately show ?case by (rule reachable_trans [rotated])
qed (auto intro: start)

end
