(* ===== verification/ServerStatus.thy ===== *)
theory ServerStatus
  imports AccessControl ServerLoops
begin

text \<open>
  Which storage servers the name server counts as alive. A server is up from its registration until a
  monitor round finds its last heartbeat 60 seconds old or its heartbeat connection ends; the thread
  of its command connection ends with that. Then the start of a storage server, seen from both sides.
\<close>

section \<open>Requests leave the list of servers alone\<close>

named_theorems servers \<open>steps that leave the list of storage servers alone\<close>

lemma store_servers [servers]: "store_metadata f m nm = Some nm' \<Longrightarrow> nm_ss_list nm' = nm_ss_list nm"
  by (auto simp: store_metadata_def bind_eq_Some_conv)

lemma find_servers [servers]: "find_ss_for_file f nm = Some (i, nm') \<Longrightarrow> nm_ss_list nm' = nm_ss_list nm"
  by (auto simp: find_ss_for_file_def bind_eq_Some_conv split: option.splits)

lemma round_robin_servers [simp]: "nm_ss_list (snd (get_next_ss_round_robin nm)) = nm_ss_list nm"
  by (auto simp: get_next_ss_round_robin_def Let_def)

lemma createfolder_servers [servers]: "handle_createfolder env now msg nm w = (r, nm', w') \<Longrightarrow> nm_ss_list nm' = nm_ss_list nm"
  by (auto simp: handle_createfolder_def Let_def split_beta split: option.splits if_splits)

lemma checkpoint_servers [servers]:
  "handle_checkpoint_request env msg nm w = Some (r, nm', w') \<Longrightarrow> nm_ss_list nm' = nm_ss_list nm"
  by (auto simp: handle_checkpoint_request_def bind_eq_Some_conv split_beta dest: servers split: option.splits if_splits)

lemma exec_servers [servers]:
  assumes "handle_exec env msg nm w = Some (r, nm', w')"
  shows "nm_ss_list nm' = nm_ss_list nm"
proof (cases "check_access (msg_filename msg) (msg_sender msg) ACCESS_READ nm")
  case True
  with assms obtain a nm1 where f: "find_ss_for_file (msg_filename msg) nm = Some (a, nm1)"
    by (auto simp: handle_exec_def bind_eq_Some_conv)
  have "nm' = nm1"
    using assms True f by (cases "server_index a nm1") (auto simp: handle_exec_def Let_def split_beta split: option.splits if_splits)
  with find_servers [OF f] show ?thesis by simp
qed (use assms in \<open>simp add: handle_exec_def\<close>)

lemma info_servers [servers]: "handle_info env msg nm w = Some (r, nm', w') \<Longrightarrow> nm_ss_list nm' = nm_ss_list nm"
  by (cases "trie_search (nm_file_trie nm) (msg_filename msg)")
    (auto simp: handle_info_def Let_def bind_eq_Some_conv split_beta dest: servers)

lemma move_servers [servers]: "handle_move env msg nm w = Some (r, nm', w') \<Longrightarrow> nm_ss_list nm' = nm_ss_list nm"
  by (auto simp: handle_move_def Let_def bind_eq_Some_conv split_beta dest: servers split: option.splits if_splits)

lemma refresh_servers [servers]: "refresh_files env ms nm w = Some (ms', nm', w') \<Longrightarrow> nm_ss_list nm' = nm_ss_list nm"
proof (induction env ms nm w arbitrary: ms' rule: refresh_files.induct)
  case (2 env m ms nm w)
  from "2.prems"(1) obtain m1 nm1 w1 ms1 where one: "(case active_server_index (fm_ss_id m) nm of
          None \<Rightarrow> Some (m, nm, w)
        | Some i \<Rightarrow>
            let (ret, resp, w1) = server_rpc env nm i (info_request (fm_filename m)) w in
            if ret = 0 \<and> msg_status resp = SUCCESS then
              map_option (\<lambda>nm1. (scan_info (msg_data resp) m, nm1, w1))
                (store_metadata (fm_filename m) (scan_info (msg_data resp) m) nm)
            else Some (m, nm, w1)) = Some (m1, nm1, w1)"
    and rest: "refresh_files env ms nm1 w1 = Some (ms1, nm', w')"
    by (auto simp: bind_eq_Some_conv)
  have "nm_ss_list nm1 = nm_ss_list nm"
    using one by (auto simp: split_beta Let_def dest: servers split: option.splits if_splits)
  with "2.IH" [OF one refl refl rest] show ?case by simp
qed simp

lemma view_servers [servers]: "handle_view env msg nm w = Some (r, nm', w') \<Longrightarrow> nm_ss_list nm' = nm_ss_list nm"
  by (auto simp: handle_view_def Let_def bind_eq_Some_conv dest: servers split: if_splits)

lemma create_servers [servers]: "handle_create env now msg nm w = Some (r, nm', w') \<Longrightarrow> nm_ss_list nm' = nm_ss_list nm"
  by (auto simp: handle_create_def Let_def split_beta bind_eq_Some_conv split: option.splits if_splits)

lemma delete_servers [servers]: "handle_delete env msg nm w = Some (r, nm', w') \<Longrightarrow> nm_ss_list nm' = nm_ss_list nm"
  by (auto simp: handle_delete_def Let_def split_beta bind_eq_Some_conv split: option.splits if_splits)

lemma access_servers [servers]:
  "handle_access msg nm = Some (r, nm') \<Longrightarrow> nm_ss_list nm' = nm_ss_list nm"
  "handle_requestaccess now msg nm = (r, nm') \<Longrightarrow> nm_ss_list nm' = nm_ss_list nm"
  "handle_denyrequest msg nm = (r, nm') \<Longrightarrow> nm_ss_list nm' = nm_ss_list nm"
  "handle_approverequest msg nm = Some (r, nm') \<Longrightarrow> nm_ss_list nm' = nm_ss_list nm"
  by (auto simp: handle_access_def handle_requestaccess_def handle_denyrequest_def handle_approverequest_def Let_def
      bind_eq_Some_conv dest: servers split: option.splits if_splits)

lemma find_store_servers:
  "find_ss_for_file f nm = Some (a, nm1) \<Longrightarrow> store_metadata f m nm1 = Some nm' \<Longrightarrow> nm_ss_list nm' = nm_ss_list nm"
  using find_servers store_servers by metis

lemma redirect_servers [servers]: "handle_redirect now resp msg nm = Some (r, nm') \<Longrightarrow> nm_ss_list nm' = nm_ss_list nm"
  by (auto simp: handle_redirect_def Let_def bind_eq_Some_conv split_beta intro: find_servers find_store_servers split: option.splits if_splits)

lemma dispatch_servers [servers]:
  "dispatch env now resp msg nm w = Some (r, resp', nm', w') \<Longrightarrow> nm_ss_list nm' = nm_ss_list nm"
  by (auto simp: dispatch_def Let_def dest: servers split: option.splits message_type.splits if_splits prod.splits)

lemma connection_servers [simp]:
  "nm_ss_list (snd (client_connects now k msg nm)) = nm_ss_list nm"
  "nm_ss_list (client_disconnects now k i nm) = nm_ss_list nm"
  by (auto simp: client_connects_def client_disconnects_def register_user_persistent_def deregister_active_session_def
      Let_def split_beta split: option.splits)

section \<open>The status of a server\<close>

definition server_status :: "name_server \<Rightarrow> int \<Rightarrow> (bool \<times> time) option" where
  "server_status nm k = map_option (\<lambda>i. (si_active (nm_ss_list nm ! i), si_last_heartbeat (nm_ss_list nm ! i)))
     (server_index k nm)"

text \<open>What an event means for one server that is known: whether it is up, and its last sign of life.\<close>

fun beat :: "int \<Rightarrow> nm_event \<Rightarrow> bool \<times> time \<Rightarrow> bool \<times> time" where
  "beat k (Server_registers now sock msg) (up, seen) =
     (if msg_type msg = type_code MSG_REG_SS \<and> msg_ss_id msg = k then (True, now) else (up, seen))"
| "beat k (Heartbeat_connects now sock msg) (up, seen) =
     (if msg_type msg = type_code MSG_ACK \<and> msg_ss_id msg = k then (up, now) else (up, seen))"
| "beat k (Heartbeat now j msg) (up, seen) =
     (if msg_type msg = type_code MSG_ACK \<and> msg_data msg = ''HEARTBEAT'' \<and> j = k then (up, now) else (up, seen))"
| "beat k (Heartbeat_lost j) (up, seen) = (up \<and> j \<noteq> k, seen)"
| "beat k (Monitor_round now) (up, seen) = (up \<and> now - seen < 60, seen)"
| "beat k (Client_request now response msg) st = st"
| "beat k (Client_connects now sock msg) st = st"
| "beat k (Client_disconnects now sock idx) st = st"

lemma server_status_cong: "nm_ss_list nm' = nm_ss_list nm \<Longrightarrow> server_status nm' = server_status nm"
  by (simp add: server_status_def server_index_def fun_eq_iff)

lemma find_by_index: "find P xs = map_option (nth xs) (find_index P xs)"
  by (induction xs) (auto simp: option.map_comp comp_def)

lemma status_find:
  "server_status nm k = map_option (\<lambda>i. (si_active i, si_last_heartbeat i)) (find (\<lambda>i. si_id i = k) (nm_ss_list nm))"
  by (simp add: server_status_def server_index_def find_by_index option.map_comp comp_def)

lemma find_update_first:
  assumes "\<And>x. g (f x) = g x"
  shows "find (\<lambda>x. g x = k) (case find_index (\<lambda>x. g x = j) xs of None \<Rightarrow> xs | Some n \<Rightarrow> xs[n := f (xs ! n)]) =
    (if j = k then map_option f (find (\<lambda>x. g x = k) xs) else find (\<lambda>x. g x = k) xs)"
proof (induction xs)
  case (Cons x xs)
  then show ?case
    by (cases "find_index (\<lambda>x. g x = j) xs") (auto simp: assms split: if_splits)
qed simp

lemma find_replace:
  "find_index (\<lambda>x. g x = j) xs = Some n \<Longrightarrow> g e = j \<Longrightarrow>
     find (\<lambda>x. g x = k) (xs[n := e]) = (if j = k then Some e else find (\<lambda>x. g x = k) xs)"
  by (induction xs arbitrary: n) (auto split: if_splits)

lemma find_behind: "find P xs \<noteq> None \<Longrightarrow> find P (xs @ ys) = find P xs"
  by (induction xs) auto

lemma find_register:
  assumes "g e = j" and "find (\<lambda>x. g x = k) xs \<noteq> None"
  shows "find (\<lambda>x. g x = k) (case find_index (\<lambda>x. g x = j) xs of None \<Rightarrow> xs @ [e] | Some n \<Rightarrow> xs[n := e]) =
    (if j = k then Some e else find (\<lambda>x. g x = k) xs)"
proof (cases "find_index (\<lambda>x. g x = j) xs")
  case None
  with assms(2) have "j \<noteq> k" by (auto simp: find_by_index)
  with None find_behind [OF assms(2)] show ?thesis by simp
qed (simp add: find_replace assms(1))

lemma status_update:
  assumes "\<And>i. si_id (f i) = si_id i" and "\<And>i. (si_active (f i), si_last_heartbeat (f i)) = h (si_active i, si_last_heartbeat i)"
  shows "server_status (update_server j f nm) k = (if j = k then map_option h (server_status nm k) else server_status nm k)"
proof -
  have "nm_ss_list (update_server j f nm) = (case find_index (\<lambda>i. si_id i = j) (nm_ss_list nm) of None \<Rightarrow> nm_ss_list nm
      | Some n \<Rightarrow> (nm_ss_list nm)[n := f (nm_ss_list nm ! n)])"
    by (simp add: update_server_def server_index_def split: option.split)
  then show ?thesis
    unfolding status_find using find_update_first [where g = si_id and f = f, OF assms(1)] assms(2)
    by (simp add: option.map_comp comp_def)
qed

lemma status_heartbeat:
  "server_status (update_server j (\<lambda>i. i\<lparr>si_hb_sock := sock, si_last_heartbeat := now\<rparr>) nm) k =
     (if j = k then map_option (\<lambda>(up, _). (up, now)) (server_status nm k) else server_status nm k)"
  "server_status (update_server j (\<lambda>i. i\<lparr>si_last_heartbeat := now\<rparr>) nm) k =
     (if j = k then map_option (\<lambda>(up, _). (up, now)) (server_status nm k) else server_status nm k)"
  "server_status (update_server j (\<lambda>i. i\<lparr>si_hb_sock := sock, si_active := False\<rparr>) nm) k =
     (if j = k then map_option (\<lambda>(_, seen). (False, seen)) (server_status nm k) else server_status nm k)"
  by (rule status_update; simp)+

lemma status_monitor:
  "server_status (heartbeat_monitor now nm) k = map_option (\<lambda>(up, seen). (up \<and> now - seen < 60, seen)) (server_status nm k)"
proof -
  have id: "si_id (monitor_server now i) = si_id i" "si_last_heartbeat (monitor_server now i) = si_last_heartbeat i"
    "si_active (monitor_server now i) \<longleftrightarrow> si_active i \<and> now - si_last_heartbeat i < 60" for i
    by (auto simp: monitor_server_def Let_def)
  have "find (\<lambda>i. si_id i = k) (map (monitor_server now) xs) = map_option (monitor_server now) (find (\<lambda>i. si_id i = k) xs)" for xs
    by (induction xs) (simp_all add: id)
  then show ?thesis
    unfolding status_find by (simp add: heartbeat_monitor_def option.map_comp comp_def id)
qed

lemma status_register:
  assumes "server_status nm k \<noteq> None"
  shows "server_status (case register_ss now sock msg nm of None \<Rightarrow> nm | Some nm' \<Rightarrow> nm') k =
    (if msg_type msg = type_code MSG_REG_SS \<and> msg_ss_id msg = k then Some (True, now) else server_status nm k)"
proof (cases "register_ss now sock msg nm")
  case None
  with assms show ?thesis
    by (auto simp: register_ss_def Let_def server_status_def split: if_splits)
next
  case (Some nm')
  define e where "e = \<lparr>si_id = msg_ss_id msg, si_ip = msg_sender msg, si_nm_port = msg_nm_port msg,
     si_client_port = msg_client_port msg, si_sock = sock, si_hb_sock = -1, si_active = True, si_last_heartbeat = now,
     si_files = take MAX_FILES (strtok (CHR '','') (msg_data msg))\<rparr>"
  have e: "si_id e = msg_ss_id msg" "si_active e" "si_last_heartbeat e = now" by (simp_all add: e_def)
  from Some have l: "nm_ss_list nm' = (case find_index (\<lambda>i. si_id i = msg_ss_id msg) (nm_ss_list nm) of
        None \<Rightarrow> nm_ss_list nm @ [e] | Some n \<Rightarrow> (nm_ss_list nm)[n := e])" and t: "msg_type msg = type_code MSG_REG_SS"
    unfolding e_def by (auto simp: register_ss_def Let_def server_index_def simp del: MAX_FILES_def split: if_splits)
  have "find (\<lambda>i. si_id i = k) (nm_ss_list nm') = (if msg_ss_id msg = k then Some e else find (\<lambda>i. si_id i = k) (nm_ss_list nm))"
    if "find (\<lambda>i. si_id i = k) (nm_ss_list nm) \<noteq> None"
    unfolding l using find_register [where g = si_id and e = e, OF e(1) that] .
  with assms Some t e show ?thesis by (auto simp: status_find)
qed

lemma status_step:
  assumes "nm_step env e (nm, w) = Some (nm', w')" and "server_status nm k = Some st"
  shows "server_status nm' k = Some (beat k e st)"
proof (cases e)
  case (Client_request now resp msg)
  with assms(1) obtain r resp' where "dispatch env now resp msg nm w = Some (r, resp', nm', w')" by auto
  then have "server_status nm' = server_status nm" by (intro server_status_cong dispatch_servers)
  with assms(2) Client_request show ?thesis by simp
next
  case (Server_registers now sock msg)
  with assms have "server_status nm k \<noteq> None" and nm': "nm' = (case register_ss now sock msg nm of None \<Rightarrow> nm | Some nm' \<Rightarrow> nm')"
    by simp_all
  from status_register [OF this(1), of now sock msg] show ?thesis
    unfolding nm' Server_registers using assms(2) by (cases st) simp
next
  case (Heartbeat_connects now sock msg)
  with assms have "nm' = heartbeat_connects now sock msg nm" by simp
  with assms(2) Heartbeat_connects show ?thesis
    by (cases st) (auto simp: heartbeat_connects_def status_heartbeat)
next
  case (Heartbeat now j msg)
  with assms have "nm' = heartbeat_received now j msg nm" by simp
  with assms(2) Heartbeat show ?thesis
    by (cases st) (auto simp: heartbeat_received_def status_heartbeat)
next
  case (Heartbeat_lost j)
  with assms have "nm' = heartbeat_lost j nm" by simp
  with assms(2) Heartbeat_lost show ?thesis
    by (cases st) (auto simp: heartbeat_lost_def status_heartbeat)
next
  case (Monitor_round now)
  with assms show ?thesis by (cases st) (auto simp: status_monitor)
qed (use assms server_status_cong [OF connection_servers(1)] server_status_cong [OF connection_servers(2)] in auto)

lemma status_run:
  "nm_run env es (nm, w) = Some (nm', w') \<Longrightarrow> server_status nm k = Some st \<Longrightarrow>
     server_status nm' k = Some (fold (beat k) es st)"
proof (induction es arbitrary: nm w st)
  case (Cons e es)
  from Cons.prems(1) obtain nm1 w1 where s: "nm_step env e (nm, w) = Some (nm1, w1)" and r: "nm_run env es (nm1, w1) = Some (nm', w')"
    by (auto simp: bind_eq_Some_conv)
  from Cons.IH [OF r status_step [OF s Cons.prems(2)]] show ?case by simp
qed simp

lemma status_registered:
  assumes "register_ss now sock msg nm = Some nm'"
  shows "server_status nm' (msg_ss_id msg) = Some (True, now)"
proof -
  define e where "e = \<lparr>si_id = msg_ss_id msg, si_ip = msg_sender msg, si_nm_port = msg_nm_port msg,
     si_client_port = msg_client_port msg, si_sock = sock, si_hb_sock = -1, si_active = True, si_last_heartbeat = now,
     si_files = take MAX_FILES (strtok (CHR '','') (msg_data msg))\<rparr>"
  have e: "si_id e = msg_ss_id msg" "si_active e" "si_last_heartbeat e = now" by (simp_all add: e_def)
  from assms have l: "nm_ss_list nm' = (case find_index (\<lambda>i. si_id i = msg_ss_id msg) (nm_ss_list nm) of
        None \<Rightarrow> nm_ss_list nm @ [e] | Some n \<Rightarrow> (nm_ss_list nm)[n := e])"
    unfolding e_def by (auto simp: register_ss_def Let_def server_index_def simp del: MAX_FILES_def split: if_splits)
  have "find (\<lambda>i. si_id i = msg_ss_id msg) (nm_ss_list nm') = Some e"
  proof (cases "find_index (\<lambda>i. si_id i = msg_ss_id msg) (nm_ss_list nm)")
    case None
    then have "find (\<lambda>i. si_id i = msg_ss_id msg) (xs @ [e]) = Some e" if "set xs \<subseteq> set (nm_ss_list nm)" for xs
      using that by (induction xs) (auto simp: find_index_None e)
    with None show ?thesis unfolding l by simp
  next
    case (Some n)
    with find_replace [OF Some, of e "msg_ss_id msg"] e show ?thesis unfolding l by simp
  qed
  with e show ?thesis by (simp add: status_find)
qed

text \<open>
  C13. Whatever reaches the name server, and in any order: whether a storage server it knows is up, and
  when it last heard of it, is what the events say, read as \<open>beat\<close>. Nothing else, and no request of a
  client, takes a server out of service or brings it back.
\<close>

theorem server_status_refines:
  assumes "nm_run env es (nm, w) = Some (nm', w')" and "server_status nm k = Some st"
  shows "server_status nm' k = Some (fold (beat k) es st)"
  using assms by (rule status_run)

text \<open>
  The second half of \<open>handle_ss_connection\<close>: every three seconds it looks whether its server is still
  active, and closes the command socket when it is not. The list holds the states it sees; the result
  is whether it still waits.
\<close>

definition still_active :: "int \<Rightarrow> name_server \<Rightarrow> bool" where
  "still_active my_ss_id nm = (case server_index my_ss_id nm of None \<Rightarrow> False | Some i \<Rightarrow> si_active (nm_ss_list nm ! i))"

fun watch_ss :: "int \<Rightarrow> name_server list \<Rightarrow> bool" where
  "watch_ss my_ss_id [] = True"
| "watch_ss my_ss_id (nm # looks) = (still_active my_ss_id nm \<and> watch_ss my_ss_id looks)"

lemma still_active_status: "still_active k nm \<longleftrightarrow> (\<exists>seen. server_status nm k = Some (True, seen))"
  by (auto simp: still_active_def server_status_def split: option.split)

lemma watch_ss_all: "watch_ss k looks \<longleftrightarrow> (\<forall>nm \<in> set looks. still_active k nm)"
  by (induction looks) auto

section \<open>A server that falls silent\<close>

text \<open>A sign of life is a registration or a message on the heartbeat connection.\<close>

fun sign_of_life :: "int \<Rightarrow> nm_event \<Rightarrow> bool" where
  "sign_of_life k (Server_registers now sock msg) \<longleftrightarrow> msg_ss_id msg = k"
| "sign_of_life k (Heartbeat_connects now sock msg) \<longleftrightarrow> msg_ss_id msg = k"
| "sign_of_life k (Heartbeat now j msg) \<longleftrightarrow> j = k"
| "sign_of_life k _ \<longleftrightarrow> False"

definition registers :: "int \<Rightarrow> nm_event \<Rightarrow> bool" where
  "registers k e \<longleftrightarrow> (\<exists>now sock msg. e = Server_registers now sock msg \<and> msg_ss_id msg = k)"

lemma beat_silent: "\<not> sign_of_life k e \<Longrightarrow> snd (beat k e st) = snd st"
  by (cases e; cases st) auto

lemma silent_fold:
  "\<forall>e \<in> set es. \<not> sign_of_life k e \<Longrightarrow> snd (fold (beat k) es st) = snd st"
  by (induction es arbitrary: st) (simp_all add: beat_silent)

lemma beat_down: "\<not> registers k e \<Longrightarrow> \<not> fst st \<Longrightarrow> \<not> fst (beat k e st)"
  by (cases e; cases st) (auto simp: registers_def)

lemma down_fold: "\<forall>e \<in> set es. \<not> registers k e \<Longrightarrow> \<not> fst st \<Longrightarrow> \<not> fst (fold (beat k) es st)"
  by (induction es arbitrary: st) (simp_all add: beat_down)

text \<open>
  C29. A server that falls silent is noticed: once a round of the monitor comes 60 seconds after its
  last sign of life, it is out of service for good unless it registers again, however many requests
  come in between, and the thread of its command connection ends when it looks next.
\<close>

theorem silent_server_dropped:
  assumes "server_status nm k = Some (up, seen)" and "nm_run env (es1 @ Monitor_round now # es2) (nm, w) = Some (nm', w')"
    and "\<forall>e \<in> set es1. \<not> sign_of_life k e" and "\<forall>e \<in> set es2. \<not> registers k e" and "60 \<le> now - seen"
  shows "(\<exists>seen'. server_status nm' k = Some (False, seen')) \<and> \<not> watch_ss k (looks @ [nm'])"
proof -
  let ?st1 = "fold (beat k) es1 (up, seen)"
  have "snd ?st1 = seen" using silent_fold [OF assms(3), of "(up, seen)"] by simp
  then have "\<not> fst (beat k (Monitor_round now) ?st1)" using assms(5) by (cases ?st1) simp
  from down_fold [OF assms(4) this] have "\<not> fst (fold (beat k) (es1 @ Monitor_round now # es2) (up, seen))" by simp
  moreover have "server_status nm' k = Some (fold (beat k) (es1 @ Monitor_round now # es2) (up, seen))"
    using status_run [OF assms(2,1)] .
  ultimately show ?thesis
    by (cases "fold (beat k) (es1 @ Monitor_round now # es2) (up, seen)") (auto simp: watch_ss_all still_active_status)
qed

text \<open>
  The end of a heartbeat connection counts for whatever server has its id now. A server that
  reconnects before its old connection is found dead is up until that happens, and then out of service,
  although its heartbeats keep coming on the new connection: only a registration would bring it back,
  and it sends none while its own connections hold.
\<close>

lemma old_connection_drops_server:
  assumes "register_ss t1 sock msg nm = Some nm1" and "k = msg_ss_id msg"
    and "nm_run env (es1 @ Heartbeat_lost k # es2) (nm1, w) = Some (nm', w')"
    and "\<forall>e \<in> set es2. \<not> registers k e"
  shows "server_status nm1 k = Some (True, t1) \<and> (\<exists>seen. server_status nm' k = Some (False, seen))"
proof -
  have up: "server_status nm1 k = Some (True, t1)" using status_registered [OF assms(1)] assms(2) by simp
  let ?st1 = "fold (beat k) es1 (True, t1)"
  have "\<not> fst (beat k (Heartbeat_lost k) ?st1)" by (cases ?st1) simp
  from down_fold [OF assms(4) this] have "\<not> fst (fold (beat k) (es1 @ Heartbeat_lost k # es2) (True, t1))" by simp
  moreover have "server_status nm' k = Some (fold (beat k) (es1 @ Heartbeat_lost k # es2) (True, t1))"
    using status_run [OF assms(3) up] .
  ultimately show ?thesis using up by (cases "fold (beat k) (es1 @ Heartbeat_lost k # es2) (True, t1)") auto
qed

section \<open>A server that starts\<close>

lemma until_separator:
  "c \<notin> set y \<Longrightarrow> takeWhile (\<lambda>d. d \<noteq> c) (y @ c # r) = y"
  "c \<notin> set y \<Longrightarrow> dropWhile (\<lambda>d. d \<noteq> c) (y @ c # r) = c # r"
  by (induction y) auto

lemma strtok_step:
  assumes "c \<notin> set x" and "x \<noteq> []"
  shows "strtok c (x @ c # r) = x # strtok c r" and "strtok c x = [x]"
proof -
  obtain a y where x: "x = a # y" using assms(2) by (cases x) auto
  have t: "takeWhile (\<lambda>d. d \<noteq> c) (y @ c # r) = y" "dropWhile (\<lambda>d. d \<noteq> c) (y @ c # r) = c # r"
    "takeWhile (\<lambda>d. d \<noteq> c) y = y" "dropWhile (\<lambda>d. d \<noteq> c) y = []" "a \<noteq> c"
    using assms(1) unfolding x by (auto simp: takeWhile_eq_all_conv until_separator)
  have skip: "split_fields (\<lambda>d. d = c) (c # r) = split_fields (\<lambda>d. d = c) r"
    by (subst (1 2) split_fields.simps) simp
  have e: "split_fields (\<lambda>d. d = c) [] = []" by (subst split_fields.simps) simp
  show "strtok c (x @ c # r) = x # strtok c r" "strtok c x = [x]"
    unfolding strtok_def x by (subst split_fields.simps, simp add: t skip e)+
qed

lemma strtok_join: "\<forall>x \<in> set xs. x \<noteq> [] \<and> CHR '','' \<notin> set x \<Longrightarrow> strtok (CHR '','') (join_comma xs) = xs"
proof (induction xs rule: join_comma.induct)
  case 1
  show ?case by (simp add: strtok_def split_fields.simps)
qed (simp_all add: strtok_step)


section \<open>Witnesses\<close>

lemma demo_registered:
  "\<exists>nm. register_ss 0 5 (ss_message 1 ''az'') init_name_server = Some nm"
  by (simp add: register_ss_def ss_message_def Let_def init_name_server_def server_index_def)

definition heartbeat_of :: "int \<Rightarrow> message" where
  "heartbeat_of k = heartbeat_message ((demo_server [])\<lparr>ss_id := k\<rparr>)"

theorem server_status_refines_witness:
  "\<exists>nm nm'. server_status nm 1 = Some (True, 0)
     \<and> nm_run quiet_world [Heartbeat 20 1 (heartbeat_of 1), Monitor_round 79, Monitor_round 80] (nm, ()) = Some (nm', ())
     \<and> server_status nm' 1 = Some (False, 20)"
proof -
  obtain nm where r: "register_ss 0 5 (ss_message 1 ''az'') init_name_server = Some nm" using demo_registered ..
  from status_registered [OF r] have st: "server_status nm 1 = Some (True, 0)" by (simp add: ss_message_def)
  obtain nm' where n: "nm_run quiet_world [Heartbeat 20 1 (heartbeat_of 1), Monitor_round 79, Monitor_round 80] (nm, ()) = Some (nm', ())"
    by simp
  from server_status_refines [OF n st] st n show ?thesis
    by (intro exI [of _ nm] exI [of _ nm']) (simp add: heartbeat_of_def heartbeat_message_def)
qed

theorem silent_server_dropped_witness:
  "\<exists>nm nm' seen. server_status nm 1 = Some (True, 0)
     \<and> nm_run quiet_world ([] @ Monitor_round 60 # [Heartbeat 61 1 (heartbeat_of 1)]) (nm, ()) = Some (nm', ())
     \<and> server_status nm' 1 = Some (False, seen) \<and> \<not> watch_ss 1 ([nm] @ [nm'])"
proof -
  obtain nm where r: "register_ss 0 5 (ss_message 1 ''az'') init_name_server = Some nm" using demo_registered ..
  from status_registered [OF r] have st: "server_status nm 1 = Some (True, 0)" by (simp add: ss_message_def)
  obtain nm' where n: "nm_run quiet_world ([] @ Monitor_round 60 # [Heartbeat 61 1 (heartbeat_of 1)]) (nm, ()) = Some (nm', ())"
    by simp
  have h: "\<forall>e \<in> set []. \<not> sign_of_life 1 e" "\<forall>e \<in> set [Heartbeat 61 1 (heartbeat_of 1)]. \<not> registers 1 e" "60 \<le> 60 - (0::int)"
    by (simp_all add: registers_def)
  from silent_server_dropped [OF st n h, of "[nm]"] st n show ?thesis by blast
qed

definition demo_storage_dir :: disk where
  "demo_storage_dir = \<lparr>dk_files = [''./ss_storage_1/az'' \<mapsto> \<lparr>df_bytes = [], df_mtime = 0, df_atime = 0\<rparr>],
     dk_dirs = {''./ss_storage_1''}, dk_blocked = {}\<rparr>"


end
