(* ===== verification/Spec2Isabelle.thy ===== *)
theory Spec2Isabelle
  imports Prelude Common FileOps TrieIndex LruCache DiskOps SentenceLocks WriteSessions StorageServer
    EditSession NameServer NameRequests AccessControl Client Logger Deployment StateTypes ThreadPool
    NameThreads RequestThreads Races SessionThreads LockedThreads ServerLoops ServerStatus
begin

text \<open>
  Docs++, a shared document system in C: a name server (\<open>nm.c\<close>) keeps the file names and their
  owners, storage servers (\<open>ss.c\<close>) keep the files, and clients (\<open>client.c\<close>) talk to both over
  TCP. This development models the code as HOL functions on explicit states.

  \<^bold>\<open>The theories.\<close>

  \<^item> \<open>Prelude\<close>: characters, C strings (\<open>snprintf\<close>, \<open>strncpy\<close>, \<open>atoi\<close>), decimal numbers, lists.
  \<^item> \<open>Common\<close> (\<open>common.h\<close>, \<open>common.c\<close>): the message structure, its text format, the
    length-prefixed frames on a stream, and \<open>trim_whitespace\<close>.
  \<^item> \<open>FileOps\<close> (\<open>file_ops.c\<close>): a file's bytes as sentences of words; parsing, writing, inserting
    and counting. \<open>tokens\<close> and \<open>chunk\<close> are the specification of the parser.
  \<^item> \<open>DiskOps\<close> (\<open>file_ops.c\<close>): the disk, undo backups and checkpoints. The locale
    \<open>snapshot_store\<close> is the contract of both kinds of copy.
  \<^item> \<open>TrieIndex\<close> (\<open>trie.c\<close>): the file and the folder trie; the locale \<open>name_index\<close> is the
    contract of a map from names, and both tries provide it.
  \<^item> \<open>LruCache\<close> (\<open>cache.c\<close>): the metadata cache as a table of addresses and a doubly linked list
    on a heap of nodes. The locale \<open>recency_list\<close> is the contract of the list.
  \<^item> \<open>SentenceLocks\<close> (\<open>ss.c\<close>): the lock table; the locale \<open>sentence_locking\<close> is the contract of
    exclusive locks.
  \<^item> \<open>WriteSessions\<close> (\<open>ss.c\<close>): write sessions, temporary copies, the commit queue and the merge.
  \<^item> \<open>StorageServer\<close> (\<open>ss.c\<close>): every request of a client (\<open>client_request\<close>, from
    \<open>handle_client_request\<close>) and of the name server (\<open>nm_request\<close>, from \<open>handle_nm_communication\<close>) as a
    step; \<open>ss_reachable\<close> are the states the server can reach.
  \<^item> \<open>EditSession\<close>: the requests of a whole editing session (lock, write, unlock) one after the other,
    and the text they leave in the file.
  \<^item> \<open>NameServer\<close> (\<open>nm.c\<close>): the registry of users, the array of connected clients, registration and
    heartbeats of storage servers, the lookup of a file's server through cache and index, the access
    check. The locale \<open>session_registry\<close> is the contract of logging in and out.
  \<^item> \<open>NameRequests\<close> (\<open>nm.c\<close>): one definition per \<open>handle_*\<close> function, and \<open>dispatch\<close> for the loop of
    \<open>handle_client_connection\<close>, whose READ, WRITE, STREAM and UNDO cases are \<open>handle_redirect\<close>.
  \<^item> \<open>AccessControl\<close>: the runs of the name server (\<open>nm_step\<close>, \<open>nm_run\<close>) and who changes the rights on
    a file. The locale \<open>owner_controlled\<close> is the contract: a request touches a name only if its
    sender owns it or nobody does.
  \<^item> \<open>Client\<close> (\<open>client.c\<close>): the commands, WRITE with its reconnection, the command loop, the login.
  \<^item> \<open>Logger\<close> (\<open>logger.c\<close>): the two log files of a program.
  \<^item> \<open>StateTypes\<close> (the structures of \<open>common.h\<close> and of \<open>nm.c\<close>): what it means that a value fits its
    structure (a string its array, a number its C type, a list its array), that every event of the name
    server keeps that, and which registrations do not.
  \<^item> \<open>ServerLoops\<close> (\<open>ss.c\<close>): the arguments and the start of \<open>main\<close>, and the loops of the threads of a
    storage server around the steps of \<open>StorageServer\<close>.
  \<^item> \<open>ServerStatus\<close> (\<open>nm.c\<close>): which storage servers count as alive. \<open>beat\<close> is the specification of
    what an event means for one server; the loop that waits for its end; the start of a storage server seen
    from the name server.
  \<^item> \<open>ThreadPool\<close>: threads on a shared state, one step at a time in the order of a schedule. The locale
    \<open>pool_invariant\<close> is the contract of an invariant that the step of any thread keeps.
  \<^item> \<open>NameThreads\<close> (\<open>nm.c\<close>): CREATE, DELETE, ADDACCESS, REMACCESS, MOVE, CREATEFOLDER, the requests on
    checkpoints, READ, WRITE, STREAM and UNDO cut into the steps between their locks (\<open>nm_thread_step\<close>).
  \<^item> \<open>RequestThreads\<close> (\<open>nm.c\<close>): every request of a client as a thread (\<open>start_task\<close>, \<open>task_step\<close>): those of
    \<open>NameThreads\<close>, the queue of access requests, INFO, EXEC and the listings. The mutex of the queue and those of
    the sockets, which are held over several steps, are part of the state; a thread alone is \<open>dispatch\<close>.
  \<^item> \<open>SessionThreads\<close> (\<open>ss.c\<close>): the requests of a storage server as threads (\<open>start_request\<close>,
    \<open>ss_thread_step\<close>), with the pointers into the array of sessions: LOCK, WRITE, UNLOCK, CANCEL and UNDO are cut
    the same way, the others are one step; a thread alone is \<open>client_request\<close>.
  \<^item> \<open>LockedThreads\<close>: where such a thread stands with respect to its lock and its session, and what no schedule
    breaks; a lock between the two requests of a DELETE (\<open>busy_deployment\<close>).
  \<^item> \<open>Races\<close>: schedules of several CREATE threads with one and with two storage servers.
  \<^item> \<open>Deployment\<close>: the programs put together. \<open>deployment\<close> answers the requests of the name server by
    \<open>nm_request\<close>, and \<open>system_network\<close> the messages of a client by \<open>dispatch\<close> and \<open>client_request\<close>; its
    theorems follow a command from the user to the disk and back, and
    a document from its creation to a READ by another user.

  \<^bold>\<open>How the state corresponds.\<close> A C structure is a record with the same fields; a global is a field
  of the record of its component; a pointer is an address of an explicit heap where identity
  matters (the cache) and a value elsewhere. A character is a byte. A C string is the list of its
  bytes before the NUL, and a bounded copy cuts it. Sizes and counters that the code keeps small are
  \<open>nat\<close> or \<open>int\<close>; the hash of the cache is a 32-bit word because it wraps, and numbers read from a
  text are cut to their C type. Every mutex makes the operation under it one step. In most theories
  a whole request is one step, too, and the interleaving of requests is any sequence of them; \<open>NameThreads\<close>,
  \<open>RequestThreads\<close> and \<open>SessionThreads\<close> cut the requests between their locks, and run several
  threads under any schedule.

  \<^bold>\<open>What the lemmas show.\<close> The wire protocol and the parser round-trip and refine their specification;
  the index and, under the conditions found, the cache refine maps; sentences are locked by one user at
  a time, every session holds its lock, a commit merges exactly the locked sentence (and when it does
  not); rights change only at the owner's request; a command of a client has the effect that its
  user is told, with the exceptions proved; what one user writes is what another one reads. The state of
  the name server keeps within its structures; storage servers are up exactly as their signs of life say;
  of several CREATEs of a name on one storage server one succeeds under every schedule; under every schedule
  of their parts, too, a session holds its lock and a request for access is decided once. The
  interleavings that lose a change (of an access right, of a draft, of a file's owner, of a file under
  a session) are exhibited.

  \<^bold>\<open>Termination.\<close> Loops over data are structural recursion or have a measure. The probe loops of the
  cache and the loop that prints a stream may run forever and are \<open>partial_function (option)\<close>; that
  they return, or do not, is proved. The command loop of the client has fuel, one unit per round:
  every round takes a line of the input or ends, so the length of the input and one more is
  enough (\<open>command_loop_fuel\<close>, \<open>command_loop_returns\<close>). The loops of the threads run over the list of
  what the sockets deliver to them.

  \<^bold>\<open>Parameters.\<close> The order in which \<open>readdir\<close> lists a directory, the clock, the bytes of the network, the
  names a \<open>fopen\<close> of the log succeeds on, the interfaces of the machine and the connections that succeed
  when a storage server starts, the failures of its sockets, the schedule of threads. For the name server: the storage
  servers (\<open>env_rpc\<close>), the shell that EXEC calls (\<open>env_shell\<close>) and \<open>strftime\<close> (\<open>env_strftime\<close>). For the client: the
  record \<open>network\<close> of what \<open>send_message\<close>, \<open>recv_message\<close>, \<open>connect\<close> and \<open>close\<close> do.

  \<^bold>\<open>Not modelled.\<close> Memory allocation and its failure; the listening sockets, which only
  start a modelled thread for each connection, and the \<open>main\<close> of the name server, which only starts the
  listeners; \<open>set_socket_timeouts\<close> and
  \<open>get_timestamp\<close>; the signal pipe and \<open>select\<close> of the client beyond the arrival of an interrupt; what
  a write past the end of a buffer does (the overruns found are in the findings of the manifest);
  the interleaving of the operations on the disk within one READ or STREAM, or one request of the name server, on
  a storage server; the messages the servers print and their calls to the logger.
\<close>

end
